(* ===== verification/Prelude.thy ===== *)
theory Prelude
  imports Main "HOL-Library.Word" "HOL-Library.Sublist" "HOL-Library.List_Lexorder"
    "HOL-Library.Char_ord" "HOL-Library.AList"
begin

text \<open>
  Shared vocabulary of the development: byte strings with the operations of
  \<^verbatim>\<open>std::string\<close> the sources use (find, substr, comparison of a prefix, decimal
  conversions), C exceptions as values, the ordered map \<^verbatim>\<open>std::map\<close> as a sorted
  association list with its interface locale, and the named theorem collections that the
  component theories extend.
\<close>

section \<open>Collections\<close>

named_theorems string_lemmas \<open>facts about the std::string operations\<close>
named_theorems smap_lemmas \<open>facts about ordered maps\<close>

section \<open>Results that may be errors\<close>

text \<open>Go on with the value, or pass the error through: what an exception does between two calls.\<close>

fun sbind :: "'e + 'a \<Rightarrow> ('a \<Rightarrow> 'e + 'b) \<Rightarrow> 'e + 'b" where
  "sbind (Inl e) f = Inl e"
| "sbind (Inr x) f = f x"

lemma sbind_Inr_iff: "sbind r f = Inr y \<longleftrightarrow> (\<exists>x. r = Inr x \<and> f x = Inr y)"
  by (cases r) auto

lemma sbind_Inl_iff: "sbind r f = Inl e \<longleftrightarrow> r = Inl e \<or> (\<exists>x. r = Inr x \<and> f x = Inl e)"
  by (cases r) auto

lemma sbind_Inr_right [simp]: "sbind r Inr = r"
  by (cases r) auto

lemma sbind_assoc: "sbind (sbind r f) g = sbind r (\<lambda>x. sbind (f x) g)"
  by (cases r) auto

lemma sbind_cong [fundef_cong]:
  "r = r' \<Longrightarrow> (\<And>x. r' = Inr x \<Longrightarrow> f x = g x) \<Longrightarrow> sbind r f = sbind r' g"
  by (cases r') auto

text \<open>The list of results of a function that may fail, up to the first failure.\<close>

fun smap_list :: "('a \<Rightarrow> 'e + 'b) \<Rightarrow> 'a list \<Rightarrow> 'e + 'b list" where
  "smap_list f [] = Inr []"
| "smap_list f (x # xs) = sbind (f x) (\<lambda>y. sbind (smap_list f xs) (\<lambda>ys. Inr (y # ys)))"

section \<open>Characters\<close>

abbreviation CR :: char where "CR \<equiv> CHR 0x0D"
abbreviation LF :: char where "LF \<equiv> CHR 0x0A"
abbreviation TAB :: char where "TAB \<equiv> CHR 0x09"
abbreviation DQ :: char where "DQ \<equiv> CHR 0x22"
abbreviation BSL :: char where "BSL \<equiv> CHR 0x5C"
abbreviation crlf :: string where "crlf \<equiv> [CR, LF]"
abbreviation crlf2 :: string where "crlf2 \<equiv> [CR, LF, CR, LF]"

definition byte :: "char \<Rightarrow> nat" where
  "byte c = of_char c"

definition is_digit :: "char \<Rightarrow> bool" where
  "is_digit c \<longleftrightarrow> 48 \<le> byte c \<and> byte c \<le> 57"

definition is_upper :: "char \<Rightarrow> bool" where
  "is_upper c \<longleftrightarrow> 65 \<le> byte c \<and> byte c \<le> 90"

text \<open>\<^verbatim>\<open>isspace\<close> of the C locale.\<close>

definition is_space :: "char \<Rightarrow> bool" where
  "is_space c \<longleftrightarrow> byte c = 32 \<or> (9 \<le> byte c \<and> byte c \<le> 13)"

definition lower_char :: "char \<Rightarrow> char" where
  "lower_char c = (if is_upper c then char_of (byte c + 32) else c)"

lemma byte_less [simp]: "byte c < 256"
  by (simp add: byte_def)

lemma char_of_byte [simp]: "char_of (byte c) = c"
  by (simp add: byte_def)

lemma byte_char_of: "n < 256 \<Longrightarrow> byte (char_of n) = n"
  by (simp add: byte_def)

lemma byte_inject [simp]: "byte c = byte d \<longleftrightarrow> c = d"
  by (simp add: byte_def)

section \<open>Searching and cutting strings\<close>

text \<open>\<^verbatim>\<open>s.find(pat)\<close>: the first index at which \<open>pat\<close> occurs, \<open>None\<close> for npos.\<close>

fun find_str :: "string \<Rightarrow> string \<Rightarrow> nat option" where
  "find_str pat [] = (if pat = [] then Some 0 else None)"
| "find_str pat (c # s) =
     (if prefix pat (c # s) then Some 0 else map_option Suc (find_str pat s))"

text \<open>\<^verbatim>\<open>s.find(pat, pos)\<close>.\<close>

definition find_from :: "string \<Rightarrow> string \<Rightarrow> nat \<Rightarrow> nat option" where
  "find_from pat s pos =
     (if pos \<le> length s then map_option (\<lambda>i. pos + i) (find_str pat (drop pos s)) else None)"

text \<open>\<^verbatim>\<open>s.find(c)\<close> for one character.\<close>

definition find_char :: "char \<Rightarrow> string \<Rightarrow> nat option" where
  "find_char c s = find_str [c] s"

text \<open>\<^verbatim>\<open>s.rfind(c)\<close>: the last index of a character.\<close>

definition rfind_char :: "char \<Rightarrow> string \<Rightarrow> nat option" where
  "rfind_char c s = map_option (\<lambda>i. length s - 1 - i) (find_char c (rev s))"

text \<open>\<^verbatim>\<open>s.substr(pos, n)\<close> and \<^verbatim>\<open>s.substr(pos)\<close> for \<open>pos \<le> s.size()\<close>.\<close>

definition substr :: "string \<Rightarrow> nat \<Rightarrow> nat \<Rightarrow> string" where
  "substr s pos n = take n (drop pos s)"

lemma find_str_Some:
  "find_str pat s = Some i \<Longrightarrow> i \<le> length s \<and> prefix pat (drop i s)"
proof (induction s arbitrary: i)
  case Nil
  then show ?case by (auto split: if_splits)
next
  case (Cons c s)
  then show ?case by (auto split: if_splits)
qed

lemma find_str_split:
  assumes "find_str pat s = Some i"
  shows "s = take i s @ pat @ drop (i + length pat) s"
proof -
  from assms have "prefix pat (drop i s)" by (simp add: find_str_Some)
  then obtain r where r: "drop i s = pat @ r" by (auto simp: prefix_def)
  then have "drop (length pat) (drop i s) = r" by simp
  then have "r = drop (i + length pat) s" by (simp add: add.commute)
  with r show ?thesis by (metis append_take_drop_id)
qed

lemma find_str_first:
  "find_str pat s = Some i \<Longrightarrow> j < i \<Longrightarrow> \<not> prefix pat (drop j s)"
proof (induction s arbitrary: i j)
  case Nil
  then show ?case by (auto split: if_splits)
next
  case (Cons c s)
  show ?case
  proof (cases "prefix pat (c # s)")
    case True
    with Cons.prems show ?thesis by simp
  next
    case False
    with Cons.prems obtain k where k: "find_str pat s = Some k" "i = Suc k" by auto
    show ?thesis
    proof (cases j)
      case 0
      with False show ?thesis by simp
    next
      case (Suc j')
      with k Cons.prems(2) Cons.IH show ?thesis by auto
    qed
  qed
qed

lemma find_str_None: "find_str pat s = None \<Longrightarrow> j \<le> length s \<Longrightarrow> \<not> prefix pat (drop j s)"
proof (induction s arbitrary: j)
  case Nil
  then show ?case by (auto split: if_splits)
next
  case (Cons c s)
  then show ?case by (cases j) (auto split: if_splits)
qed

lemma find_str_length: "find_str pat s = Some i \<Longrightarrow> i + length pat \<le> length s"
  using find_str_Some[of pat s i] by (auto dest: prefix_length_le)

lemma find_str_append_notin:
  assumes "\<And>j. j < length u \<Longrightarrow> \<not> prefix pat (drop j (u @ pat @ v))"
  shows "find_str pat (u @ pat @ v) = Some (length u)"
  using assms
proof (induction u)
  case Nil
  have "prefix pat (pat @ v)" by simp
  then show ?case by (cases "pat @ v") auto
next
  case (Cons c u)
  from Cons.prems[of 0] have "\<not> prefix pat (c # u @ pat @ v)" by simp
  moreover have "find_str pat (u @ pat @ v) = Some (length u)"
    by (rule Cons.IH) (use Cons.prems[of "Suc j" for j] in auto)
  ultimately show ?case by simp
qed

lemma find_char_simps [simp]:
  "find_char c [] = None"
  "find_char c (d # s) = (if c = d then Some 0 else map_option Suc (find_char c s))"
  by (auto simp: find_char_def)

lemma find_char_None_iff: "find_char c s = None \<longleftrightarrow> c \<notin> set s"
  by (induction s) auto

lemma find_char_append_notin: "c \<notin> set u \<Longrightarrow> find_char c (u @ c # v) = Some (length u)"
  by (induction u) auto

lemma find_char_Some:
  "find_char c s = Some i \<Longrightarrow> i < length s \<and> s ! i = c \<and> c \<notin> set (take i s)"
  by (induction s arbitrary: i) (auto split: if_splits)

lemma find_char_split:
  "find_char c s = Some i \<Longrightarrow> s = take i s @ c # drop (Suc i) s"
  using find_char_Some[of c s i] id_take_nth_drop[of i s] by simp

section \<open>Numbers as text\<close>

text \<open>\<^verbatim>\<open>std::to_string\<close> of an unsigned and of a signed value.\<close>

definition digit_char :: "nat \<Rightarrow> char" where
  "digit_char d = char_of (48 + d)"

fun to_string :: "nat \<Rightarrow> string" where
  "to_string n =
     (if n < 10 then [digit_char n] else to_string (n div 10) @ [digit_char (n mod 10)])"

declare to_string.simps [simp del]

definition int_to_string :: "int \<Rightarrow> string" where
  "int_to_string i = (if i < 0 then CHR ''-'' # to_string (nat (- i)) else to_string (nat i))"

fun digits_value :: "nat \<Rightarrow> string \<Rightarrow> nat" where
  "digits_value acc [] = acc"
| "digits_value acc (c # s) = digits_value (10 * acc + (byte c - 48)) s"

text \<open>
  The common scan of \<^verbatim>\<open>strtol\<close> and \<^verbatim>\<open>strtoimax\<close> in base 10: leading white space,
  one optional sign, then digits. \<open>None\<close> when no conversion is made, otherwise the value
  (unbounded) and the unread rest.
\<close>

definition strtol_scan :: "string \<Rightarrow> (int \<times> string) option" where
  "strtol_scan s =
     (let t = dropWhile is_space s;
          neg = (t \<noteq> [] \<and> hd t = CHR ''-'');
          u = (if t \<noteq> [] \<and> (hd t = CHR ''-'' \<or> hd t = CHR ''+'') then tl t else t);
          ds = takeWhile is_digit u
      in if ds = [] then None
         else Some ((if neg then - int (digits_value 0 ds) else int (digits_value 0 ds)),
                    dropWhile is_digit u))"

text \<open>
  \<^verbatim>\<open>std::stoi\<close>: \<open>None\<close> stands for its two exceptions, invalid_argument (no
  conversion) and out_of_range (not an int); text after the number is ignored.
\<close>

definition stoi :: "string \<Rightarrow> int option" where
  "stoi s =
     (case strtol_scan s of
        None \<Rightarrow> None
      | Some (v, _) \<Rightarrow> if - (2 ^ 31) \<le> v \<and> v < 2 ^ 31 then Some v else None)"

lemma byte_digit_char: "d < 10 \<Longrightarrow> byte (digit_char d) = 48 + d"
  by (simp add: digit_char_def byte_char_of)

lemma is_digit_digit_char: "d < 10 \<Longrightarrow> is_digit (digit_char d)"
  by (simp add: is_digit_def byte_digit_char)

lemma to_string_nonempty [simp]: "to_string n \<noteq> []"
  by (subst to_string.simps) simp

lemma int_to_string_nonempty [simp]: "int_to_string i \<noteq> []"
  by (simp add: int_to_string_def)

lemma to_string_digits: "\<forall>c \<in> set (to_string n). is_digit c"
proof (induction n rule: to_string.induct)
  case (1 n)
  then show ?case
    by (subst to_string.simps) (auto simp: is_digit_digit_char)
qed

lemma digits_value_append: "digits_value a (s @ t) = digits_value (digits_value a s) t"
  by (induction s arbitrary: a) auto

lemma digits_value_to_string: "digits_value 0 (to_string n) = n"
proof (induction n rule: to_string.induct)
  case (1 n)
  then show ?case
    by (subst to_string.simps) (auto simp: digits_value_append byte_digit_char)
qed

lemma takeWhile_digits: "takeWhile is_digit (to_string n) = to_string n"
  using to_string_digits by (simp add: takeWhile_eq_all_conv)

lemma dropWhile_digits: "dropWhile is_digit (to_string n) = []"
  using to_string_digits by (simp add: dropWhile_eq_Nil_conv)

lemma is_digit_not_space: "is_digit c \<Longrightarrow> \<not> is_space c"
  by (auto simp: is_digit_def is_space_def)

lemma is_digit_not_sign: "is_digit c \<Longrightarrow> c \<noteq> CHR ''-'' \<and> c \<noteq> CHR ''+''"
  by (auto simp: is_digit_def byte_def)

lemma hd_to_string: "is_digit (hd (to_string n))"
  using to_string_digits[of n] hd_in_set[OF to_string_nonempty] by blast

lemma dropWhile_space_to_string: "dropWhile is_space (to_string n) = to_string n"
  using hd_to_string[of n] is_digit_not_space
  by (cases "to_string n") auto

theorem strtol_scan_int_to_string: "strtol_scan (int_to_string i) = Some (i, [])"
proof (cases "i < 0")
  case True
  have "\<not> is_space (CHR ''-'')" by (simp add: is_space_def byte_def)
  with True show ?thesis
    by (simp add: strtol_scan_def int_to_string_def takeWhile_digits dropWhile_digits
        digits_value_to_string)
next
  case False
  then show ?thesis
    using is_digit_not_sign[OF hd_to_string[of "nat i"]]
    by (simp add: strtol_scan_def int_to_string_def takeWhile_digits dropWhile_digits
        digits_value_to_string dropWhile_space_to_string)
qed

lemma stoi_int_to_string: "- (2 ^ 31) \<le> i \<Longrightarrow> i < 2 ^ 31 \<Longrightarrow> stoi (int_to_string i) = Some i"
  by (simp add: stoi_def strtol_scan_int_to_string)

lemma stoi_range: "stoi s = Some v \<Longrightarrow> - (2 ^ 31) \<le> v \<and> v < 2 ^ 31"
  by (auto simp: stoi_def split: option.splits if_splits)

section \<open>The interface of a map\<close>

text \<open>
  What the clients of \<^verbatim>\<open>std::map\<close> and \<^verbatim>\<open>std::unordered_map\<close> rely on: a lookup
  function, assignment through \<^verbatim>\<open>operator[]\<close>, and an invariant of the representation.
\<close>

locale keyed_map =
  fixes empty_map :: "'m"
    and get :: "'m \<Rightarrow> 'k \<Rightarrow> 'v option"
    and put :: "'k \<Rightarrow> 'v \<Rightarrow> 'm \<Rightarrow> 'm"
    and keys :: "'m \<Rightarrow> 'k set"
    and valid :: "'m \<Rightarrow> bool"
  assumes valid_empty: "valid empty_map"
    and get_empty: "get empty_map k = None"
    and valid_put: "valid m \<Longrightarrow> valid (put k v m)"
    and get_put: "valid m \<Longrightarrow> get (put k v m) k' = (if k' = k then Some v else get m k')"
    and keys_get: "valid m \<Longrightarrow> k \<in> keys m \<longleftrightarrow> get m k \<noteq> None"
begin

lemma get_put_same: "valid m \<Longrightarrow> get (put k v m) k = Some v"
  by (simp add: get_put)

lemma get_put_other: "valid m \<Longrightarrow> k' \<noteq> k \<Longrightarrow> get (put k v m) k' = get m k'"
  by (simp add: get_put)

lemma keys_put: "valid m \<Longrightarrow> keys (put k v m) = insert k (keys m)"
  by (auto simp: keys_get valid_put get_put split: if_splits)

text \<open>Filling a map from a list of assignments: the last assignment to a key wins.\<close>

lemma valid_fold: "valid m \<Longrightarrow> valid (fold (\<lambda>(k, v). put k v) kvs m)"
  by (induction kvs arbitrary: m) (auto simp: valid_put)

lemma get_fold:
  "valid m \<Longrightarrow> get (fold (\<lambda>(k, v). put k v) kvs m) k =
     (case map_of (rev kvs) k of None \<Rightarrow> get m k | Some v \<Rightarrow> Some v)"
proof (induction kvs arbitrary: m)
  case Nil
  then show ?case by simp
next
  case (Cons kv kvs)
  then show ?case
    by (cases kv) (auto simp: valid_put get_put map_add_def split: option.splits)
qed

end

section \<open>Ordered maps\<close>

text \<open>
  \<^verbatim>\<open>std::map\<close> iterates in key order, so the model is an association list sorted by
  strictly increasing keys. \<open>smap_put\<close> is the assignment \<^verbatim>\<open>m[key] = v\<close>.
\<close>

type_synonym ('k, 'v) smap = "('k \<times> 'v) list"

fun smap_put :: "'k::linorder \<Rightarrow> 'v \<Rightarrow> ('k, 'v) smap \<Rightarrow> ('k, 'v) smap" where
  "smap_put key v [] = [(key, v)]"
| "smap_put key v (entry # rest) =
     (if fst entry < key then entry # smap_put key v rest
      else if fst entry = key then (key, v) # rest
      else (key, v) # entry # rest)"

definition smap_ok :: "('k::linorder, 'v) smap \<Rightarrow> bool" where
  "smap_ok m \<longleftrightarrow> sorted_wrt (<) (map fst m)"

definition smap_keys :: "('k, 'v) smap \<Rightarrow> 'k set" where
  "smap_keys m = fst ` set m"

lemma smap_ok_simps [simp]:
  "smap_ok []"
  "smap_ok (e # m) \<longleftrightarrow> (\<forall>k \<in> fst ` set m. fst e < k) \<and> smap_ok m"
  by (auto simp: smap_ok_def)

lemma set_smap_put: "fst ` set (smap_put key v m) = insert key (fst ` set m)"
  by (induction m) auto

lemma smap_ok_put: "smap_ok m \<Longrightarrow> smap_ok (smap_put key v m)"
proof (induction m)
  case Nil
  then show ?case by simp
next
  case (Cons e m)
  then show ?case
    by (auto simp: set_smap_put)
qed

lemma map_of_smap_put: "map_of (smap_put key v m) = (map_of m)(key \<mapsto> v)"
  if "smap_ok m" for m :: "('k::linorder, 'v) smap"
  using that
proof (induction m)
  case Nil
  then show ?case by auto
next
  case (Cons e m)
  then show ?case
    by (cases e) (auto simp: fun_eq_iff)
qed

lemma smap_put_last:
  "(\<forall>k \<in> fst ` set m. k < key) \<Longrightarrow> smap_put key v m = m @ [(key, v)]"
  by (induction m) auto

interpretation smap: keyed_map "[] :: ('k::linorder, 'v) smap" map_of smap_put smap_keys smap_ok
proof unfold_locales
  fix m :: "('k, 'v) smap" and k :: 'k
  show "smap_ok m \<Longrightarrow> k \<in> smap_keys m \<longleftrightarrow> map_of m k \<noteq> None"
    by (simp add: smap_keys_def map_of_eq_None_iff)
qed (auto simp: smap_ok_put map_of_smap_put)

lemma fold_smap_put_sorted:
  "smap_ok (m @ kvs) \<Longrightarrow> fold (\<lambda>(k, v). smap_put k v) kvs m = m @ kvs"
proof (induction kvs arbitrary: m)
  case Nil
  then show ?case by simp
next
  case (Cons kv kvs)
  from Cons.prems have "\<forall>k \<in> fst ` set m. k < fst kv"
    by (auto simp: smap_ok_def sorted_wrt_append)
  then have "smap_put (fst kv) (snd kv) m = m @ [kv]"
    by (simp add: smap_put_last)
  with Cons show ?case by (cases kv) simp
qed

section \<open>Ordered sets\<close>

text \<open>\<^verbatim>\<open>std::set\<close>: a strictly sorted list; inserting a present element does nothing.\<close>

fun sset_insert :: "'a::linorder \<Rightarrow> 'a list \<Rightarrow> 'a list" where
  "sset_insert x [] = [x]"
| "sset_insert x (y # ys) =
     (if y < x then y # sset_insert x ys else if y = x then y # ys else x # y # ys)"

lemma set_sset_insert [simp]: "set (sset_insert x ys) = insert x (set ys)"
  by (induction ys) auto

lemma sorted_sset_insert: "sorted_wrt (<) ys \<Longrightarrow> sorted_wrt (<) (sset_insert x ys)"
  by (induction ys) auto

section \<open>Unordered maps\<close>

text \<open>
  \<^verbatim>\<open>std::unordered_map\<close>: an association list with distinct keys, in some order.
\<close>

type_synonym ('k, 'v) umap = "('k \<times> 'v) list"

definition umap_ok :: "('k, 'v) umap \<Rightarrow> bool" where
  "umap_ok m \<longleftrightarrow> distinct (map fst m)"

interpretation umap: keyed_map "[] :: ('k, 'v) umap" map_of AList.update smap_keys umap_ok
  by unfold_locales
    (auto simp: umap_ok_def smap_keys_def update_conv' map_of_eq_None_iff distinct_update)

section \<open>Encodings\<close>

text \<open>
  The contract of a pair of functions that write and read a value: what is written is read back.
  Written values are then different for different values. Writing what another pair wrote is such a
  pair as well; a segment of a token is base64url around JSON around claims.
\<close>

locale codec =
  fixes enc :: "'a \<Rightarrow> 'b" and dec :: "'b \<Rightarrow> 'e + 'a" and codable :: "'a \<Rightarrow> bool"
  assumes dec_enc: "codable x \<Longrightarrow> dec (enc x) = Inr x"
begin

lemma enc_eq: "codable x \<Longrightarrow> codable y \<Longrightarrow> enc x = enc y \<longleftrightarrow> x = y"
  using dec_enc by (metis sum.inject(2))

lemma enc_inj_on: "inj_on enc {x. codable x}"
  by (auto intro: inj_onI simp: enc_eq)

end

locale layered_codec =
  inner: codec enc dec codable + outer: codec wrap unwrap wrappable
  for enc :: "'a \<Rightarrow> 'b" and dec :: "'b \<Rightarrow> 'e + 'a" and codable
    and wrap :: "'b \<Rightarrow> 'c" and unwrap :: "'c \<Rightarrow> 'e + 'b" and wrappable +
  assumes wrappable_enc: "codable x \<Longrightarrow> wrappable (enc x)"

sublocale layered_codec \<subseteq> both: codec "\<lambda>x. wrap (enc x)" "\<lambda>t. sbind (unwrap t) dec" codable
  by unfold_locales (simp add: inner.dec_enc outer.dec_enc wrappable_enc)

end
