(* ===== verification/Http.thy ===== *)
theory Http
  imports Prelude
begin

text \<open>
  The HTTP/1.x request parser and response builder of \<^verbatim>\<open>src/Http.h\<close> and
  \<^verbatim>\<open>src/Http.cpp\<close>. Header maps are ordered maps of the prelude
  (\<^verbatim>\<open>std::map<std::string, std::string>\<close>). A request that is refused is \<open>None\<close>
  (\<^verbatim>\<open>return false\<close>; the caller discards the half-filled output).
\<close>

named_theorems http_lemmas \<open>facts about parsing and building HTTP messages\<close>

section \<open>Data\<close>

record http_request =
  req_method :: string
  req_target :: string
  req_path :: string
  req_query :: string
  req_version :: string
  req_headers :: "(string, string) smap"
  req_body :: string
  req_clientIp :: string

record http_response =
  resp_status :: int
  resp_headers :: "(string, string) smap"
  resp_body :: string

definition header :: "http_request \<Rightarrow> string \<Rightarrow> string" where
  "header req name = (case map_of (req_headers req) name of None \<Rightarrow> [] | Some v \<Rightarrow> v)"

section \<open>String helpers\<close>

definition toLower :: "string \<Rightarrow> string" where
  "toLower s = map lower_char s"

definition is_blank :: "char \<Rightarrow> bool" where
  "is_blank c \<longleftrightarrow> c = CHR '' '' \<or> c = TAB"

text \<open>Two index loops move \<open>a\<close> forward and \<open>b\<close> backward over blanks.\<close>

definition trimStr :: "string \<Rightarrow> string" where
  "trimStr s =
     (let a = length (takeWhile is_blank s);
          b = length s - length (takeWhile is_blank (rev (drop a s)))
      in substr s a (b - a))"

definition reasonPhrase :: "int \<Rightarrow> string" where
  "reasonPhrase status =
     (if status = 200 then ''OK''
      else if status = 400 then ''Bad Request''
      else if status = 401 then ''Unauthorized''
      else if status = 403 then ''Forbidden''
      else if status = 404 then ''Not Found''
      else if status = 405 then ''Method Not Allowed''
      else if status = 413 then ''Payload Too Large''
      else if status = 429 then ''Too Many Requests''
      else if status = 502 then ''Bad Gateway''
      else if status = 504 then ''Gateway Timeout''
      else ''Error'')"

definition hex_digit :: "nat \<Rightarrow> char" where
  "hex_digit d = (if d < 10 then char_of (48 + d) else char_of (87 + d))"

text \<open>\<^verbatim>\<open>snprintf("\\u%04x", c)\<close> for a byte.\<close>

definition u_escape :: "char \<Rightarrow> string" where
  "u_escape c =
     [BSL, CHR ''u'', CHR ''0'', CHR ''0'', hex_digit (byte c div 16), hex_digit (byte c mod 16)]"

definition jsonEscape_char :: "char \<Rightarrow> string" where
  "jsonEscape_char c =
     (if c = DQ then [BSL, DQ]
      else if c = BSL then [BSL, BSL]
      else if c = LF then [BSL, CHR ''n'']
      else if c = CR then [BSL, CHR ''r'']
      else if c = TAB then [BSL, CHR ''t'']
      else if byte c < 0x20 then u_escape c
      else [c])"

definition jsonEscape :: "string \<Rightarrow> string" where
  "jsonEscape s = concat (map jsonEscape_char s)"

definition jsonError :: "int \<Rightarrow> string \<Rightarrow> string \<Rightarrow> http_response" where
  "jsonError status code msg =
     \<lparr> resp_status = status,
       resp_headers = smap_put ''content-type'' ''application/json'' [],
       resp_body = ''{\"error\":\"'' @ jsonEscape code @ ''\",\"message\":\"'' @ jsonEscape msg @ ''\"}'' \<rparr>"

section \<open>Parsing a request head\<close>

text \<open>\<^verbatim>\<open>stream >> word\<close>: skip white space, then take a non-empty run of other characters.\<close>

definition read_word :: "string \<Rightarrow> (string \<times> string) option" where
  "read_word s =
     (let t = dropWhile is_space s; w = takeWhile (\<lambda>c. \<not> is_space c) t
      in if w = [] then None else Some (w, dropWhile (\<lambda>c. \<not> is_space c) t))"

text \<open>METHOD SP TARGET SP VERSION, nothing after the version.\<close>

definition parse_request_line :: "string \<Rightarrow> (string \<times> string \<times> string) option" where
  "parse_request_line l =
     (case read_word l of
        None \<Rightarrow> None
      | Some (m, l1) \<Rightarrow> (case read_word l1 of
          None \<Rightarrow> None
        | Some (t, l2) \<Rightarrow> (case read_word l2 of
            None \<Rightarrow> None
          | Some (v, l3) \<Rightarrow> (case read_word l3 of
              None \<Rightarrow> Some (m, t, v)
            | Some _ \<Rightarrow> None))))"

definition method_char :: "char \<Rightarrow> bool" where
  "method_char c \<longleftrightarrow> is_upper c \<or> c = CHR ''-''"

text \<open>\<open>target\<close> split at its first question mark into path and query.\<close>

definition split_target :: "string \<Rightarrow> string \<times> string" where
  "split_target t =
     (case find_char (CHR ''?'') t of
        None \<Rightarrow> (t, [])
      | Some q \<Rightarrow> (substr t 0 q, drop (q + 1) t))"

lemma find_from_ge: "find_from pat s pos = Some i \<Longrightarrow> pos \<le> i"
  by (auto simp: find_from_def split: if_splits)

text \<open>The header loop from byte \<open>pos\<close> of the head.\<close>

function parse_headers ::
  "string \<Rightarrow> nat \<Rightarrow> (string, string) smap \<Rightarrow> (string, string) smap option" where
  "parse_headers head pos hs =
     (if pos < length head then
        (case find_from crlf head pos of
           None \<Rightarrow> None
         | Some eol \<Rightarrow>
             if eol = pos then Some hs
             else
               (let line = substr head pos (eol - pos)
                in case find_char (CHR '':'') line of
                     None \<Rightarrow> None
                   | Some colon \<Rightarrow>
                       (let name = toLower (trimStr (substr line 0 colon));
                            value = trimStr (drop (colon + 1) line)
                        in if name = [] \<or> 8192 < length value then None
                           else if 100 < length hs then None
                           else parse_headers head (eol + 2) (smap_put name value hs))))
      else Some hs)"
  by pat_completeness auto

termination
  by (relation "measure (\<lambda>(head, pos, hs). length head - pos)")
    (auto dest: find_from_ge)

declare parse_headers.simps [simp del]

definition parseHttpRequest :: "string \<Rightarrow> http_request option" where
  "parseHttpRequest head =
     (case find_str crlf head of
        None \<Rightarrow> None
      | Some lineEnd \<Rightarrow>
          (case parse_request_line (substr head 0 lineEnd) of
             None \<Rightarrow> None
           | Some (m, t, v) \<Rightarrow>
               if \<not> list_all method_char m then None
               else if t = [] \<or> hd t \<noteq> CHR ''/'' then None
               else if \<not> prefix ''HTTP/'' v then None
               else
                 (let (p, q) = split_target t
                  in if find_str ''..'' p \<noteq> None then None
                     else
                       (case parse_headers head (lineEnd + 2) [] of
                          None \<Rightarrow> None
                        | Some hs \<Rightarrow>
                            Some \<lparr> req_method = m, req_target = t, req_path = p, req_query = q,
                                   req_version = v, req_headers = hs, req_body = [],
                                   req_clientIp = [] \<rparr>))))"

section \<open>Building a response\<close>

definition header_line :: "string \<times> string \<Rightarrow> string" where
  "header_line kv = fst kv @ '': '' @ snd kv @ crlf"

definition buildResponse :: "http_response \<Rightarrow> string" where
  "buildResponse r =
     (let hasType = (map_of (resp_headers r) ''content-type'' \<noteq> None);
          hasLen = (map_of (resp_headers r) ''content-length'' \<noteq> None)
      in ''HTTP/1.1 '' @ int_to_string (resp_status r) @ '' '' @ reasonPhrase (resp_status r) @ crlf
         @ concat (map header_line (resp_headers r))
         @ (if hasType then [] else ''content-type: application/json'' @ crlf)
         @ (if hasLen then [] else ''content-length: '' @ to_string (length (resp_body r)) @ crlf)
         @ ''connection: close'' @ crlf2
         @ resp_body r)"

section \<open>Header lines\<close>

text \<open>A block of lines, each ended by CR LF.\<close>

definition head_lines :: "string list \<Rightarrow> string" where
  "head_lines ls = concat (map (\<lambda>l. l @ crlf) ls)"

definition line_ok :: "string \<Rightarrow> bool" where
  "line_ok l \<longleftrightarrow> l \<noteq> [] \<and> CR \<notin> set l"

lemma head_lines_simps [simp]:
  "head_lines [] = []"
  "head_lines (l # ls) = l @ crlf @ head_lines ls"
  "head_lines (ls @ ms) = head_lines ls @ head_lines ms"
  by (simp_all add: head_lines_def)

lemma find_crlf2_skip:
  "CR \<notin> set l \<Longrightarrow> find_str crlf2 (l @ s) = map_option (\<lambda>i. length l + i) (find_str crlf2 s)"
proof (induction l)
  case Nil
  then show ?case by (simp add: option.map_ident)
next
  case (Cons c l)
  then show ?case by (cases "find_str crlf2 s") auto
qed

lemma find_crlf_skip:
  "CR \<notin> set l \<Longrightarrow> find_str crlf (l @ s) = map_option (\<lambda>i. length l + i) (find_str crlf s)"
proof (induction l)
  case Nil
  then show ?case by (simp add: option.map_ident)
next
  case (Cons c l)
  then show ?case by (cases "find_str crlf s") auto
qed

lemma find_crlf_line: "CR \<notin> set l \<Longrightarrow> find_str crlf (l @ CR # LF # s) = Some (length l)"
  by (simp add: find_crlf_skip)

text \<open>The first empty line is the one after the block.\<close>

lemma find_crlf2_head_lines:
  "ls \<noteq> [] \<Longrightarrow> list_all line_ok ls \<Longrightarrow>
   find_str crlf2 (head_lines ls @ crlf @ body) = Some (length (head_lines ls) - 2)"
proof (induction ls)
  case Nil
  then show ?case by simp
next
  case (Cons l ls)
  have l: "CR \<notin> set l" using Cons.prems by (simp add: line_ok_def)
  show ?case
  proof (cases ls)
    case Nil
    with l show ?thesis by (simp add: find_crlf2_skip)
  next
    case (Cons m ms)
    then obtain c t where m: "m = c # t" "c \<noteq> CR"
      using Cons.prems by (cases m) (auto simp: line_ok_def)
    have "find_str crlf2 (head_lines ls @ crlf @ body) = Some (length (head_lines ls) - 2)"
      by (rule Cons.IH) (use Cons Cons.prems in auto)
    moreover have "2 \<le> length (head_lines ls)" using Cons by simp
    moreover have "head_lines ls = c # t @ crlf @ head_lines ms" using Cons m by simp
    ultimately show ?thesis using l m by (simp add: find_crlf2_skip)
  qed
qed

section \<open>The head that the connection handler passes\<close>

lemma find_from_Some:
  assumes "find_from pat s pos = Some i"
  shows "pos \<le> i \<and> i + length pat \<le> length s \<and> prefix pat (drop i s)"
proof -
  from assms obtain k where k: "find_str pat (drop pos s) = Some k" "i = pos + k" "pos \<le> length s"
    by (auto simp: find_from_def split: if_splits)
  with find_str_length[OF k(1)] find_str_Some[OF k(1)] show ?thesis
    by (auto simp: add.commute)
qed

lemma prefix_crlf2:
  assumes "prefix crlf (drop i s)" "prefix crlf (drop (i + 2) s)"
  shows "prefix crlf2 (drop i s)"
proof -
  from assms(1) obtain r where r: "drop i s = CR # LF # r" by (auto simp: prefix_def)
  then have "drop (i + 2) s = r" by (metis add.commute drop_drop drop_Suc_Cons drop0 numeral_2_eq_2)
  with assms(2) r show ?thesis by (auto simp: prefix_def)
qed

lemma parse_headers_complete:
  "parse_headers head pos hs = Some r \<Longrightarrow> 2 \<le> pos \<Longrightarrow> pos \<le> length head \<Longrightarrow>
   prefix crlf (drop (pos - 2) head) \<Longrightarrow>
   suffix crlf head \<or> (\<exists>j \<le> length head. prefix crlf2 (drop j head))"
proof (induction head pos hs rule: parse_headers.induct)
  case (1 head pos hs)
  show ?case
  proof (cases "pos < length head")
    case False
    with "1.prems" have "length (drop (pos - 2) head) = 2" by simp
    moreover from "1.prems"(4) obtain r where "drop (pos - 2) head = crlf @ r"
      by (auto simp: prefix_def)
    ultimately have "drop (pos - 2) head = crlf" by (metis append.right_neutral length_append
          add_cancel_right_right length_0_conv list.size(3,4) One_nat_def Suc_eq_plus1 numeral_2_eq_2)
    then show ?thesis by (metis suffix_drop)
  next
    case True
    with "1.prems"(1) obtain eol where eol: "find_from crlf head pos = Some eol"
      by (subst (asm) parse_headers.simps) (auto split: option.splits)
    note found = find_from_Some[OF eol]
    show ?thesis
    proof (cases "eol = pos")
      case True
      have "pos - 2 + 2 = pos" using "1.prems"(2) by simp
      with found True "1.prems"(4) have "prefix crlf2 (drop (pos - 2) head)"
        by (intro prefix_crlf2) simp_all
      with "1.prems"(3) show ?thesis by (intro disjI2 exI[of _ "pos - 2"]) auto
    next
      case False
      with "1.prems"(1) True eol obtain colon nm vl where
        "find_char (CHR '':'') (substr head pos (eol - pos)) = Some colon"
        "nm = toLower (trimStr (substr (substr head pos (eol - pos)) 0 colon))"
        "vl = trimStr (drop (colon + 1) (substr head pos (eol - pos)))"
        "\<not> (nm = [] \<or> 8192 < length vl)" "\<not> 100 < length hs"
        "parse_headers head (eol + 2) (smap_put nm vl hs) = Some r"
        by (subst (asm) parse_headers.simps) (auto simp: Let_def split: option.splits if_splits)
      with "1.IH"[OF True eol False refl] found show ?thesis by simp
    qed
  qed
qed

lemma cut_head_refused:
  assumes "find_str crlf2 head = Some eoh"
  shows "parseHttpRequest (substr head 0 eoh) = None"
proof (rule ccontr)
  let ?h = "substr head 0 eoh"
  assume "parseHttpRequest ?h \<noteq> None"
  then obtain le hs where le: "find_str crlf ?h = Some le"
    and ph: "parse_headers ?h (le + 2) [] = Some hs"
    by (auto simp: parseHttpRequest_def split: option.splits if_splits prod.splits)
  have eoh: "eoh + 4 \<le> length head" "prefix crlf2 (drop eoh head)"
    using find_str_length[OF assms] find_str_Some[OF assms] by auto
  have "suffix crlf ?h \<or> (\<exists>j \<le> length ?h. prefix crlf2 (drop j ?h))"
    using parse_headers_complete[OF ph] find_str_length[OF le] find_str_Some[OF le] by simp
  then show False
  proof
    assume "suffix crlf ?h"
    then obtain x where x: "take eoh head = x @ crlf" by (auto simp: suffix_def substr_def)
    then have "length x + 2 = eoh" using eoh(1) by (metis (no_types) length_append length_take
          min.absorb2 le_add1 order_trans list.size(3,4) One_nat_def Suc_eq_plus1 numeral_2_eq_2)
    moreover have "drop (length x) head = crlf @ drop eoh head"
      using x by (metis append.assoc append_eq_conv_conj append_take_drop_id)
    ultimately have "prefix crlf2 (drop (length x) head)" "length x < eoh"
      using eoh(2) by (auto simp: prefix_def)
    with find_str_first[OF assms] show False by blast
  next
    assume "\<exists>j \<le> length ?h. prefix crlf2 (drop j ?h)"
    then obtain j where j: "prefix crlf2 (drop j (take eoh head))" by (auto simp: substr_def)
    then have "4 \<le> length (drop j (take eoh head))" using prefix_length_le by fastforce
    then have "j < eoh" by simp
    moreover have "prefix crlf2 (drop j head)"
      using j by (metis drop_take take_is_prefix prefix_order.trans)
    ultimately show False using find_str_first[OF assms] by blast
  qed
qed

text \<open>a head cut off just before its empty line, which is what the connection handler passes
  (\<^verbatim>\<open>head.substr(0, head.find("\r\n\r\n"))\<close>), never parses: the cut removes the CR LF of
  the last line, and the parser refuses a line without one.\<close>
theorem parse_head_without_last_crlf:
  assumes "find_str crlf2 head = Some eoh"
  shows "parseHttpRequest (substr head 0 eoh) = None"
  using assms by (rule cut_head_refused)

lemma parse_head_without_last_crlf_witness:
  "find_str crlf2 (head_lines [''GET /health HTTP/1.1'', ''host: x''] @ crlf) = Some 29 \<and>
   parseHttpRequest (substr (head_lines [''GET /health HTTP/1.1'', ''host: x''] @ crlf) 0 29) = None"
proof -
  have f: "find_str crlf2 (head_lines [''GET /health HTTP/1.1'', ''host: x''] @ crlf) = Some 29"
    by (simp add: head_lines_def)
  with parse_head_without_last_crlf [OF f] show ?thesis by blast
qed

section \<open>What an accepted request satisfies\<close>

lemma take_rev_dropWhile:
  "take (length xs - length (takeWhile P (rev xs))) xs = rev (dropWhile P (rev xs))"
proof -
  have e: "xs = rev (dropWhile P (rev xs)) @ rev (takeWhile P (rev xs))"
    by (metis rev_append rev_rev_ident takeWhile_dropWhile_id)
  then have "length xs - length (takeWhile P (rev xs)) = length (rev (dropWhile P (rev xs)))"
    by (metis add_diff_cancel_right' length_append length_rev)
  with e show ?thesis by (metis append_eq_conv_conj)
qed

lemma trimStr_alt: "trimStr s = rev (dropWhile is_blank (rev (dropWhile is_blank s)))"
proof -
  let ?d = "dropWhile is_blank s" and ?a = "length (takeWhile is_blank s)"
  have d: "drop ?a s = ?d" by (simp add: dropWhile_eq_drop)
  have "length s = ?a + length ?d" by (metis length_append takeWhile_dropWhile_id)
  then have "trimStr s = take (length ?d - length (takeWhile is_blank (rev ?d))) ?d"
    by (simp add: trimStr_def Let_def substr_def d)
  then show ?thesis by (simp only: take_rev_dropWhile)
qed

definition trimmed :: "string \<Rightarrow> bool" where
  "trimmed s \<longleftrightarrow> s = [] \<or> (\<not> is_blank (hd s) \<and> \<not> is_blank (last s))"

lemma trimmed_trimStr: "trimmed (trimStr s)"
proof (cases "trimStr s = []")
  case False
  let ?e = "dropWhile is_blank (rev (dropWhile is_blank s))"
  have ne: "?e \<noteq> []" using False by (simp add: trimStr_alt)
  have "last (trimStr s) = hd ?e" using ne by (simp add: trimStr_alt last_rev)
  then have l: "\<not> is_blank (last (trimStr s))" using ne by (simp add: hd_dropWhile)
  have "suffix ?e (rev (dropWhile is_blank s))" by (simp add: suffix_dropWhile)
  then have "last ?e = last (rev (dropWhile is_blank s))" using ne by (metis suffix_def last_append)
  moreover have "dropWhile is_blank s \<noteq> []" using ne by (metis dropWhile.simps(1) rev.simps(1))
  ultimately have "hd (trimStr s) = hd (dropWhile is_blank s)"
    using ne by (simp add: trimStr_alt hd_rev last_rev)
  then have "\<not> is_blank (hd (trimStr s))"
    using \<open>dropWhile is_blank s \<noteq> []\<close> by (simp add: hd_dropWhile)
  with l show ?thesis by (simp add: trimmed_def)
qed (simp add: trimmed_def)

lemma trimmed_id: "trimmed s \<Longrightarrow> trimStr s = s"
proof (cases s)
  case (Cons c t)
  assume "trimmed s"
  with Cons have "\<not> is_blank c" "\<not> is_blank (hd (rev s))" "rev s \<noteq> []"
    by (auto simp: trimmed_def hd_rev simp del: rev.simps)
  then have "dropWhile is_blank s = s" "dropWhile is_blank (rev s) = rev s"
    using Cons by (auto simp: dropWhile_eq_self_iff)
  then show ?thesis by (simp add: trimStr_alt)
qed (simp add: trimStr_alt)

lemma trimStr_blank: "is_blank c \<Longrightarrow> trimStr (c # s) = trimStr s"
  by (simp add: trimStr_alt)

lemma lower_char_idem [simp]: "lower_char (lower_char c) = lower_char c"
  by (auto simp: lower_char_def is_upper_def byte_char_of)

lemma toLower_idem [simp]: "toLower (toLower s) = toLower s"
  by (simp add: toLower_def)

definition header_ok :: "string \<times> string \<Rightarrow> bool" where
  "header_ok kv \<longleftrightarrow>
     fst kv \<noteq> [] \<and> toLower (fst kv) = fst kv \<and> trimmed (snd kv) \<and> length (snd kv) \<le> 8192"

definition request_ok :: "http_request \<Rightarrow> bool" where
  "request_ok r \<longleftrightarrow>
     req_method r \<noteq> [] \<and> list_all method_char (req_method r) \<and>
     prefix ''/'' (req_target r) \<and> list_all (\<lambda>c. \<not> is_space c) (req_target r) \<and>
     prefix ''HTTP/'' (req_version r) \<and>
     split_target (req_target r) = (req_path r, req_query r) \<and>
     find_str ''..'' (req_path r) = None \<and>
     smap_ok (req_headers r) \<and> length (req_headers r) \<le> 101 \<and>
     list_all header_ok (req_headers r)"

lemma length_smap_put: "length (smap_put k v m) \<le> Suc (length m)"
  by (induction m) auto

lemma set_smap_put_subset: "set (smap_put k v m) \<subseteq> insert (k, v) (set m)"
  by (induction m) auto

lemma parse_headers_ok:
  "parse_headers head pos hs = Some r \<Longrightarrow> smap_ok hs \<Longrightarrow> length hs \<le> 101 \<Longrightarrow>
   list_all header_ok hs \<Longrightarrow> smap_ok r \<and> length r \<le> 101 \<and> list_all header_ok r"
proof (induction head pos hs rule: parse_headers.induct)
  case (1 head pos hs)
  show ?case
  proof (cases "\<exists>eol. pos < length head \<and> find_from crlf head pos = Some eol \<and> eol \<noteq> pos")
    case False
    with "1.prems" show ?thesis
      by (subst (asm) parse_headers.simps) (auto split: if_splits option.splits)
  next
    case True
    then obtain eol where e: "pos < length head" "find_from crlf head pos = Some eol" "eol \<noteq> pos"
      by blast
    let ?line = "substr head pos (eol - pos)"
    from e "1.prems"(1) obtain colon where c: "find_char (CHR '':'') ?line = Some colon"
      by (subst (asm) parse_headers.simps) (auto simp: Let_def split: option.splits)
    let ?n = "toLower (trimStr (substr ?line 0 colon))" and ?v = "trimStr (drop (colon + 1) ?line)"
    from e c "1.prems"(1) have g: "\<not> (?n = [] \<or> 8192 < length ?v)" "\<not> 100 < length hs"
      and step: "parse_headers head (eol + 2) (smap_put ?n ?v hs) = Some r"
      by (subst (asm) parse_headers.simps, auto simp: Let_def split: if_splits)+
    have "header_ok (?n, ?v)" using g by (simp add: header_ok_def trimmed_trimStr)
    then have "list_all header_ok (smap_put ?n ?v hs)"
      using "1.prems"(4) set_smap_put_subset[of ?n ?v hs] by (auto simp: list_all_iff)
    moreover have "length (smap_put ?n ?v hs) \<le> 101"
      using g(2) length_smap_put[of ?n ?v hs] by linarith
    ultimately show ?thesis
      using "1.IH"[OF e refl c refl refl g step] "1.prems"(2) by (simp add: smap.valid_put)
  qed
qed

lemma read_word_Some:
  "read_word s = Some (w, r) \<Longrightarrow> w \<noteq> [] \<and> list_all (\<lambda>c. \<not> is_space c) w"
  by (auto simp: read_word_def Let_def list_all_iff dest: set_takeWhileD split: if_splits)


definition sample_head :: string where
  "sample_head = head_lines [''GET /api/users/5?x=1 HTTP/1.1'', ''Host:  gw '']"

definition sample_request :: http_request where
  "sample_request =
     \<lparr> req_method = ''GET'', req_target = ''/api/users/5?x=1'', req_path = ''/api/users/5'',
       req_query = ''x=1'', req_version = ''HTTP/1.1'', req_headers = [(''host'', ''gw'')],
       req_body = [], req_clientIp = [] \<rparr>"

lemma sample_head_parses: "parseHttpRequest sample_head = Some sample_request"
  by code_simp


section \<open>Parsing a rendered request\<close>

definition field_line :: "string \<times> string \<Rightarrow> string" where
  "field_line kv = fst kv @ '': '' @ snd kv"

definition request_line :: "string \<Rightarrow> string \<Rightarrow> string \<Rightarrow> string" where
  "request_line m t v = m @ '' '' @ t @ '' '' @ v"

definition field_ok :: "string \<times> string \<Rightarrow> bool" where
  "field_ok kv \<longleftrightarrow>
     fst kv \<noteq> [] \<and> trimmed (fst kv) \<and> CHR '':'' \<notin> set (fst kv) \<and> CR \<notin> set (fst kv) \<and>
     trimmed (snd kv) \<and> CR \<notin> set (snd kv) \<and> length (snd kv) \<le> 8192"

definition token_ok :: "string \<Rightarrow> bool" where
  "token_ok w \<longleftrightarrow> w \<noteq> [] \<and> list_all (\<lambda>c. \<not> is_space c) w"

lemma is_space_simps [simp]: "is_space (CHR '' '')" "is_space CR" "is_space LF" "is_space TAB"
  by (simp_all add: is_space_def byte_def)

lemma token_no_CR: "token_ok w \<Longrightarrow> CR \<notin> set w"
  by (auto simp: token_ok_def list_all_iff)

lemma takeWhile_token:
  "list_all (\<lambda>c. \<not> is_space c) w \<Longrightarrow>
   takeWhile (\<lambda>c. \<not> is_space c) (w @ s) = w @ takeWhile (\<lambda>c. \<not> is_space c) s \<and>
   dropWhile (\<lambda>c. \<not> is_space c) (w @ s) = dropWhile (\<lambda>c. \<not> is_space c) s"
  by (induction w) auto

lemma read_word_blank: "is_space c \<Longrightarrow> read_word (c # s) = read_word s"
  by (simp add: read_word_def)

lemma read_word_token:
  assumes "token_ok w" and "s = [] \<or> is_space (hd s)"
  shows "read_word (w @ s) = Some (w, s)"
proof -
  obtain c t where w: "w = c # t" "\<not> is_space c"
    using assms(1) by (cases w) (auto simp: token_ok_def)
  then have "dropWhile is_space (w @ s) = w @ s" by simp
  moreover have "takeWhile (\<lambda>c. \<not> is_space c) s = []" "dropWhile (\<lambda>c. \<not> is_space c) s = s"
    using assms(2) by (cases s; simp)+
  ultimately show ?thesis
    using assms(1) takeWhile_token[of w s]
    by (simp only: read_word_def Let_def) (simp add: token_ok_def)
qed

lemma parse_request_line_render:
  assumes "token_ok m" "token_ok t" "token_ok v"
  shows "parse_request_line (request_line m t v) = Some (m, t, v)"
proof -
  have "read_word [] = None" by (simp add: read_word_def)
  moreover have "read_word v = Some (v, [])"
    using read_word_token[OF assms(3), of "[]"] by simp
  ultimately show ?thesis
    using read_word_token[OF assms(1), of "'' '' @ t @ '' '' @ v"]
      read_word_token[OF assms(2), of "'' '' @ v"]
    by (simp add: parse_request_line_def request_line_def read_word_blank)
qed

lemma parse_headers_field:
  assumes "field_ok kv" and "length hs \<le> 100"
  shows "parse_headers (u @ field_line kv @ crlf @ w) (length u) hs =
    parse_headers ((u @ field_line kv @ crlf) @ w) (length (u @ field_line kv @ crlf))
      (smap_put (toLower (fst kv)) (snd kv) hs)"
proof -
  let ?l = "field_line kv" and ?h = "u @ field_line kv @ crlf @ w"
  have l: "CR \<notin> set ?l" "?l \<noteq> []"
    using assms(1) by (auto simp: field_line_def field_ok_def)
  have eol: "find_from crlf ?h (length u) = Some (length u + length ?l)"
    using l by (simp add: find_from_def find_crlf_line)
  have line: "substr ?h (length u) (length ?l) = ?l" by (simp add: substr_def)
  have colon: "find_char (CHR '':'') ?l = Some (length (fst kv))"
    using assms(1) find_char_append_notin[of "CHR '':''" "fst kv" "'' '' @ snd kv"]
    by (simp add: field_line_def field_ok_def)
  have "is_blank (CHR '' '')" by (simp add: is_blank_def)
  then have parts: "trimStr (substr ?l 0 (length (fst kv))) = fst kv"
    "trimStr (drop (length (fst kv) + 1) ?l) = snd kv"
    using assms(1) by (simp_all add: field_line_def substr_def field_ok_def trimmed_id trimStr_blank)
  have "toLower (fst kv) \<noteq> []" using assms(1) by (simp add: toLower_def field_ok_def)
  then show ?thesis
    using l eol line colon parts assms
    by (subst parse_headers.simps) (simp add: Let_def field_ok_def add.assoc)
qed

lemma parse_headers_render:
  "list_all field_ok fs \<Longrightarrow> length hs + length fs \<le> 101 \<Longrightarrow>
   parse_headers (u @ head_lines (map field_line fs)) (length u) hs =
     Some (fold (\<lambda>(k, v). smap_put (toLower k) v) fs hs)"
proof (induction fs arbitrary: u hs)
  case Nil
  then show ?case by (simp add: parse_headers.simps)
next
  case (Cons kv fs)
  have "length (smap_put (toLower (fst kv)) (snd kv) hs) \<le> Suc (length hs)"
    by (rule length_smap_put)
  then have "parse_headers ((u @ field_line kv @ crlf) @ head_lines (map field_line fs))
      (length (u @ field_line kv @ crlf)) (smap_put (toLower (fst kv)) (snd kv) hs) =
    Some (fold (\<lambda>(k, v). smap_put (toLower k) v) fs (smap_put (toLower (fst kv)) (snd kv) hs))"
    by (intro Cons.IH) (use Cons.prems in auto)
  moreover have "field_ok kv" "length hs \<le> 100" using Cons.prems by auto
  ultimately show ?case
    using parse_headers_field[of kv hs u "head_lines (map field_line fs)"]
    by (cases kv) simp
qed

text \<open>C28: a request rendered line by line (method, target and version separated by blanks, then
  \<^verbatim>\<open>name: value\<close> lines) parses back to exactly those parts, header names lower-cased and the last
  of several equal names winning.\<close>
theorem parse_rendered_request:
  assumes "token_ok m" and "list_all method_char m"
    and "token_ok t" and "prefix ''/'' t" and "find_str ''..'' (fst (split_target t)) = None"
    and "token_ok v" and "prefix ''HTTP/'' v"
    and "list_all field_ok fs" and "length fs \<le> 101"
  shows "parseHttpRequest (head_lines (request_line m t v # map field_line fs)) =
    Some \<lparr> req_method = m, req_target = t, req_path = fst (split_target t),
           req_query = snd (split_target t), req_version = v,
           req_headers = fold (\<lambda>(k, v). smap_put (toLower k) v) fs [],
           req_body = [], req_clientIp = [] \<rparr>"
proof -
  let ?l = "request_line m t v" and ?hl = "head_lines (map field_line fs)"
  have cr: "CR \<notin> set ?l"
    using assms by (auto simp: request_line_def dest: token_no_CR)
  then have "find_str crlf (head_lines (?l # map field_line fs)) = Some (length ?l)"
    by (simp add: find_crlf_line)
  moreover have "parse_headers (head_lines (?l # map field_line fs)) (length ?l + 2) [] =
      Some (fold (\<lambda>(k, v). smap_put (toLower k) v) fs [])"
    using parse_headers_render[of fs "[]" "?l @ crlf"] assms(8,9) by simp
  moreover have "t \<noteq> [] \<and> hd t = CHR ''/''" using assms(4) by (auto simp: prefix_def)
  ultimately show ?thesis
    using assms(2,5,7) parse_request_line_render[OF assms(1,3,6)]
    by (simp add: parseHttpRequest_def substr_def split_beta)
qed

lemma parse_rendered_request_witness:
  "head_lines (request_line ''GET'' ''/api/users/5?x=1'' ''HTTP/1.1'' # map field_line [(''Host'', ''gw'')]) =
     head_lines [''GET /api/users/5?x=1 HTTP/1.1'', ''Host: gw''] \<and>
   parseHttpRequest (head_lines (request_line ''GET'' ''/api/users/5?x=1'' ''HTTP/1.1''
     # map field_line [(''Host'', ''gw'')])) = Some sample_request"
proof
  show "head_lines (request_line ''GET'' ''/api/users/5?x=1'' ''HTTP/1.1'' # map field_line [(''Host'', ''gw'')]) =
     head_lines [''GET /api/users/5?x=1 HTTP/1.1'', ''Host: gw'']"
    by (simp add: request_line_def field_line_def)
  have h: "token_ok ''GET''" "list_all method_char ''GET''" "token_ok ''/api/users/5?x=1''"
    "prefix ''/'' ''/api/users/5?x=1''" "find_str ''..'' (fst (split_target ''/api/users/5?x=1'')) = None"
    "token_ok ''HTTP/1.1''" "prefix ''HTTP/'' ''HTTP/1.1''" "list_all field_ok [(''Host'', ''gw'')]"
    "length [(''Host'', ''gw'')] \<le> 101"
    by code_simp+
  have "split_target ''/api/users/5?x=1'' = (''/api/users/5'', ''x=1'')"
    "fold (\<lambda>(k, v). smap_put (toLower k) v) [(''Host'', ''gw'')] [] = [(''host'', ''gw'')]"
    by code_simp+
  with parse_rendered_request [OF h] show
    "parseHttpRequest (head_lines (request_line ''GET'' ''/api/users/5?x=1'' ''HTTP/1.1''
       # map field_line [(''Host'', ''gw'')])) = Some sample_request"
    by (simp add: sample_request_def)
qed

section \<open>The frame of a response\<close>

definition response_lines :: "http_response \<Rightarrow> string list" where
  "response_lines r =
     (''HTTP/1.1 '' @ int_to_string (resp_status r) @ '' '' @ reasonPhrase (resp_status r))
     # map field_line (resp_headers r)
     @ (if map_of (resp_headers r) ''content-type'' \<noteq> None then [] else [''content-type: application/json''])
     @ (if map_of (resp_headers r) ''content-length'' \<noteq> None then []
        else [''content-length: '' @ to_string (length (resp_body r))])
     @ [''connection: close'']"

lemma header_line_field: "header_line kv = field_line kv @ crlf"
  by (simp add: header_line_def field_line_def)

lemma buildResponse_lines: "buildResponse r = head_lines (response_lines r) @ crlf @ resp_body r"
proof -
  have "concat (map header_line hs) = head_lines (map field_line hs)" for hs
    by (induction hs) (auto simp: header_line_field)
  then show ?thesis
    by (auto simp: buildResponse_def response_lines_def Let_def)
qed

lemma to_string_no_CR: "CR \<notin> set (to_string n)"
  using to_string_digits[of n] by (auto simp: is_digit_def byte_def)

lemma int_to_string_no_CR: "CR \<notin> set (int_to_string i)"
  by (simp add: int_to_string_def to_string_no_CR)

lemma reasonPhrase_no_CR: "CR \<notin> set (reasonPhrase s)"
  by (simp add: reasonPhrase_def)

lemma response_lines_ok:
  assumes "\<forall>(k, v) \<in> set (resp_headers r). CR \<notin> set k \<and> CR \<notin> set v"
  shows "list_all line_ok (response_lines r)"
  using assms to_string_no_CR int_to_string_no_CR reasonPhrase_no_CR
  by (auto simp: response_lines_def line_ok_def list_all_iff field_line_def)

text \<open>a response whose header fields hold no CR is framed correctly on the wire: it is the
  status line, the given fields and the defaults (a JSON content type and the body's length unless
  the fields give their own, and connection close) as CR LF lines, and the first empty line is
  the one that separates them from the body, so the body cannot be taken for a header nor a
  header for the body.\<close>
theorem buildResponse_frame:
  assumes "\<forall>(k, v) \<in> set (resp_headers r). CR \<notin> set k \<and> CR \<notin> set v"
  shows "find_str crlf2 (buildResponse r) = Some (length (head_lines (response_lines r)) - 2) \<and>
    drop (length (head_lines (response_lines r)) + 2) (buildResponse r) = resp_body r \<and>
    (map_of (resp_headers r) ''content-length'' = None \<longrightarrow>
      ''content-length: '' @ to_string (length (resp_body r)) \<in> set (response_lines r))"
proof (intro conjI impI)
  have "response_lines r \<noteq> []" by (simp add: response_lines_def)
  then show "find_str crlf2 (buildResponse r) = Some (length (head_lines (response_lines r)) - 2)"
    unfolding buildResponse_lines by (rule find_crlf2_head_lines) (rule response_lines_ok[OF assms])
  show "drop (length (head_lines (response_lines r)) + 2) (buildResponse r) = resp_body r"
    unfolding buildResponse_lines drop_append by simp
  assume "map_of (resp_headers r) ''content-length'' = None"
  then show "''content-length: '' @ to_string (length (resp_body r)) \<in> set (response_lines r)"
    by (simp add: response_lines_def)
qed

lemma buildResponse_frame_witness:
  "drop (length (head_lines (response_lines (jsonError 404 ''not_found'' ''Unknown path.''))) + 2)
     (buildResponse (jsonError 404 ''not_found'' ''Unknown path.'')) =
   ''{\"error\":\"not_found\",\"message\":\"Unknown path.\"}''"
proof -
  have "\<forall>(k, v) \<in> set (resp_headers (jsonError 404 ''not_found'' ''Unknown path.'')).
      CR \<notin> set k \<and> CR \<notin> set v"
    by (simp add: jsonError_def)
  from buildResponse_frame [OF this] show ?thesis
    by (simp add: jsonError_def jsonEscape_def jsonEscape_char_def byte_def del: append.simps)
qed

end
