(* ===== verification/Config.thy ===== *)
theory Config
  imports Prelude
begin

text \<open>
  The configuration of \<^verbatim>\<open>src/Config.h\<close>. The process environment is a parameter
  \<open>env\<close>: \<^verbatim>\<open>getenv(name)\<close> is \<open>env name\<close>, \<open>None\<close> for a null pointer. The upstream
  table is an ordered map from area to base URL.
\<close>

type_synonym environment = "string \<Rightarrow> string option"

definition kGatewayVersion :: string where
  "kGatewayVersion = ''1.0.0''"

definition kMaxHeaderBytes :: nat where
  "kMaxHeaderBytes = 16384"

definition kMaxUpstreamBytes :: nat where
  "kMaxUpstreamBytes = 4 * 1024 * 1024"

definition envStr :: "environment \<Rightarrow> string \<Rightarrow> string \<Rightarrow> string" where
  "envStr env name dflt =
     (case env name of
        None \<Rightarrow> dflt
      | Some v \<Rightarrow> if v = [] then dflt else v)"

definition envInt :: "environment \<Rightarrow> string \<Rightarrow> int \<Rightarrow> int \<Rightarrow> int \<Rightarrow> int" where
  "envInt env name dflt minV maxV =
     (case env name of
        None \<Rightarrow> dflt
      | Some v \<Rightarrow>
          if v = [] then dflt
          else (case stoi v of
                  None \<Rightarrow> dflt
                | Some n \<Rightarrow> if n < minV \<or> maxV < n then dflt else n))"

record config =
  cfg_bind :: string
  cfg_port :: int
  jwtSecret :: string
  jwtIssuer :: string
  cfg_logLevel :: string
  upstreamTimeoutMs :: int
  recvTimeoutMs :: int
  maxBodyBytes :: int
  maxClients :: int
  rateLimitPerMin :: int
  upstreams :: "(string, string) smap"

definition default_config :: config where
  "default_config =
     \<lparr> cfg_bind = ''0.0.0.0'', cfg_port = 1111, jwtSecret = [], jwtIssuer = [],
       cfg_logLevel = ''info'', upstreamTimeoutMs = 5000, recvTimeoutMs = 30000,
       maxBodyBytes = 1024 * 1024, maxClients = 128, rateLimitPerMin = 100, upstreams = [] \<rparr>"

definition upstreamFor :: "config \<Rightarrow> string \<Rightarrow> string" where
  "upstreamFor cfg area =
     (case map_of (upstreams cfg) area of
        Some u \<Rightarrow>
          if u \<noteq> [] then u
          else if area = ''quests'' \<or> area = ''attempts'' \<or> area = ''answers'' then
            (case map_of (upstreams cfg) ''tests'' of Some t \<Rightarrow> t | None \<Rightarrow> [])
          else []
      | None \<Rightarrow>
          if area = ''quests'' \<or> area = ''attempts'' \<or> area = ''answers'' then
            (case map_of (upstreams cfg) ''tests'' of Some t \<Rightarrow> t | None \<Rightarrow> [])
          else [])"

text \<open>The first upstream, in key order, whose URL is set and not http, stops the start.\<close>

definition bad_upstream :: "string \<times> string \<Rightarrow> bool" where
  "bad_upstream kv \<longleftrightarrow> snd kv \<noteq> [] \<and> \<not> prefix ''http://'' (snd kv)"

definition env_upstreams :: "environment \<Rightarrow> (string, string) smap" where
  "env_upstreams env =
     smap_put ''answers'' (envStr env ''MODULE_ANSWERS_URL'' [])
     (smap_put ''attempts'' (envStr env ''MODULE_ATTEMPTS_URL'' [])
     (smap_put ''tests'' (envStr env ''MODULE_TESTS_URL'' [])
     (smap_put ''quests'' (envStr env ''MODULE_QUESTS_URL'' [])
     (smap_put ''courses'' (envStr env ''MODULE_COURSES_URL'' [])
     (smap_put ''users'' (envStr env ''MODULE_USERS_URL'' []) [])))))"

definition env_config :: "environment \<Rightarrow> config" where
  "env_config env =
     (let c1 = default_config
            \<lparr> cfg_bind := envStr env ''BIND'' ''0.0.0.0'',
              cfg_port := envInt env ''PORT'' 1111 1 65535,
              jwtSecret := envStr env ''JWT_SECRET'' [],
              jwtIssuer := envStr env ''JWT_ISSUER'' [],
              cfg_logLevel := envStr env ''LOG_LEVEL'' ''info'' \<rparr>;
          c2 = c1
            \<lparr> upstreamTimeoutMs := envInt env ''UPSTREAM_TIMEOUT_MS'' 5000 100 120000,
              recvTimeoutMs := envInt env ''RECV_TIMEOUT_MS'' 30000 1000 300000,
              maxBodyBytes := envInt env ''MAX_BODY_BYTES'' (1024 * 1024) 1024 (16 * 1024 * 1024),
              maxClients := envInt env ''MAX_CLIENTS'' 128 1 4096,
              rateLimitPerMin := envInt env ''RATE_LIMIT_PER_MIN'' 100 0 100000 \<rparr>
      in c2\<lparr> upstreams := env_upstreams env \<rparr>)"

text \<open>\<^verbatim>\<open>loadConfig\<close>: \<open>Inl\<close> the error text, or \<open>Inr\<close> the configuration.\<close>

definition loadConfig :: "environment \<Rightarrow> string + config" where
  "loadConfig env =
     (let c = env_config env
      in if jwtSecret c = [] then
           Inl ''JWT_SECRET is not set. Copy .env.example to .env and set a strong secret.''
         else
           (case find bad_upstream (upstreams c) of
              Some kv \<Rightarrow>
                Inl (''Upstream URL for '' @ [CHR 0x27] @ fst kv @ [CHR 0x27]
                     @ '' must start with http:// (got '' @ [CHR 0x27] @ snd kv @ [CHR 0x27] @ '').'')
            | None \<Rightarrow> Inr c))"

section \<open>What a loaded configuration satisfies\<close>

definition config_ok :: "config \<Rightarrow> bool" where
  "config_ok c \<longleftrightarrow>
     1 \<le> cfg_port c \<and> cfg_port c \<le> 65535 \<and>
     jwtSecret c \<noteq> [] \<and>
     100 \<le> upstreamTimeoutMs c \<and> upstreamTimeoutMs c \<le> 120000 \<and>
     1000 \<le> recvTimeoutMs c \<and> recvTimeoutMs c \<le> 300000 \<and>
     1024 \<le> maxBodyBytes c \<and> maxBodyBytes c \<le> 16 * 1024 * 1024 \<and>
     1 \<le> maxClients c \<and> maxClients c \<le> 4096 \<and>
     0 \<le> rateLimitPerMin c \<and> rateLimitPerMin c \<le> 100000 \<and>
     smap_ok (upstreams c) \<and>
     (\<forall>kv \<in> set (upstreams c). snd kv = [] \<or> prefix ''http://'' (snd kv))"

lemma envInt_range:
  "minV \<le> dflt \<Longrightarrow> dflt \<le> maxV \<Longrightarrow> minV \<le> envInt env n dflt minV maxV"
  "minV \<le> dflt \<Longrightarrow> dflt \<le> maxV \<Longrightarrow> envInt env n dflt minV maxV \<le> maxV"
  by (auto simp: envInt_def split: option.splits if_splits)

lemma envInt_text:
  assumes "env n = Some (int_to_string i)" "minV \<le> i" "i \<le> maxV"
    and "- (2 ^ 31) \<le> minV" "maxV < 2 ^ 31"
  shows "envInt env n d minV maxV = i"
proof -
  have "stoi (int_to_string i) = Some i"
    by (rule stoi_int_to_string) (use assms in linarith)+
  with assms show ?thesis by (simp add: envInt_def)
qed

lemma smap_ok_env_upstreams: "smap_ok (env_upstreams env)"
  unfolding env_upstreams_def by (intro smap.valid_put smap.valid_empty)

lemma map_of_env_upstreams:
  "map_of (env_upstreams env) =
     [''users'' \<mapsto> envStr env ''MODULE_USERS_URL'' [],
      ''courses'' \<mapsto> envStr env ''MODULE_COURSES_URL'' [],
      ''quests'' \<mapsto> envStr env ''MODULE_QUESTS_URL'' [],
      ''tests'' \<mapsto> envStr env ''MODULE_TESTS_URL'' [],
      ''attempts'' \<mapsto> envStr env ''MODULE_ATTEMPTS_URL'' [],
      ''answers'' \<mapsto> envStr env ''MODULE_ANSWERS_URL'' []]"
  unfolding env_upstreams_def
  by (subst map_of_smap_put, (intro smap.valid_put smap.valid_empty))+ simp

lemma env_config_values:
  "cfg_port (env_config env) = envInt env ''PORT'' 1111 1 65535"
  "jwtSecret (env_config env) = envStr env ''JWT_SECRET'' []"
  "upstreamTimeoutMs (env_config env) = envInt env ''UPSTREAM_TIMEOUT_MS'' 5000 100 120000"
  "recvTimeoutMs (env_config env) = envInt env ''RECV_TIMEOUT_MS'' 30000 1000 300000"
  "maxBodyBytes (env_config env) =
     envInt env ''MAX_BODY_BYTES'' (1024 * 1024) 1024 (16 * 1024 * 1024)"
  "maxClients (env_config env) = envInt env ''MAX_CLIENTS'' 128 1 4096"
  "rateLimitPerMin (env_config env) = envInt env ''RATE_LIMIT_PER_MIN'' 100 0 100000"
  "upstreams (env_config env) = env_upstreams env"
  by (simp_all add: env_config_def Let_def)

lemma find_None_ball: "find P xs = None \<Longrightarrow> \<forall>x \<in> set xs. \<not> P x"
  by (auto simp: find_None_iff)

text \<open>C32: whatever the environment holds, a configuration that loads is within its documented
  bounds: port, timeouts, body limit, client limit and rate limit in their ranges, a non-empty JWT
  secret, and every configured upstream an http:// URL.\<close>
theorem loadConfig_ok:
  assumes "loadConfig env = Inr c"
  shows "config_ok c"
proof -
  from assms have c: "c = env_config env" and s: "jwtSecret c \<noteq> []"
    and "find bad_upstream (upstreams c) = None"
    by (auto simp: loadConfig_def Let_def split: if_splits option.splits)
  then have "\<forall>kv \<in> set (upstreams c). snd kv = [] \<or> prefix ''http://'' (snd kv)"
    by (auto dest!: find_None_ball simp: bad_upstream_def)
  with c s show ?thesis
    by (simp add: config_ok_def env_config_values envInt_range smap_ok_env_upstreams)
qed

definition sample_env :: environment where
  "sample_env = [''JWT_SECRET'' \<mapsto> ''k'', ''PORT'' \<mapsto> ''8080'', ''MODULE_TESTS_URL'' \<mapsto> ''http://t:1'']"

lemma loadConfig_ok_witness:
  "loadConfig sample_env = Inr (env_config sample_env) \<and> config_ok (env_config sample_env)"
proof -
  have "loadConfig sample_env = Inr (env_config sample_env)"
    by code_simp
  with loadConfig_ok show ?thesis by blast
qed

text \<open>The table of the documented defaults: the module variable of an area, and the area whose
  module it inherits when that variable is unset.\<close>

definition module_url :: "environment \<Rightarrow> string \<Rightarrow> string" where
  "module_url env area =
     (if area = ''users'' then envStr env ''MODULE_USERS_URL'' []
      else if area = ''courses'' then envStr env ''MODULE_COURSES_URL'' []
      else if area = ''tests'' then envStr env ''MODULE_TESTS_URL'' []
      else if area = ''quests'' then envStr env ''MODULE_QUESTS_URL'' (envStr env ''MODULE_TESTS_URL'' [])
      else if area = ''attempts'' then envStr env ''MODULE_ATTEMPTS_URL'' (envStr env ''MODULE_TESTS_URL'' [])
      else if area = ''answers'' then envStr env ''MODULE_ANSWERS_URL'' (envStr env ''MODULE_TESTS_URL'' [])
      else [])"

lemma envStr_default_empty:
  "(if envStr env n [] \<noteq> [] then envStr env n [] else d) = envStr env n d"
  by (auto simp: envStr_def split: option.splits)

text \<open>in a loaded configuration the upstream of every area is the one the documented table
  gives: the area's own module variable, with quests, attempts and answers inheriting the tests
  module when their own is unset, and no upstream for any other name.\<close>
theorem upstreamFor_table:
  assumes "loadConfig env = Inr c"
  shows "upstreamFor c area = module_url env area"
proof -
  from assms have "c = env_config env"
    by (auto simp: loadConfig_def Let_def split: if_splits option.splits)
  then have "map_of (upstreams c) = map_of (env_upstreams env)"
    by (simp add: env_config_values)
  then show ?thesis
    by (simp add: upstreamFor_def module_url_def map_of_env_upstreams envStr_default_empty)
qed

lemma upstreamFor_table_witness:
  "loadConfig sample_env = Inr (env_config sample_env) \<and>
   upstreamFor (env_config sample_env) ''quests'' = ''http://t:1''"
proof -
  have l: "loadConfig sample_env = Inr (env_config sample_env)"
    by code_simp
  have "module_url sample_env ''quests'' = ''http://t:1''"
    by code_simp
  with l upstreamFor_table [OF l] show ?thesis by simp
qed

end
