(* ===== verification/RateLimiter.thy ===== *)
theory RateLimiter
  imports Prelude
begin

text \<open>
  The fixed-window limiter of \<^verbatim>\<open>src/RateLimiter.h\<close>. \<^verbatim>\<open>buckets_\<close> is an
  \<^verbatim>\<open>unordered_map\<close>, an association list with distinct keys. The reading of
  \<^verbatim>\<open>steady_clock\<close> in seconds is the argument \<open>now\<close>. The clock is read before
  the mutex is taken and the rest of \<open>allow\<close> is one atomic step, so a multi-threaded execution is a
  sequence of calls whose readings need not be in order. The second half
  relates the code to a limiter without the purge and without the zero sentinel, and
  bounds what one client can get.
\<close>

section \<open>State and operations\<close>

record bucket =
  windowStart :: int
  count :: int

definition new_bucket :: bucket where
  "new_bucket = \<lparr> windowStart = 0, count = 0 \<rparr>"

record rate_limiter =
  perMin :: int
  buckets :: "(string, bucket) umap"

definition make_limiter :: "int \<Rightarrow> rate_limiter" where
  "make_limiter n = \<lparr> perMin = n, buckets = [] \<rparr>"

definition setLimit :: "int \<Rightarrow> rate_limiter \<Rightarrow> rate_limiter" where
  "setLimit n l = l\<lparr> perMin := n \<rparr>"

definition purge :: "int \<Rightarrow> (string, bucket) umap \<Rightarrow> (string, bucket) umap" where
  "purge now bs = filter (\<lambda>e. \<not> 60 \<le> now - windowStart (snd e)) bs"

text \<open>The decision on one bucket, \<^verbatim>\<open>buckets_[ip]\<close> being created on first use.\<close>

definition hit :: "int \<Rightarrow> int \<Rightarrow> bucket \<Rightarrow> bool \<times> bucket" where
  "hit limit now b =
     (if windowStart b = 0 \<or> 60 \<le> now - windowStart b then
        (True, b\<lparr> windowStart := now, count := 1 \<rparr>)
      else if limit \<le> count b then (False, b)
      else (True, b\<lparr> count := count b + 1 \<rparr>))"

definition allow :: "int \<Rightarrow> string \<Rightarrow> rate_limiter \<Rightarrow> bool \<times> rate_limiter" where
  "allow now ip l =
     (if perMin l \<le> 0 then (True, l)
      else
        (let bs = (if 20000 < length (buckets l) then purge now (buckets l) else buckets l);
             b = (case map_of bs ip of Some b \<Rightarrow> b | None \<Rightarrow> new_bucket);
             (ok, b') = hit (perMin l) now b
         in (ok, l\<lparr> buckets := AList.update ip b' bs \<rparr>)))"

text \<open>A run: one call per element, with the client and the clock reading of the call.\<close>

fun run_limiter :: "rate_limiter \<Rightarrow> (string \<times> int) list \<Rightarrow> bool list \<times> rate_limiter" where
  "run_limiter l [] = ([], l)"
| "run_limiter l ((ip, now) # calls) =
     (let (ok, l') = allow now ip l; (oks, l'') = run_limiter l' calls in (ok # oks, l''))"

section \<open>Invariant\<close>

definition bucket_ok :: "int \<Rightarrow> bucket \<Rightarrow> bool" where
  "bucket_ok limit b \<longleftrightarrow> 1 \<le> count b \<and> count b \<le> limit"

definition limiter_ok :: "rate_limiter \<Rightarrow> bool" where
  "limiter_ok l \<longleftrightarrow>
     umap_ok (buckets l) \<and> (\<forall>(ip, b) \<in> set (buckets l). bucket_ok (perMin l) b)"

lemma umap_ok_purge: "umap_ok bs \<Longrightarrow> umap_ok (purge now bs)"
  unfolding umap_ok_def purge_def by (induction bs) (auto simp: image_iff)

lemma map_of_purge:
  "umap_ok bs \<Longrightarrow>
   map_of (purge now bs) ip =
     (case map_of bs ip of
        None \<Rightarrow> None
      | Some b \<Rightarrow> if 60 \<le> now - windowStart b then None else Some b)"
proof (induction bs)
  case Nil
  then show ?case by (simp add: purge_def)
next
  case (Cons e bs)
  then show ?case
    by (cases e) (auto simp: purge_def umap_ok_def map_of_eq_None_iff
        intro!: map_of_eq_None_iff[THEN iffD2] split: option.splits)
qed

lemma set_purge: "set (purge now bs) \<subseteq> set bs"
  by (auto simp: purge_def)

lemma limiter_ok_map_of: "limiter_ok l \<Longrightarrow> map_of (buckets l) ip = Some b \<Longrightarrow> bucket_ok (perMin l) b"
  by (auto simp: limiter_ok_def dest!: map_of_SomeD)

lemma limiter_okI:
  "umap_ok (buckets l) \<Longrightarrow>
   (\<And>ip b. map_of (buckets l) ip = Some b \<Longrightarrow> bucket_ok (perMin l) b) \<Longrightarrow> limiter_ok l"
  by (fastforce simp: limiter_ok_def umap_ok_def)

lemma hit_ok:
  "0 < limit \<Longrightarrow> bucket_ok limit b \<or> b = new_bucket \<Longrightarrow> hit limit now b = (ok, b') \<Longrightarrow>
   bucket_ok limit b'"
  by (auto simp: hit_def bucket_ok_def new_bucket_def split: if_splits)

lemma perMin_allow [simp]: "perMin (snd (allow now ip l)) = perMin l"
  by (simp add: allow_def Let_def split: prod.splits)

definition live_buckets :: "int \<Rightarrow> rate_limiter \<Rightarrow> (string, bucket) umap" where
  "live_buckets now l = (if 20000 < length (buckets l) then purge now (buckets l) else buckets l)"

definition bucket_of :: "(string, bucket) umap \<Rightarrow> string \<Rightarrow> bucket" where
  "bucket_of bs ip = (case map_of bs ip of Some b \<Rightarrow> b | None \<Rightarrow> new_bucket)"

lemma allow_eq:
  "allow now ip l =
     (if perMin l \<le> 0 then (True, l)
      else (fst (hit (perMin l) now (bucket_of (live_buckets now l) ip)),
            l\<lparr> buckets := AList.update ip (snd (hit (perMin l) now (bucket_of (live_buckets now l) ip)))
                 (live_buckets now l) \<rparr>))"
  by (simp add: allow_def live_buckets_def bucket_of_def Let_def split: prod.splits)

lemma umap_ok_live: "umap_ok (buckets l) \<Longrightarrow> umap_ok (live_buckets now l)"
  by (simp add: live_buckets_def umap_ok_purge)

lemma set_live: "set (live_buckets now l) \<subseteq> set (buckets l)"
  by (auto simp: live_buckets_def set_purge[THEN subsetD])

text \<open>Every call keeps the limiter's invariant: one bucket per address, and every stored count
  between 1 and the limit.\<close>
lemma limiter_ok_allow:
  assumes "limiter_ok l"
  shows "limiter_ok (snd (allow now ip l))"
proof (cases "perMin l \<le> 0")
  case True
  with assms show ?thesis by (simp add: allow_def)
next
  case False
  let ?bs = "live_buckets now l" and ?b = "bucket_of (live_buckets now l) ip"
  have u: "umap_ok ?bs"
    using assms by (simp add: limiter_ok_def umap_ok_live)
  have old: "bucket_ok (perMin l) b" if "map_of ?bs k = Some b" for k b
    using that assms set_live[of now l] by (auto simp: limiter_ok_def dest!: map_of_SomeD)
  then have "bucket_ok (perMin l) ?b \<or> ?b = new_bucket"
    by (auto simp: bucket_of_def split: option.splits)
  with False have new: "bucket_ok (perMin l) (snd (hit (perMin l) now ?b))"
    by (intro hit_ok[OF _ _ prod.collapse[symmetric]]) auto
  show ?thesis
    by (rule limiter_okI)
      (use u old new False in \<open>auto simp: allow_eq umap.valid_put umap.get_put split: if_splits\<close>)
qed

lemma make_limiter_ok: "limiter_ok (make_limiter n)"
  by (simp add: limiter_ok_def make_limiter_def umap_ok_def)

section \<open>The interface of a limiter\<close>

text \<open>
  What the connection handler relies on: a decision for a key at a time, and an invariant that every
  decision keeps. Whatever sequence of requests the threads make, the invariant holds at the end.
\<close>

locale admission =
  fixes admit :: "int \<Rightarrow> string \<Rightarrow> 's \<Rightarrow> bool \<times> 's" and good :: "'s \<Rightarrow> bool"
  assumes admit_good: "good s \<Longrightarrow> good (snd (admit now key s))"
begin

lemma admit_result: "admit now key s = (ok, s') \<Longrightarrow> good s \<Longrightarrow> good s'"
  using admit_good by (metis snd_conv)

lemma admits_good: "good s \<Longrightarrow> good (fold (\<lambda>(now, key) s. snd (admit now key s)) calls s)"
  by (induction calls arbitrary: s) (auto intro: admit_good)

end

interpretation limiter: admission allow limiter_ok
  by unfold_locales (rule limiter_ok_allow)

section \<open>Refinement of a limiter that never forgets\<close>

text \<open>
  The specification keeps one bucket per address for ever, as a function. The code's purge and
  its bound of 20000 entries are invisible: the decisions agree on every run whose clock
  does not go back.
\<close>

type_synonym spec_limiter = "string \<Rightarrow> bucket option"

definition spec_allow :: "int \<Rightarrow> int \<Rightarrow> string \<Rightarrow> spec_limiter \<Rightarrow> bool \<times> spec_limiter" where
  "spec_allow limit now ip s =
     (if limit \<le> 0 then (True, s)
      else
        (case s ip of
           None \<Rightarrow> (True, s(ip \<mapsto> \<lparr> windowStart = now, count = 1 \<rparr>))
         | Some b \<Rightarrow>
             if 60 \<le> now - windowStart b then (True, s(ip \<mapsto> \<lparr> windowStart = now, count = 1 \<rparr>))
             else if limit \<le> count b then (False, s)
             else (True, s(ip \<mapsto> b\<lparr> count := count b + 1 \<rparr>))))"

fun spec_run :: "int \<Rightarrow> spec_limiter \<Rightarrow> (string \<times> int) list \<Rightarrow> bool list" where
  "spec_run limit s [] = []"
| "spec_run limit s ((ip, now) # calls) =
     (let (ok, s') = spec_allow limit now ip s in ok # spec_run limit s' calls)"

definition stale :: "int \<Rightarrow> bucket option \<Rightarrow> bool" where
  "stale now bo \<longleftrightarrow> (case bo of None \<Rightarrow> True | Some b \<Rightarrow> 60 \<le> now - windowStart b)"

text \<open>At time \<open>now\<close> the two limiters agree on an address, or neither has a live bucket for it.\<close>

definition same_limits :: "int \<Rightarrow> rate_limiter \<Rightarrow> spec_limiter \<Rightarrow> bool" where
  "same_limits now l s \<longleftrightarrow>
     umap_ok (buckets l) \<and>
     (\<forall>ip. map_of (buckets l) ip = s ip \<or> (stale now (map_of (buckets l) ip) \<and> stale now (s ip))) \<and>
     (\<forall>ip b. map_of (buckets l) ip = Some b \<longrightarrow> 0 < windowStart b)"

lemma stale_mono: "stale now bo \<Longrightarrow> now \<le> now' \<Longrightarrow> stale now' bo"
  by (auto simp: stale_def split: option.splits)

lemma same_limits_later: "same_limits now l s \<Longrightarrow> now \<le> now' \<Longrightarrow> same_limits now' l s"
  unfolding same_limits_def using stale_mono by blast

lemma same_limits_live:
  assumes "same_limits now l s"
  shows "umap_ok (live_buckets now l)"
    and "map_of (live_buckets now l) ip = s ip \<or>
         (stale now (map_of (live_buckets now l) ip) \<and> stale now (s ip))"
    and "map_of (live_buckets now l) ip = Some b \<Longrightarrow> 0 < windowStart b"
proof -
  have u: "umap_ok (buckets l)" using assms by (simp add: same_limits_def)
  then show "umap_ok (live_buckets now l)" by (rule umap_ok_live)
  show "map_of (live_buckets now l) ip = s ip \<or>
         (stale now (map_of (live_buckets now l) ip) \<and> stale now (s ip))"
  proof -
    have "map_of (buckets l) ip = s ip \<or> (stale now (map_of (buckets l) ip) \<and> stale now (s ip))"
      using assms by (simp add: same_limits_def)
    then show ?thesis
      by (cases "map_of (buckets l) ip"; cases "s ip")
        (auto simp: live_buckets_def map_of_purge[OF u] stale_def)
  qed
  show "0 < windowStart b" if "map_of (live_buckets now l) ip = Some b"
    using that assms u
    by (auto simp: same_limits_def live_buckets_def map_of_purge split: if_splits option.splits)
qed

text \<open>One call: the same decision, and the agreement is kept.\<close>

lemma allow_simulates:
  assumes "same_limits now l s" "0 < now"
  shows "fst (allow now ip l) = fst (spec_allow (perMin l) now ip s)"
    and "same_limits now (snd (allow now ip l)) (snd (spec_allow (perMin l) now ip s))"
proof -
  let ?bs = "live_buckets now l"
  note live = same_limits_live[OF assms(1)]
  have cases: "hit (perMin l) now (bucket_of ?bs ip) =
      (fst (spec_allow (perMin l) now ip s), the (snd (spec_allow (perMin l) now ip s) ip))"
    "snd (spec_allow (perMin l) now ip s) ip \<noteq> None" if "0 < perMin l"
    using live(2)[of ip] live(3)[of ip] that assms(2)
    by (auto simp: hit_def bucket_of_def spec_allow_def stale_def new_bucket_def
        split: option.splits if_splits)
  show "fst (allow now ip l) = fst (spec_allow (perMin l) now ip s)"
    using cases(1) by (auto simp: allow_eq) (simp add: spec_allow_def)
  have others: "snd (spec_allow (perMin l) now ip s) k = s k" if "k \<noteq> ip" for k
    using that by (simp add: spec_allow_def split: option.splits)
  have start: "0 < windowStart (snd (hit (perMin l) now (bucket_of ?bs ip)))"
    using live(3)[of ip] assms(2) by (auto simp: hit_def bucket_of_def new_bucket_def split: option.splits)
  show "same_limits now (snd (allow now ip l)) (snd (spec_allow (perMin l) now ip s))"
  proof (cases "0 < perMin l")
    case False
    with assms(1) show ?thesis by (simp add: allow_def spec_allow_def)
  next
    case True
    note c = cases[OF True]
    have "map_of (buckets (snd (allow now ip l))) =
        (map_of ?bs)(ip \<mapsto> snd (hit (perMin l) now (bucket_of ?bs ip)))"
      using True by (simp add: allow_eq update_conv')
    moreover have "umap_ok (buckets (snd (allow now ip l)))"
      using True live(1) by (simp add: allow_eq umap.valid_put)
    ultimately show ?thesis
      using c others live(2,3) start by (auto simp: same_limits_def)
  qed
qed

text \<open>Clock readings that do not go back, all at least \<open>t\<close>.\<close>

fun clock_from :: "int \<Rightarrow> (string \<times> int) list \<Rightarrow> bool" where
  "clock_from t [] = True"
| "clock_from t ((ip, now) # calls) = (t \<le> now \<and> clock_from now calls)"

lemma spec_run_Cons:
  "spec_run limit s ((ip, now) # calls) =
     fst (spec_allow limit now ip s) # spec_run limit (snd (spec_allow limit now ip s)) calls"
  by (simp add: Let_def split: prod.splits)

lemma run_limiter_Cons:
  "fst (run_limiter l ((ip, now) # calls)) =
     fst (allow now ip l) # fst (run_limiter (snd (allow now ip l)) calls)"
  by (simp add: Let_def split: prod.splits)

declare spec_run.simps(2) [simp del] run_limiter.simps(2) [simp del]

lemma run_simulates:
  "same_limits t l s \<Longrightarrow> 0 < t \<Longrightarrow> clock_from t calls \<Longrightarrow>
   fst (run_limiter l calls) = spec_run (perMin l) s calls"
proof (induction calls arbitrary: t l s)
  case Nil
  then show ?case by simp
next
  case (Cons call calls)
  obtain ip now where call: "call = (ip, now)" by (cases call)
  have now: "t \<le> now" "0 < now" "clock_from now calls"
    using Cons.prems call by auto
  have sim: "same_limits now l s"
    using Cons.prems(1) now(1) by (rule same_limits_later)
  note step = allow_simulates[OF sim now(2), of ip]
  have "fst (run_limiter (snd (allow now ip l)) calls) =
      spec_run (perMin l) (snd (spec_allow (perMin l) now ip s)) calls"
    using Cons.IH[OF step(2) now(2,3)] by simp
  with step(1) call show ?case
    by (simp add: run_limiter_Cons spec_run_Cons)
qed

text \<open>
  With at most 20000 addresses nothing is ever purged, and the table is the specification's function,
  in whatever order the readings come.
\<close>

definition same_table :: "string set \<Rightarrow> rate_limiter \<Rightarrow> spec_limiter \<Rightarrow> bool" where
  "same_table A l s \<longleftrightarrow>
     umap_ok (buckets l) \<and> map_of (buckets l) = s \<and> fst ` set (buckets l) \<subseteq> A \<and>
     (\<forall>ip b. s ip = Some b \<longrightarrow> 0 < windowStart b)"

lemma nothing_purged:
  assumes "same_table A l s" "finite A" "card A \<le> 20000"
  shows "live_buckets now l = buckets l"
proof -
  have "length (buckets l) = card (fst ` set (buckets l))"
    using assms(1) distinct_card[of "map fst (buckets l)"] by (simp add: same_table_def umap_ok_def)
  also have "\<dots> \<le> card A" using assms(1,2) by (intro card_mono) (simp_all add: same_table_def)
  finally show ?thesis using assms(3) by (simp add: live_buckets_def)
qed

lemma same_table_allow:
  assumes s: "same_table A l s" and A: "finite A" "card A \<le> 20000" "ip \<in> A" and now: "0 < now"
  shows "same_table A (snd (allow now ip l)) (snd (spec_allow (perMin l) now ip s))"
proof (cases "0 < perMin l")
  case False
  with s show ?thesis by (simp add: allow_def spec_allow_def)
next
  case True
  note live = nothing_purged[OF s A(1,2), of now]
  have get: "map_of (buckets l) = s" "\<And>ip b. s ip = Some b \<Longrightarrow> 0 < windowStart b" "umap_ok (buckets l)"
    "fst ` set (buckets l) \<subseteq> A" using s by (auto simp: same_table_def)
  let ?b = "snd (hit (perMin l) now (bucket_of (buckets l) ip))"
  have b: "snd (spec_allow (perMin l) now ip s) = s(ip \<mapsto> ?b)" "0 < windowStart ?b"
    using True now get(1) get(2)[of ip]
    by (auto simp: spec_allow_def hit_def bucket_of_def new_bucket_def map_upd_triv split: option.splits)
  have l: "buckets (snd (allow now ip l)) = AList.update ip ?b (buckets l)" using True by (simp add: allow_eq live)
  have "fst ` set (AList.update ip ?b (buckets l)) \<subseteq> A"
    using get(4) A(3) by (simp add: dom_update)
  then show ?thesis
    unfolding same_table_def l b(1) using b(2) get(1-3) by (auto simp: update_conv' umap.valid_put split: if_splits)
qed

lemma run_in_table:
  "same_table A l s \<Longrightarrow> finite A \<Longrightarrow> card A \<le> 20000 \<Longrightarrow> fst ` set calls \<subseteq> A \<Longrightarrow>
   \<forall>(ip, now) \<in> set calls. 0 < now \<Longrightarrow> fst (run_limiter l calls) = spec_run (perMin l) s calls"
proof (induction calls arbitrary: l s)
  case Nil
  then show ?case by simp
next
  case (Cons call calls)
  obtain ip now where call: "call = (ip, now)" by (cases call)
  with Cons.prems have c: "ip \<in> A" "0 < now" by auto
  have "same_limits now l s" using Cons.prems(1) by (auto simp: same_table_def same_limits_def)
  note same = allow_simulates(1)[OF this c(2), of ip]
  have "fst (run_limiter (snd (allow now ip l)) calls) =
      spec_run (perMin l) (snd (spec_allow (perMin l) now ip s)) calls"
    using Cons.IH[OF same_table_allow[OF Cons.prems(1-3) c]] Cons.prems(2-5) by simp
  with same call show ?case by (simp add: run_limiter_Cons spec_run_Cons)
qed

lemma clock_from_sorted:
  "sorted (map snd calls) \<Longrightarrow> \<forall>(ip, now) \<in> set calls. t \<le> now \<Longrightarrow> clock_from t calls"
proof (induction calls arbitrary: t)
  case (Cons call calls)
  then show ?case by (cases call) fastforce
qed simp

text \<open>C22: the limiter refines one that keeps every bucket for ever: on every run of calls with positive
  clock readings, whatever the addresses, purging stale buckets when the table is large changes no decision,
  provided that the readings never go back or that there are at most 20000 addresses (threads read the clock
  before they take the mutex, so their calls may come out of order).\<close>
theorem limiter_refines_spec:
  assumes "\<forall>(ip, now) \<in> set calls. 0 < now"
    and "sorted (map snd calls) \<or> card (fst ` set calls) \<le> 20000"
  shows "fst (run_limiter (make_limiter n) calls) = spec_run n (\<lambda>_. None) calls"
proof (cases "card (fst ` set calls) \<le> 20000")
  case True
  have "same_table (fst ` set calls) (make_limiter n) (\<lambda>_. None)"
    by (auto simp: same_table_def make_limiter_def umap_ok_def)
  from run_in_table[OF this _ True subset_refl assms(1)] show ?thesis by (simp add: make_limiter_def)
next
  case False
  have "same_limits 1 (make_limiter n) (\<lambda>_. None)"
    by (simp add: same_limits_def make_limiter_def umap_ok_def)
  moreover have "clock_from 1 calls" using assms False by (intro clock_from_sorted) auto
  ultimately show ?thesis using run_simulates[of 1 "make_limiter n"] by (simp add: make_limiter_def)
qed

lemma limiter_refines_spec_witness:
  "fst (run_limiter (make_limiter 1) [(''a'', 1), (''a'', 62), (''a'', 3), (''b'', 2), (''a'', 122)]) =
     [True, True, False, True, True]"
proof -
  have "spec_run 1 (\<lambda>_. None) [(''a'', 1), (''a'', 62), (''a'', 3), (''b'', 2), (''a'', 122)] =
      [True, True, False, True, True]"
    by (simp add: spec_run_Cons spec_allow_def)
  then show ?thesis
    using limiter_refines_spec[of "[(''a'', 1), (''a'', 62), (''a'', 3), (''b'', 2), (''a'', 122)]" 1] by (simp add: card_insert_if)
qed

section \<open>How much one client can get\<close>

fun admitted :: "string \<Rightarrow> (string \<times> int) list \<Rightarrow> bool list \<Rightarrow> nat" where
  "admitted ip (call # calls) (ok # oks) =
     (if fst call = ip \<and> ok then 1 else 0) + admitted ip calls oks"
| "admitted ip _ _ = 0"

lemma admitted_Cons:
  "admitted ip ((k, now) # calls) (fst (run_limiter l ((k, now) # calls))) =
     (if k = ip \<and> fst (allow now k l) then 1 else 0) + admitted ip calls (fst (run_limiter (snd (allow now k l)) calls))"
  by (simp add: run_limiter_Cons)

text \<open>
  What an address can still get while the readings are in the 60 seconds from \<open>t\<close>: a window opened
  there does not end there, an older one can be followed by one more. The order of the readings does
  not matter; the code reads the clock before it takes the mutex, so they may come out of order.
\<close>

definition allowance :: "int \<Rightarrow> rate_limiter \<Rightarrow> string \<Rightarrow> int" where
  "allowance t l ip =
     (case map_of (buckets l) ip of
        None \<Rightarrow> perMin l
      | Some b \<Rightarrow> if t \<le> windowStart b then perMin l - count b else 2 * perMin l - count b)"

lemma allowance_bounds:
  assumes "limiter_ok l" and "0 < perMin l"
  shows "0 \<le> allowance t l ip" and "allowance t l ip \<le> 2 * perMin l - 1"
  using assms limiter_ok_map_of[OF assms(1), of ip]
  by (auto simp: allowance_def bucket_ok_def split: option.splits)

lemma allowance_step:
  assumes l: "limiter_ok l" "0 < perMin l" and t: "0 < t" "t \<le> now" "now < t + 60"
  shows "(if k = ip \<and> fst (allow now k l) then 1 else 0) + allowance t (snd (allow now k l)) ip \<le> allowance t l ip"
proof -
  let ?bs = "live_buckets now l"
  have u: "umap_ok (buckets l)" using l(1) by (simp add: limiter_ok_def)
  have live: "allowance t (l\<lparr> buckets := ?bs \<rparr>) ip \<le> allowance t l ip"
    using l(2) t limiter_ok_map_of[OF l(1), of ip]
    by (auto simp: allowance_def live_buckets_def map_of_purge[OF u] bucket_ok_def split: option.splits)
  have old: "bucket_ok (perMin l) b" if "map_of ?bs ip = Some b" for b
    using that l(1) set_live[of now l] by (auto simp: limiter_ok_def dest!: map_of_SomeD)
  have get: "map_of (buckets (snd (allow now k l))) ip =
      (if k = ip then Some (snd (hit (perMin l) now (bucket_of ?bs ip))) else map_of ?bs ip)"
    using l(2) by (simp add: allow_eq update_conv')
  have ok: "fst (allow now k l) = fst (hit (perMin l) now (bucket_of ?bs k))"
    using l(2) by (simp add: allow_eq)
  show ?thesis
  proof (cases "k = ip")
    case True
    have "(if fst (hit (perMin l) now (bucket_of ?bs ip)) then 1 else 0) +
        allowance t (snd (allow now k l)) ip \<le> allowance t (l\<lparr> buckets := ?bs \<rparr>) ip"
      using True get old l(2) t
      by (auto simp: allowance_def hit_def bucket_of_def new_bucket_def bucket_ok_def split: option.splits)
    with live True ok show ?thesis by simp
  next
    case False
    with get have "allowance t (snd (allow now k l)) ip = allowance t (l\<lparr> buckets := ?bs \<rparr>) ip"
      by (simp add: allowance_def split: option.splits)
    with live False show ?thesis by simp
  qed
qed

lemma admitted_in_minute:
  "limiter_ok l \<Longrightarrow> 0 < perMin l \<Longrightarrow> 0 < t \<Longrightarrow> \<forall>(k, now) \<in> set calls. t \<le> now \<and> now < t + 60 \<Longrightarrow>
   int (admitted ip calls (fst (run_limiter l calls))) \<le> allowance t l ip"
proof (induction calls arbitrary: l)
  case Nil
  then show ?case using allowance_bounds(1) by simp
next
  case (Cons call calls)
  obtain k now where call: "call = (k, now)" by (cases call)
  have "int (admitted ip calls (fst (run_limiter (snd (allow now k l)) calls))) \<le> allowance t (snd (allow now k l)) ip"
    using Cons.prems by (intro Cons.IH) (auto simp: limiter_ok_allow)
  moreover have "(if k = ip \<and> fst (allow now k l) then 1 else 0) + allowance t (snd (allow now k l)) ip \<le> allowance t l ip"
    using Cons.prems call by (intro allowance_step) auto
  ultimately show ?case unfolding call admitted_Cons by (auto split: if_splits)
qed

lemma run_limiter_state:
  "snd (run_limiter l []) = l"
  "snd (run_limiter l ((ip, now) # calls)) = snd (run_limiter (snd (allow now ip l)) calls)"
  "snd (run_limiter l (pre @ calls)) = snd (run_limiter (snd (run_limiter l pre)) calls)"
proof -
  show step: "snd (run_limiter l ((ip, now) # calls)) = snd (run_limiter (snd (allow now ip l)) calls)" for l ip now calls
    by (simp add: run_limiter.simps(2) split: prod.splits)
  show "snd (run_limiter l (pre @ calls)) = snd (run_limiter (snd (run_limiter l pre)) calls)"
    by (induction pre arbitrary: l) (auto simp: step)
qed simp

lemma run_limiter_later:
  "drop (length pre) (fst (run_limiter l (pre @ calls))) = fst (run_limiter (snd (run_limiter l pre)) calls)"
proof (induction pre arbitrary: l)
  case (Cons call pre)
  then show ?case by (cases call) (simp add: run_limiter_Cons run_limiter_state)
qed simp

lemma run_limiter_ok: "limiter_ok l \<Longrightarrow> limiter_ok (snd (run_limiter l calls)) \<and> perMin (snd (run_limiter l calls)) = perMin l"
  by (induction calls arbitrary: l) (auto simp: run_limiter_state limiter_ok_allow)

lemma burst_limit:
  assumes "0 < n" and "\<forall>(k, now) \<in> set calls. 0 < now \<and> t0 \<le> now \<and> now < t0 + 60"
  shows "int (admitted ip calls
           (drop (length pre) (fst (run_limiter (make_limiter n) (pre @ calls))))) \<le> 2 * n - 1"
proof -
  let ?l = "snd (run_limiter (make_limiter n) pre)"
  have l: "limiter_ok ?l" "perMin ?l = n"
    using run_limiter_ok[OF make_limiter_ok, of n pre] by (simp_all add: make_limiter_def)
  have "\<forall>(k, now) \<in> set calls. max 1 t0 \<le> now \<and> now < max 1 t0 + 60" using assms(2) by force
  then have "int (admitted ip calls (fst (run_limiter ?l calls))) \<le> allowance (max 1 t0) ?l ip"
    using l assms(1) by (intro admitted_in_minute) auto
  with allowance_bounds(2)[OF l(1), of "max 1 t0" ip] l(2) assms(1) show ?thesis
    by (simp add: run_limiter_later)
qed

text \<open>in any stretch of the calls whose clock readings lie within 60 seconds, one address gets
  at most \<open>2 * limit - 1\<close> requests through, whatever happened before, whatever other addresses do
  and in whatever order the threads come with their readings: the fixed window lets a client nearly
  double the configured rate across a window boundary, and never more.\<close>
theorem burst_bound:
  assumes "0 < n" and "\<forall>(k, now) \<in> set calls. 0 < now \<and> t0 \<le> now \<and> now < t0 + 60"
  shows "int (admitted ip calls
           (drop (length pre) (fst (run_limiter (make_limiter n) (pre @ calls))))) \<le> 2 * n - 1"
  by (rule burst_limit[OF assms])

text \<open>The bound is reached: two requests a minute, and three within the seconds 59 and 61.\<close>

lemma burst_bound_witness:
  "clock_from 1 ([(''a'', 1)] @ [(''a'', 60), (''a'', 61), (''a'', 61)]) \<and>
   int (admitted ''a'' [(''a'', 60), (''a'', 61), (''a'', 61)]
     (drop (length [(''a'', 1)])
       (fst (run_limiter (make_limiter 2) ([(''a'', 1)] @ [(''a'', 60), (''a'', 61), (''a'', 61)]))))) = 3"
proof -
  let ?pre = "[(''a'', 1 :: int)]" and ?calls = "[(''a'', 60), (''a'', 61), (''a'', 61 :: int)]"
  have c: "clock_from 1 (?pre @ ?calls)" by simp
  have "int (admitted ''a'' ?calls
      (drop (length ?pre) (fst (run_limiter (make_limiter 2) (?pre @ ?calls))))) \<le> 2 * 2 - 1"
    using burst_bound[of 2 ?calls 60 "''a''" ?pre] by simp
  moreover have "int (admitted ''a'' ?calls
      (drop (length ?pre) (fst (run_limiter (make_limiter 2) (?pre @ ?calls))))) = 3"
    by (simp add: run_limiter_Cons allow_def hit_def make_limiter_def new_bucket_def)
  ultimately show ?thesis using c by simp
qed

text \<open>a clock reading of zero is the sentinel of an unused bucket, so a limiter whose calls all
  happen at second zero of the steady clock refuses nothing, however small its limit.\<close>
theorem clock_zero_unlimited:
  "fst (run_limiter (make_limiter n) (replicate k (ip, 0))) = replicate k True"
proof -
  have "fst (run_limiter l (replicate k (ip, 0))) = replicate k True"
    if "buckets l = [] \<or> (\<exists>c. buckets l = [(ip, \<lparr>windowStart = 0, count = c\<rparr>)])" for l
    using that
  proof (induction k arbitrary: l)
    case 0
    then show ?case by simp
  next
    case (Suc k)
    have "fst (allow 0 ip l)" and "buckets (snd (allow 0 ip l)) = [] \<or>
        (\<exists>c. buckets (snd (allow 0 ip l)) = [(ip, \<lparr>windowStart = 0, count = c\<rparr>)])"
      using Suc.prems by (auto simp: allow_def hit_def new_bucket_def)
    with Suc.IH show ?case by (simp add: run_limiter_Cons)
  qed
  then show ?thesis by (simp add: make_limiter_def)
qed

end
