(* ===== verification/Locking.thy ===== *)
theory Locking
  imports RateLimiter
begin

text \<open>
  \<^verbatim>\<open>RateLimiter::allow\<close> as its callers run it at the same time: the clock is read first, then a
  \<^verbatim>\<open>std::lock_guard\<close> takes the mutex, and the purge, the look-up of the bucket and each access to its
  two fields are steps of their own until the guard lets the mutex go. A thread that finds the mutex
  taken has no step. The theorems are what the rest of the development relies on when it takes
  \<open>allow\<close> to be one step: the results are those of the calls one after another in the order in which
  they got the mutex, and no caller waits for ever.
\<close>

section \<open>Threads at the limiter\<close>

text \<open>Where a caller is; numbers are its clock reading and the count it has read.\<close>

datatype caller =
    Called | Has_clock int
  | Locked int | Purged int | Found int | Restarted | Counted int | Unlocking bool
  | Returned bool

text \<open>The clock, the mutex with its holder, the limiter, the callers, and the order in which they got
  the mutex, with their readings.\<close>

record locking =
  k_clock :: int
  k_mutex :: "nat option"
  k_limiter :: rate_limiter
  k_caller :: "nat \<Rightarrow> caller"
  k_order :: "(nat \<times> int) list"

definition start_locking :: "int \<Rightarrow> int \<Rightarrow> locking" where
  "start_locking limit t =
     \<lparr> k_clock = t, k_mutex = None, k_limiter = make_limiter limit, k_caller = (\<lambda>i. Called), k_order = [] \<rparr>"

text \<open>A thread goes on to a place in the code.\<close>

definition goto :: "nat \<Rightarrow> caller \<Rightarrow> locking \<Rightarrow> locking" where
  "goto i c s = s\<lparr> k_caller := (k_caller s)(i := c) \<rparr>"

definition put_bucket :: "string \<Rightarrow> bucket \<Rightarrow> locking \<Rightarrow> locking" where
  "put_bucket ip b s = s\<lparr> k_limiter := (k_limiter s)\<lparr> buckets := AList.update ip b (buckets (k_limiter s)) \<rparr> \<rparr>"

definition set_buckets :: "(string, bucket) umap \<Rightarrow> locking \<Rightarrow> locking" where
  "set_buckets bs s = s\<lparr> k_limiter := (k_limiter s)\<lparr> buckets := bs \<rparr> \<rparr>"

text \<open>One step of a caller. \<open>ip i\<close> is the address thread \<open>i\<close> asks for, \<open>b\<close> the bucket \<^verbatim>\<open>Bucket& b\<close> refers
  to; the last statement of each branch is followed by the destructor of the guard.\<close>

inductive caller_step :: "(nat \<Rightarrow> string) \<Rightarrow> nat \<Rightarrow> locking \<Rightarrow> locking \<Rightarrow> bool" for ip i where
  disabled: "k_caller s i = Called \<Longrightarrow> perMin (k_limiter s) \<le> 0 \<Longrightarrow>
    caller_step ip i s (goto i (Returned True) s)"
| read_clock: "k_caller s i = Called \<Longrightarrow> 0 < perMin (k_limiter s) \<Longrightarrow>
    caller_step ip i s (goto i (Has_clock (k_clock s)) s)"
| lock: "k_caller s i = Has_clock now \<Longrightarrow> k_mutex s = None \<Longrightarrow>
    caller_step ip i s (goto i (Locked now) (s\<lparr> k_mutex := Some i, k_order := k_order s @ [(i, now)] \<rparr>))"
| purges: "k_caller s i = Locked now \<Longrightarrow> 20000 < length (buckets (k_limiter s)) \<Longrightarrow>
    caller_step ip i s (goto i (Purged now) (set_buckets (purge now (buckets (k_limiter s))) s))"
| no_purge: "k_caller s i = Locked now \<Longrightarrow> length (buckets (k_limiter s)) \<le> 20000 \<Longrightarrow>
    caller_step ip i s (goto i (Purged now) s)"
| finds: "k_caller s i = Purged now \<Longrightarrow> map_of (buckets (k_limiter s)) (ip i) = Some b \<Longrightarrow>
    caller_step ip i s (goto i (Found now) s)"
| creates: "k_caller s i = Purged now \<Longrightarrow> map_of (buckets (k_limiter s)) (ip i) = None \<Longrightarrow>
    caller_step ip i s (goto i (Found now) (put_bucket (ip i) new_bucket s))"
| restarts: "k_caller s i = Found now \<Longrightarrow> map_of (buckets (k_limiter s)) (ip i) = Some b \<Longrightarrow>
    windowStart b = 0 \<or> 60 \<le> now - windowStart b \<Longrightarrow>
    caller_step ip i s (goto i Restarted (put_bucket (ip i) (b\<lparr> windowStart := now \<rparr>) s))"
| counts_one: "k_caller s i = Restarted \<Longrightarrow> map_of (buckets (k_limiter s)) (ip i) = Some b \<Longrightarrow>
    caller_step ip i s (goto i (Unlocking True) (put_bucket (ip i) (b\<lparr> count := 1 \<rparr>) s))"
| refuses: "k_caller s i = Found now \<Longrightarrow> map_of (buckets (k_limiter s)) (ip i) = Some b \<Longrightarrow>
    \<not> (windowStart b = 0 \<or> 60 \<le> now - windowStart b) \<Longrightarrow> perMin (k_limiter s) \<le> count b \<Longrightarrow>
    caller_step ip i s (goto i (Unlocking False) s)"
| reads_count: "k_caller s i = Found now \<Longrightarrow> map_of (buckets (k_limiter s)) (ip i) = Some b \<Longrightarrow>
    \<not> (windowStart b = 0 \<or> 60 \<le> now - windowStart b) \<Longrightarrow> count b < perMin (k_limiter s) \<Longrightarrow>
    caller_step ip i s (goto i (Counted (count b)) s)"
| writes_count: "k_caller s i = Counted c \<Longrightarrow> map_of (buckets (k_limiter s)) (ip i) = Some b \<Longrightarrow>
    caller_step ip i s (goto i (Unlocking True) (put_bucket (ip i) (b\<lparr> count := c + 1 \<rparr>) s))"
| unlock: "k_caller s i = Unlocking ok \<Longrightarrow>
    caller_step ip i s (goto i (Returned ok) (s\<lparr> k_mutex := None \<rparr>))"

text \<open>A run of \<open>n\<close> callers: the clock goes on, or one of them takes a step.\<close>

inductive lock_run :: "int \<Rightarrow> (nat \<Rightarrow> string) \<Rightarrow> nat \<Rightarrow> locking \<Rightarrow> bool" for limit ip n where
  lock_start: "lock_run limit ip n (start_locking limit t)"
| clock_on: "lock_run limit ip n s \<Longrightarrow> k_clock s \<le> t \<Longrightarrow> lock_run limit ip n (s\<lparr> k_clock := t \<rparr>)"
| caller_on: "lock_run limit ip n s \<Longrightarrow> i < n \<Longrightarrow> caller_step ip i s s' \<Longrightarrow> lock_run limit ip n s'"

inductive_cases caller_stepE: "caller_step ip i s s'"

section \<open>What the mutex protects\<close>

fun critical :: "caller \<Rightarrow> bool" where
  "critical Called = False" | "critical (Has_clock now) = False" | "critical (Returned ok) = False"
| "critical _ = True"

definition calls_in_order :: "(nat \<Rightarrow> string) \<Rightarrow> (nat \<times> int) list \<Rightarrow> (string \<times> int) list" where
  "calls_in_order ip = map (\<lambda>(i, now). (ip i, now))"

text \<open>The map of the limiter while the holder is at a place, from the limiter \<open>l\<close> it found: the partial
  result of \<open>allow\<close>.\<close>

fun halfway :: "int \<Rightarrow> string \<Rightarrow> rate_limiter \<Rightarrow> caller \<Rightarrow> (string, bucket) umap \<Rightarrow> bool" where
  "halfway now ip l (Locked t) bs \<longleftrightarrow> t = now \<and> bs = buckets l"
| "halfway now ip l (Purged t) bs \<longleftrightarrow> t = now \<and> bs = live_buckets now l"
| "halfway now ip l (Found t) bs \<longleftrightarrow>
     t = now \<and> bs = AList.update ip (bucket_of (live_buckets now l) ip) (live_buckets now l)"
| "halfway now ip l Restarted bs \<longleftrightarrow>
     (let b = bucket_of (live_buckets now l) ip
      in (windowStart b = 0 \<or> 60 \<le> now - windowStart b) \<and>
         bs = AList.update ip (b\<lparr> windowStart := now \<rparr>) (live_buckets now l))"
| "halfway now ip l (Counted c) bs \<longleftrightarrow>
     (let b = bucket_of (live_buckets now l) ip
      in \<not> (windowStart b = 0 \<or> 60 \<le> now - windowStart b) \<and> count b < perMin l \<and> c = count b \<and>
         bs = AList.update ip b (live_buckets now l))"
| "halfway now ip l (Unlocking ok) bs \<longleftrightarrow> allow now ip l = (ok, l\<lparr> buckets := bs \<rparr>)"
| "halfway now ip l _ bs \<longleftrightarrow> False"

text \<open>Nobody in the critical section and the map as the calls before left it, or the holder halfway
  through the last of them.\<close>

definition free_ok :: "int \<Rightarrow> (nat \<Rightarrow> string) \<Rightarrow> locking \<Rightarrow> bool" where
  "free_ok limit ip s \<longleftrightarrow>
     (\<forall>i. \<not> critical (k_caller s i)) \<and>
     k_limiter s = snd (run_limiter (make_limiter limit) (calls_in_order ip (k_order s)))"

definition held_ok :: "int \<Rightarrow> (nat \<Rightarrow> string) \<Rightarrow> locking \<Rightarrow> nat \<Rightarrow> bool" where
  "held_ok limit ip s i \<longleftrightarrow>
     0 < limit \<and>
     (\<forall>j. j \<noteq> i \<longrightarrow> \<not> critical (k_caller s j)) \<and>
     (\<exists>ks now. k_order s = ks @ [(i, now)] \<and>
        (let l = snd (run_limiter (make_limiter limit) (calls_in_order ip ks))
         in k_limiter s = l\<lparr> buckets := buckets (k_limiter s) \<rparr> \<and>
            halfway now (ip i) l (k_caller s i) (buckets (k_limiter s))))"

text \<open>Who has been at the mutex, and with what result.\<close>

definition order_ok :: "int \<Rightarrow> (nat \<Rightarrow> string) \<Rightarrow> locking \<Rightarrow> bool" where
  "order_ok limit ip s \<longleftrightarrow>
     distinct (map fst (k_order s)) \<and>
     (\<forall>i. i \<in> fst ` set (k_order s) \<longrightarrow> critical (k_caller s i) \<or> (\<exists>ok. k_caller s i = Returned ok)) \<and>
     (\<forall>i now. k_caller s i = Has_clock now \<longrightarrow> 0 < limit) \<and>
     (\<forall>i ok. k_caller s i = Returned ok \<longrightarrow> limit \<le> 0 \<and> ok \<or> i \<in> fst ` set (k_order s)) \<and>
     (\<forall>k < length (k_order s). \<forall>ok. k_caller s (fst (k_order s ! k)) = Returned ok \<longrightarrow>
        ok = fst (run_limiter (make_limiter limit) (calls_in_order ip (k_order s))) ! k)"

definition lock_inv :: "int \<Rightarrow> (nat \<Rightarrow> string) \<Rightarrow> nat \<Rightarrow> locking \<Rightarrow> bool" where
  "lock_inv limit ip n s \<longleftrightarrow>
     (case k_mutex s of None \<Rightarrow> free_ok limit ip s | Some i \<Rightarrow> i < n \<and> held_ok limit ip s i) \<and>
     order_ok limit ip s"

lemma update_same: "map_of al k = Some v \<Longrightarrow> AList.update k v al = al"
  by (induction al) auto

lemma goto_simps [simp]:
  "k_caller (goto i c s) = (k_caller s)(i := c)" "k_mutex (goto i c s) = k_mutex s" "k_order (goto i c s) = k_order s"
  "k_limiter (goto i c s) = k_limiter s" "k_clock (goto i c s) = k_clock s"
  by (simp_all add: goto_def)

lemma put_bucket_simps [simp]:
  "k_caller (put_bucket a b s) = k_caller s" "k_mutex (put_bucket a b s) = k_mutex s"
  "k_order (put_bucket a b s) = k_order s" "perMin (k_limiter (put_bucket a b s)) = perMin (k_limiter s)"
  "buckets (k_limiter (put_bucket a b s)) = AList.update a b (buckets (k_limiter s))"
  "k_caller (set_buckets bs s) = k_caller s" "k_mutex (set_buckets bs s) = k_mutex s"
  "k_order (set_buckets bs s) = k_order s" "perMin (k_limiter (set_buckets bs s)) = perMin (k_limiter s)"
  "buckets (k_limiter (set_buckets bs s)) = bs"
  by (simp_all add: put_bucket_def set_buckets_def)

lemma same_but_buckets: "l = m\<lparr> buckets := bs \<rparr> \<longleftrightarrow> perMin l = perMin m \<and> buckets l = bs" for l m :: rate_limiter
  by (cases l; cases m) auto

lemma perMin_run [simp]: "perMin (snd (run_limiter l calls)) = perMin l"
  by (induction calls arbitrary: l) (auto simp: run_limiter_state)

text \<open>A step of the holder that keeps the mutex goes on with \<open>allow\<close>.\<close>

lemma halfway_step:
  assumes "caller_step ip i s s'" and "critical (k_caller s i)" and "k_mutex s' \<noteq> None"
    and "0 < perMin l" and "perMin (k_limiter s) = perMin l"
    and "halfway now (ip i) l (k_caller s i) (buckets (k_limiter s))" and "k_mutex s = Some i"
  shows "halfway now (ip i) l (k_caller s' i) (buckets (k_limiter s'))"
  using assms
proof (cases rule: caller_stepE[OF assms(1)])
  case (6 now b)
  then show ?thesis using assms by (simp add: bucket_of_def update_same)
next
  case (7 now)
  then show ?thesis using assms by (simp add: bucket_of_def)
qed (auto simp: live_buckets_def update_conv' Let_def allow_eq hit_def same_but_buckets)

text \<open>The four kinds of steps.\<close>

lemma step_kinds:
  assumes "caller_step ip i s s'"
  obtains (outside) c where "k_caller s i = Called" "s' = goto i c s"
      "c = Returned True \<and> perMin (k_limiter s) \<le> 0 \<or> (\<exists>now. c = Has_clock now) \<and> 0 < perMin (k_limiter s)"
  | (acquire) now where "k_caller s i = Has_clock now" "k_mutex s = None"
      "s' = goto i (Locked now) (s\<lparr> k_mutex := Some i, k_order := k_order s @ [(i, now)] \<rparr>)"
  | (inside) "critical (k_caller s i)" "critical (k_caller s' i)" "k_mutex s' = k_mutex s" "k_order s' = k_order s"
      "perMin (k_limiter s') = perMin (k_limiter s)" "\<forall>j. j \<noteq> i \<longrightarrow> k_caller s' j = k_caller s j"
  | (release) ok where "k_caller s i = Unlocking ok" "s' = goto i (Returned ok) (s\<lparr> k_mutex := None \<rparr>)"
  using assms by (cases rule: caller_stepE) (auto intro: that)

lemma calls_in_order_simps [simp]:
  "calls_in_order ip [] = []" "calls_in_order ip (ks @ [(i, now)]) = calls_in_order ip ks @ [(ip i, now)]"
  "length (calls_in_order ip ks) = length ks"
  by (simp_all add: calls_in_order_def)

lemma length_run [simp]: "length (fst (run_limiter l calls)) = length calls"
  by (induction l calls rule: run_limiter.induct) (auto simp: run_limiter.simps(2) split: prod.splits)

lemma run_last:
  "fst (run_limiter l (calls @ [(a, now)])) = fst (run_limiter l calls) @ [fst (allow now a (snd (run_limiter l calls)))]"
proof (induction calls arbitrary: l)
  case Nil
  then show ?case by (simp add: run_limiter_Cons)
next
  case (Cons call calls)
  then show ?case by (cases call) (simp add: run_limiter_Cons run_limiter_state)
qed

lemma start_simps [simp]:
  "k_clock (start_locking limit t) = t" "k_mutex (start_locking limit t) = None" "k_order (start_locking limit t) = []"
  "k_caller (start_locking limit t) = (\<lambda>i. Called)" "k_limiter (start_locking limit t) = make_limiter limit"
  by (simp_all add: start_locking_def)

lemma inv_start: "lock_inv limit ip n (start_locking limit t)"
  by (simp add: lock_inv_def free_ok_def order_ok_def run_limiter_state)

lemma not_queued:
  assumes "order_ok limit ip s" and "k_caller s i = Called \<or> k_caller s i = Has_clock now"
  shows "i \<notin> fst ` set (k_order s)"
proof
  assume "i \<in> fst ` set (k_order s)"
  with assms(1) have "critical (k_caller s i) \<or> (\<exists>ok. k_caller s i = Returned ok)"
    unfolding order_ok_def by blast
  with assms(2) show False by auto
qed

lemma inv_outside:
  assumes inv: "lock_inv limit ip n s" and c: "k_caller s i = Called"
    "c = Returned True \<and> perMin (k_limiter s) \<le> 0 \<or> (\<exists>now. c = Has_clock now) \<and> 0 < perMin (k_limiter s)"
    and m: "perMin (k_limiter s) = limit"
  shows "lock_inv limit ip n (goto i c s)"
proof -
  have no: "\<not> critical c" "i \<notin> fst ` set (k_order s)"
    using inv c by (auto simp: lock_inv_def order_ok_def)
  have "fst (k_order s ! k) \<noteq> i" if "k < length (k_order s)" for k
    using no(2) that by (metis imageI nth_mem)
  then have ord: "order_ok limit ip (goto i c s)"
    using inv no c m by (auto simp: lock_inv_def order_ok_def)
  show ?thesis
  proof (cases "k_mutex s")
    case None
    then have "free_ok limit ip s" using inv by (simp add: lock_inv_def)
    then have "free_ok limit ip (goto i c s)" using no(1) by (simp add: free_ok_def)
    with ord None show ?thesis by (simp add: lock_inv_def)
  next
    case (Some j)
    then have h: "held_ok limit ip s j" "j < n" using inv by (simp_all add: lock_inv_def)
    then have "critical (k_caller s j)" by (cases "k_caller s j") (auto simp: held_ok_def Let_def)
    with c(1) have "j \<noteq> i" by auto
    with h(1) no(1) have "held_ok limit ip (goto i c s) j" by (simp add: held_ok_def)
    with ord Some h(2) show ?thesis by (simp add: lock_inv_def)
  qed
qed

lemma inv_acquire:
  assumes inv: "lock_inv limit ip n s" and c: "k_caller s i = Has_clock now" "k_mutex s = None" and "i < n"
  shows "lock_inv limit ip n (goto i (Locked now) (s\<lparr> k_mutex := Some i, k_order := k_order s @ [(i, now)] \<rparr>))"
    (is "lock_inv limit ip n ?s")
proof -
  have free: "free_ok limit ip s" and ord: "order_ok limit ip s" using inv c(2) by (simp_all add: lock_inv_def)
  have no: "i \<notin> fst ` set (k_order s)" using ord c(1) by (intro not_queued) auto
  have other: "fst (k_order s ! k) \<noteq> i" if "k < length (k_order s)" for k
    using no that by (metis imageI nth_mem)
  have "held_ok limit ip ?s i"
    unfolding held_ok_def Let_def
  proof (intro conjI exI[of _ "k_order s"] exI[of _ now])
    show "0 < limit" using ord c(1) unfolding order_ok_def by blast
    show "\<forall>j. j \<noteq> i \<longrightarrow> \<not> critical (k_caller ?s j)" using free by (simp add: free_ok_def)
  qed (use free in \<open>simp_all add: free_ok_def\<close>)
  moreover have "order_ok limit ip ?s"
    unfolding order_ok_def
  proof (intro conjI allI impI)
    fix k ok assume k: "k < length (k_order ?s)" "k_caller ?s (fst (k_order ?s ! k)) = Returned ok"
    then have "k < length (k_order s)" by (auto simp: nth_append less_Suc_eq split: if_splits)
    with k(2) ord other show "ok = fst (run_limiter (make_limiter limit) (calls_in_order ip (k_order ?s))) ! k"
      by (auto simp: order_ok_def nth_append run_last split: if_splits)
  qed (use ord no in \<open>auto simp: order_ok_def split: if_splits\<close>)
  ultimately show ?thesis using assms(4) by (simp add: lock_inv_def)
qed

lemma holder:
  assumes "lock_inv limit ip n s" and "critical (k_caller s i)"
  shows "k_mutex s = Some i" and "held_ok limit ip s i"
proof -
  obtain j where j: "k_mutex s = Some j" "held_ok limit ip s j"
    using assms by (auto simp: lock_inv_def free_ok_def split: option.splits)
  then have "\<not> critical (k_caller s k)" if "k \<noteq> j" for k using that by (simp add: held_ok_def)
  with assms(2) have "j = i" by metis
  with j show "k_mutex s = Some i" "held_ok limit ip s i" by simp_all
qed

lemma inv_inside:
  assumes inv: "lock_inv limit ip n s" and step: "caller_step ip i s s'"
    and c: "critical (k_caller s i)" "critical (k_caller s' i)" "k_mutex s' = k_mutex s" "k_order s' = k_order s"
      "perMin (k_limiter s') = perMin (k_limiter s)" "\<forall>j. j \<noteq> i \<longrightarrow> k_caller s' j = k_caller s j"
  shows "lock_inv limit ip n s'"
proof -
  note h = holder[OF inv c(1)]
  from h(2) have pos: "0 < limit" by (simp add: held_ok_def)
  from h(2) obtain ks now where ks: "k_order s = ks @ [(i, now)]" "\<forall>j. j \<noteq> i \<longrightarrow> \<not> critical (k_caller s j)"
    "k_limiter s = (snd (run_limiter (make_limiter limit) (calls_in_order ip ks)))\<lparr> buckets := buckets (k_limiter s) \<rparr>"
    "halfway now (ip i) (snd (run_limiter (make_limiter limit) (calls_in_order ip ks))) (k_caller s i) (buckets (k_limiter s))"
    by (auto simp: held_ok_def Let_def)
  let ?l = "snd (run_limiter (make_limiter limit) (calls_in_order ip ks))"
  have l: "perMin ?l = limit" by (simp add: make_limiter_def)
  have m: "perMin (k_limiter s) = perMin ?l" using ks(3) by (simp add: same_but_buckets)
  have "halfway now (ip i) ?l (k_caller s' i) (buckets (k_limiter s'))"
    by (rule halfway_step[OF step c(1) _ _ m ks(4) h(1)]) (use c(3) h(1) pos l in simp_all)
  then have "held_ok limit ip s' i"
    using ks(1,2) c(4-6) m pos by (auto simp: held_ok_def Let_def same_but_buckets)
  moreover have "order_ok limit ip s'"
  proof -
    have "k_caller s' j = Returned ok \<longleftrightarrow> k_caller s j = Returned ok" "critical (k_caller s' j) \<longleftrightarrow> critical (k_caller s j)"
      "k_caller s' j = Has_clock now \<longleftrightarrow> k_caller s j = Has_clock now" for j ok now
      using c by (cases "j = i"; auto)+
    then show ?thesis using inv c(4) by (simp add: lock_inv_def order_ok_def)
  qed
  ultimately show ?thesis using inv h(1) c(3) by (simp add: lock_inv_def)
qed

lemma inv_release:
  assumes inv: "lock_inv limit ip n s" and c: "k_caller s i = Unlocking ok"
  shows "lock_inv limit ip n (goto i (Returned ok) (s\<lparr> k_mutex := None \<rparr>))" (is "lock_inv limit ip n ?s")
proof -
  have h: "held_ok limit ip s i" using holder(2)[OF inv] c by simp
  then obtain ks now where ks: "k_order s = ks @ [(i, now)]" "\<forall>j. j \<noteq> i \<longrightarrow> \<not> critical (k_caller s j)"
    "allow now (ip i) (snd (run_limiter (make_limiter limit) (calls_in_order ip ks))) = (ok, k_limiter s)"
    using c by (auto simp: held_ok_def Let_def)
  have ord: "order_ok limit ip s" using inv by (simp add: lock_inv_def)
  have "free_ok limit ip ?s" using ks by (auto simp: free_ok_def run_limiter_state)
  moreover have "order_ok limit ip ?s"
  proof -
    have i: "i \<notin> fst ` set ks" using ord ks(1) by (simp add: order_ok_def)
    have "fst (ks ! k) \<noteq> i" if "k < length ks" for k using i that by (metis imageI nth_mem)
    then show ?thesis
      using ord ks(1,3) by (auto simp: order_ok_def run_last nth_append less_Suc_eq)
  qed
  ultimately show ?thesis by (simp add: lock_inv_def)
qed

lemma perMin_inv:
  assumes "lock_inv limit ip n s"
  shows "perMin (k_limiter s) = limit"
proof -
  have "\<exists>calls. perMin (k_limiter s) = perMin (snd (run_limiter (make_limiter limit) calls))"
    using assms by (cases "k_mutex s") (auto simp: lock_inv_def free_ok_def held_ok_def Let_def same_but_buckets)
  then show ?thesis by (auto simp: make_limiter_def)
qed

lemma inv_step:
  assumes "lock_inv limit ip n s" and "caller_step ip i s s'" and "i < n"
  shows "lock_inv limit ip n s'"
  using assms(2)
proof (cases rule: step_kinds)
  case inside
  then show ?thesis by (rule inv_inside[OF assms(1,2)])
qed (use assms in \<open>auto intro: inv_outside inv_acquire inv_release dest: perMin_inv\<close>)

lemma inv_clock: "lock_inv limit ip n s \<Longrightarrow> lock_inv limit ip n (s\<lparr> k_clock := t \<rparr>)"
  by (simp add: lock_inv_def free_ok_def held_ok_def order_ok_def split: option.splits)

lemma lock_run_inv: "lock_run limit ip n s \<Longrightarrow> lock_inv limit ip n s"
  by (induction rule: lock_run.induct) (auto intro: inv_start inv_clock inv_step)

section \<open>One call after another\<close>

lemma caller_result:
  assumes inv: "lock_inv limit ip n s" and r: "k_caller s i = Returned ok"
  shows "limit \<le> 0 \<and> ok \<or> (\<exists>k < length (k_order s). fst (k_order s ! k) = i \<and>
      ok = fst (run_limiter (make_limiter limit) (calls_in_order ip (k_order s))) ! k)"
proof (cases "limit \<le> 0 \<and> ok")
  case False
  with inv r have "i \<in> fst ` set (k_order s)" by (auto simp: lock_inv_def order_ok_def)
  then obtain k where "k < length (k_order s)" "fst (k_order s ! k) = i" by (auto simp: in_set_conv_nth)
  with inv r show ?thesis by (auto simp: lock_inv_def order_ok_def)
qed simp

text \<open>C16: the limiter is thread-safe: of any number of callers at most one is between taking the mutex and
  letting it go, and whatever the interleaving of their single steps, every result is the one the call
  has when the calls are made one after another in the order in which they got the mutex, each with the
  clock reading it brought; whenever the mutex is free the buckets are those of that sequence.\<close>

theorem allow_linearizes:
  assumes "lock_run limit ip n s"
  shows "(\<forall>i j. critical (k_caller s i) \<and> critical (k_caller s j) \<longrightarrow> i = j) \<and>
    distinct (map fst (k_order s)) \<and>
    (\<forall>i ok. k_caller s i = Returned ok \<longrightarrow> limit \<le> 0 \<and> ok \<or>
       (\<exists>k < length (k_order s). fst (k_order s ! k) = i \<and>
          ok = fst (run_limiter (make_limiter limit) (calls_in_order ip (k_order s))) ! k)) \<and>
    (k_mutex s = None \<longrightarrow>
       k_limiter s = snd (run_limiter (make_limiter limit) (calls_in_order ip (k_order s))))"
proof (intro conjI allI impI)
  note inv = lock_run_inv[OF assms]
  show "i = j" if "critical (k_caller s i) \<and> critical (k_caller s j)" for i j
    using holder(1)[OF inv, of i] holder(1)[OF inv, of j] that by simp
  show "distinct (map fst (k_order s))" using inv by (simp add: lock_inv_def order_ok_def)
  show "limit \<le> 0 \<and> ok \<or> (\<exists>k < length (k_order s). fst (k_order s ! k) = i \<and>
      ok = fst (run_limiter (make_limiter limit) (calls_in_order ip (k_order s))) ! k)"
    if "k_caller s i = Returned ok" for i ok
    by (rule caller_result[OF inv that])
  show "k_limiter s = snd (run_limiter (make_limiter limit) (calls_in_order ip (k_order s)))" if "k_mutex s = None"
    using inv that by (simp add: lock_inv_def free_ok_def)
qed

section \<open>No caller waits for ever\<close>

fun caller_steps :: "caller \<Rightarrow> nat" where
  "caller_steps Called = 8" | "caller_steps (Has_clock now) = 7" | "caller_steps (Locked now) = 6"
| "caller_steps (Purged now) = 5" | "caller_steps (Found now) = 4" | "caller_steps Restarted = 3"
| "caller_steps (Counted c) = 3" | "caller_steps (Unlocking ok) = 2" | "caller_steps (Returned ok) = 0"

definition lock_work :: "nat \<Rightarrow> locking \<Rightarrow> nat" where
  "lock_work n s = (\<Sum>i < n. caller_steps (k_caller s i))"

lemma step_lower: "caller_step ip i s s' \<Longrightarrow> caller_steps (k_caller s' i) < caller_steps (k_caller s i)"
  by (elim caller_stepE) simp_all

lemma step_works: "caller_step ip i s s' \<Longrightarrow> i < n \<Longrightarrow> lock_work n s' < lock_work n s"
proof -
  assume step: "caller_step ip i s s'" and i: "i < n"
  have "\<forall>j. j \<noteq> i \<longrightarrow> k_caller s' j = k_caller s j" using step by (elim caller_stepE) simp_all
  with step_lower[OF step] show ?thesis unfolding lock_work_def using i
    by (intro sum_strict_mono_ex1) (auto, metis order.refl less_imp_le)
qed

text \<open>A caller that does not wait for the mutex has a step: the bucket it refers to is there.\<close>

lemma caller_can_step:
  assumes inv: "lock_inv limit ip n s" and "\<forall>ok. k_caller s i \<noteq> Returned ok"
    and free: "critical (k_caller s i) \<or> k_mutex s = None"
  shows "\<exists>s'. caller_step ip i s s'"
proof (cases "critical (k_caller s i)")
  case False
  then show ?thesis
    using assms(2) free by (cases "k_caller s i"; cases "perMin (k_limiter s) \<le> 0")
      (auto intro: caller_step.intros simp: not_le)
next
  case True
  then obtain now l where h: "halfway now (ip i) l (k_caller s i) (buckets (k_limiter s))"
    using holder(2)[OF inv True] by (auto simp: held_ok_def Let_def)
  show ?thesis
  proof (cases "k_caller s i")
    case (Locked t)
    then show ?thesis by (cases "20000 < length (buckets (k_limiter s))") (auto intro: caller_step.intros simp: not_less)
  next
    case (Purged t)
    then show ?thesis by (cases "map_of (buckets (k_limiter s)) (ip i)") (auto intro: caller_step.intros)
  next
    case (Found t)
    with h obtain b where b: "map_of (buckets (k_limiter s)) (ip i) = Some b" by (auto simp: update_conv')
    show ?thesis
    proof (cases "windowStart b = 0 \<or> 60 \<le> t - windowStart b")
      case True
      then show ?thesis using restarts[of s i t ip b] Found b by blast
    next
      case False
      then show ?thesis using refuses[of s i t ip b] reads_count[of s i t ip b] Found b by (meson not_le)
    qed
  next
    case Restarted
    with h obtain b where "map_of (buckets (k_limiter s)) (ip i) = Some b" by (auto simp: update_conv' Let_def)
    with counts_one[of s i ip b] Restarted show ?thesis by blast
  next
    case (Counted c)
    with h obtain b where "map_of (buckets (k_limiter s)) (ip i) = Some b" by (auto simp: update_conv' Let_def)
    with writes_count[of s i c ip b] Counted show ?thesis by blast
  next
    case (Unlocking ok)
    with unlock[of s i ok ip] show ?thesis by blast
  qed (use True in simp_all)
qed

text \<open>C17: no caller of the limiter waits for ever: as long as some call has not returned, one of the callers
  can go on, the holder of the mutex if there is one; every step of a caller uses up some of at most
  eight for each, so under every schedule all calls return, and then the mutex is free.\<close>

theorem callers_return:
  assumes "lock_run limit ip n s"
  shows "((\<forall>i < n. \<exists>ok. k_caller s i = Returned ok) \<longrightarrow> k_mutex s = None) \<and>
    (\<not> (\<forall>i < n. \<exists>ok. k_caller s i = Returned ok) \<longrightarrow> (\<exists>i < n. \<exists>s'. caller_step ip i s s')) \<and>
    (\<forall>i < n. \<forall>s'. caller_step ip i s s' \<longrightarrow> lock_work n s' < lock_work n s) \<and> lock_work n s \<le> 8 * n"
proof (intro conjI impI allI)
  note inv = lock_run_inv[OF assms]
  have held: "i < n \<and> critical (k_caller s i)" if "k_mutex s = Some i" for i
    using inv that by (cases "k_caller s i") (auto simp: lock_inv_def held_ok_def Let_def)
  show "k_mutex s = None" if "\<forall>i < n. \<exists>ok. k_caller s i = Returned ok"
    using that held by (cases "k_mutex s") fastforce+
  show "\<exists>i < n. \<exists>s'. caller_step ip i s s'" if "\<not> (\<forall>i < n. \<exists>ok. k_caller s i = Returned ok)"
  proof (cases "k_mutex s")
    case None
    with that caller_can_step[OF inv] show ?thesis by blast
  next
    case (Some i)
    then have "i < n" "critical (k_caller s i)" using held by simp_all
    with caller_can_step[OF inv, of i] show ?thesis by (metis critical.simps(3))
  qed
  show "lock_work n s' < lock_work n s" if "i < n" "caller_step ip i s s'" for i s'
    using step_works that by blast
  have "caller_steps c \<le> 8" for c by (cases c) simp_all
  then show "lock_work n s \<le> 8 * n"
    unfolding lock_work_def using sum_bounded_above[of "{..< n}" "\<lambda>i. caller_steps (k_caller s i)" 8] by simp
qed

section \<open>Readings that come too late\<close>

lemma holder_finishes:
  "lock_run limit ip n s \<Longrightarrow> critical (k_caller s i) \<Longrightarrow>
   \<exists>s' ok. lock_run limit ip n s' \<and> k_mutex s' = None \<and> k_order s' = k_order s \<and>
     k_caller s' = (k_caller s)(i := Returned ok)"
proof (induction "caller_steps (k_caller s i)" arbitrary: s rule: less_induct)
  case less
  note inv = lock_run_inv[OF less.prems(1)]
  have i: "i < n" using holder(1)[OF inv less.prems(2)] inv by (simp add: lock_inv_def)
  obtain s1 where s1: "caller_step ip i s s1"
    using caller_can_step[OF inv, of i] less.prems(2) by fastforce
  have run: "lock_run limit ip n s1" by (rule caller_on[OF less.prems(1) i s1])
  from s1 show ?case
  proof (cases rule: step_kinds)
    case inside
    from less.hyps[OF step_lower[OF s1] run inside(2)] obtain s' ok where
      s': "lock_run limit ip n s'" "k_mutex s' = None" "k_order s' = k_order s" "k_caller s' = (k_caller s1)(i := Returned ok)"
      using inside(4) by auto
    have "(k_caller s1)(i := Returned ok) = (k_caller s)(i := Returned ok)" using inside(6) by auto
    with s' show ?thesis by auto
  next
    case (release ok)
    with run show ?thesis by (intro exI[of _ s1] exI[of _ ok]) simp
  qed (use less.prems(2) in simp_all)
qed

lemma call_runs:
  assumes "lock_run limit ip n s" and "i < n" and "k_caller s i = Has_clock now" and "k_mutex s = None"
  shows "\<exists>s' ok. lock_run limit ip n s' \<and> k_mutex s' = None \<and> k_order s' = k_order s @ [(i, now)] \<and>
    k_caller s' = (k_caller s)(i := Returned ok)"
  using holder_finishes[OF caller_on[OF assms(1,2) lock[OF assms(3,4)]], of i] by simp

text \<open>Any readings in the order of the clock, and then any order at the mutex.\<close>

lemma all_read:
  assumes "sorted rs" and "0 < limit"
  shows "m \<le> length rs \<Longrightarrow> \<exists>s. lock_run limit ip (length rs) s \<and> k_mutex s = None \<and> k_order s = [] \<and>
    (\<forall>i < m. k_caller s i = Has_clock (rs ! i)) \<and> (\<forall>i \<ge> m. k_caller s i = Called) \<and>
    (m < length rs \<longrightarrow> k_clock s \<le> rs ! m)"
proof (induction m)
  case 0
  show ?case
    by (rule exI[of _ "start_locking limit (if rs = [] then 0 else rs ! 0)"])
      (simp add: lock_start)
next
  case (Suc m)
  then obtain s where s: "lock_run limit ip (length rs) s" "k_mutex s = None" "k_order s = []"
    "\<forall>i < m. k_caller s i = Has_clock (rs ! i)" "\<forall>i \<ge> m. k_caller s i = Called" "k_clock s \<le> rs ! m" by auto
  let ?s = "s\<lparr> k_clock := rs ! m \<rparr>"
  have run: "lock_run limit ip (length rs) ?s" by (rule clock_on[OF s(1,6)])
  have "0 < perMin (k_limiter ?s)" using perMin_inv[OF lock_run_inv[OF run]] assms(2) by simp
  then have "caller_step ip m ?s (goto m (Has_clock (k_clock ?s)) ?s)"
    using s(5) by (intro read_clock) simp_all
  from caller_on[OF run _ this] Suc.prems have "lock_run limit ip (length rs) (goto m (Has_clock (rs ! m)) ?s)" by simp
  moreover have "rs ! m \<le> rs ! Suc m" if "Suc m < length rs" using assms(1) that by (simp add: sorted_iff_nth_Suc)
  ultimately show ?case
    using s by (intro exI[of _ "goto m (Has_clock (rs ! m)) ?s"]) (auto simp: less_Suc_eq)
qed

lemma any_order:
  assumes "sorted rs" and "0 < limit"
  shows "distinct is \<Longrightarrow> set is \<subseteq> {..< length rs} \<Longrightarrow>
    \<exists>s. lock_run limit ip (length rs) s \<and> k_mutex s = None \<and> k_order s = map (\<lambda>i. (i, rs ! i)) is \<and>
      (\<forall>i < length rs. if i \<in> set is then \<exists>ok. k_caller s i = Returned ok else k_caller s i = Has_clock (rs ! i))"
proof (induction "is" rule: rev_induct)
  case Nil
  from all_read[OF assms order.refl, of ip] show ?case by auto
next
  case (snoc i js)
  then obtain s where s: "lock_run limit ip (length rs) s" "k_mutex s = None" "k_order s = map (\<lambda>i. (i, rs ! i)) js"
    "\<forall>i < length rs. if i \<in> set js then \<exists>ok. k_caller s i = Returned ok else k_caller s i = Has_clock (rs ! i)" by auto
  have "i < length rs" "k_caller s i = Has_clock (rs ! i)" using snoc.prems s(4) by (auto split: if_splits)
  from call_runs[OF s(1) this s(2)] obtain s' ok where "lock_run limit ip (length rs) s'" "k_mutex s' = None"
    "k_order s' = k_order s @ [(i, rs ! i)]" "k_caller s' = (k_caller s)(i := Returned ok)" by blast
  with s(3,4) show ?case by (intro exI[of _ s']) auto
qed

text \<open>A late reading between two that restart the window.\<close>

definition late_calls :: "string \<Rightarrow> nat \<Rightarrow> nat \<Rightarrow> (string \<times> int) list" where
  "late_calls a m k = concat (map (\<lambda>j. [(a, 10), (a, 70 + 60 * int j)]) [m..< m + k])"

lemma late_calls_admitted:
  "2 \<le> perMin l \<Longrightarrow>
   buckets l = (if m = 0 then [] else [(a, \<lparr> windowStart = 10 + 60 * int m, count = 1 \<rparr>)]) \<Longrightarrow>
   fst (run_limiter l (late_calls a m k)) = replicate (2 * k) True"
proof (induction k arbitrary: m l)
  case (Suc k)
  have c: "late_calls a m (Suc k) = (a, 10) # (a, 70 + 60 * int m) # late_calls a (Suc m) k"
    unfolding late_calls_def by (simp add: upt_conv_Cons del: upt_Suc)
  let ?l1 = "snd (allow 10 a l)" and ?l2 = "snd (allow (70 + 60 * int m) a (snd (allow 10 a l)))"
  have "fst (allow 10 a l)" "fst (allow (70 + 60 * int m) a ?l1)" "perMin ?l2 = perMin l"
    "buckets ?l2 = [(a, \<lparr> windowStart = 10 + 60 * int (Suc m), count = 1 \<rparr>)]"
    using Suc.prems by (auto simp: allow_def hit_def new_bucket_def)
  moreover from this have "fst (run_limiter ?l2 (late_calls a (Suc m) k)) = replicate (2 * k) True"
    using Suc.prems(1) by (intro Suc.IH) simp_all
  ultimately show ?case unfolding c by (simp add: run_limiter_Cons)
qed (simp add: late_calls_def)

text \<open>C18: because the clock is read before the mutex is taken, the limiter bounds nothing in a period of the
  clock: with any limit of at least two a minute, any number of calls for one address that read the
  clock in the same second are admitted, when each is decided after one that read it a minute later.\<close>

theorem late_readings_admitted:
  assumes "2 \<le> limit"
  shows "\<exists>s. lock_run limit (\<lambda>i. a) (2 * k) s \<and>
    (\<forall>j < k. (j, 10) \<in> set (k_order s) \<and> k_caller s j = Returned True)"
proof -
  let ?rs = "replicate k 10 @ map (\<lambda>j. 70 + 60 * int j) [0..< k]"
  let ?is = "concat (map (\<lambda>j. [j, k + j]) [0..< k])"
  have "sorted (map (\<lambda>j. 70 + 60 * int j) [0..< k])" by (simp add: sorted_iff_nth_mono)
  then have "sorted ?rs" by (auto simp: sorted_append)
  moreover have "distinct (concat (map (\<lambda>j. [j, k + j]) [0..< m]))" if "m \<le> k" for m
    using that by (induction m) auto
  moreover have "set ?is \<subseteq> {..< length ?rs}" by auto
  ultimately obtain s where s: "lock_run limit (\<lambda>i. a) (length ?rs) s" "k_order s = map (\<lambda>i. (i, ?rs ! i)) ?is"
    "\<forall>i < length ?rs. if i \<in> set ?is then \<exists>ok. k_caller s i = Returned ok else k_caller s i = Has_clock (?rs ! i)"
    using any_order[of ?rs limit ?is "\<lambda>i. a"] assms by fastforce
  have "calls_in_order (\<lambda>i. a) (k_order s) = concat (map (\<lambda>j. map (\<lambda>i. (a, ?rs ! i)) [j, k + j]) [0..< k])"
    unfolding s(2) calls_in_order_def by (simp add: map_concat o_def)
  also have "\<dots> = late_calls a 0 k"
    unfolding late_calls_def by (intro arg_cong[where f = concat] map_cong) (auto simp: nth_append)
  finally have "fst (run_limiter (make_limiter limit) (calls_in_order (\<lambda>i. a) (k_order s))) = replicate (2 * k) True"
    using late_calls_admitted[of "make_limiter limit" 0 a k] assms by (simp add: make_limiter_def)
  moreover have "length (k_order s) = 2 * k"
    unfolding s(2) by (simp add: length_concat o_def sum_list_triv)
  ultimately have ok: "ok" if "k_caller s i = Returned ok" for i ok
    using caller_result[OF lock_run_inv[OF s(1)] that] assms by auto
  have "(j, 10) \<in> set (k_order s) \<and> k_caller s j = Returned True" if "j < k" for j
  proof
    have j: "j \<in> set ?is" "?rs ! j = 10" using that by (auto simp: nth_append)
    then show "(j, 10) \<in> set (k_order s)" unfolding s(2) by force
    have "j < length ?rs" using that by simp
    with s(3) j(1) obtain r where "k_caller s j = Returned r" by metis
    with ok[OF this] show "k_caller s j = Returned True" by simp
  qed
  with s(1) show ?thesis by (auto simp: mult_2)
qed

lemma late_readings_admitted_witness:
  "\<exists>s. lock_run 100 (\<lambda>i. ''10.0.0.7'') 2000 s \<and>
     (\<forall>j < 1000. (j, 10) \<in> set (k_order s) \<and> k_caller s j = Returned True)"
  using late_readings_admitted[of 100 "''10.0.0.7''" 1000] by simp

text \<open>Two callers of which the second gets the mutex first.\<close>

lemma two_callers:
  "\<exists>s. lock_run 1 (\<lambda>i. ''a'') 2 s \<and> k_mutex s = None \<and> k_order s = [(1, 11), (0, 10)] \<and>
     (\<forall>i < 2. \<exists>ok. k_caller s i = Returned ok)"
proof -
  obtain s where s: "lock_run 1 (\<lambda>i. ''a'') 2 s" "k_mutex s = None" "k_order s = [(1, 11), (0, 10)]"
    "\<forall>i < 2. if i \<in> set [1, 0] then \<exists>ok. k_caller s i = Returned ok else k_caller s i = Has_clock ([10, 11] ! i)"
    using any_order[of "[10, 11]" 1 "[1, 0]" "\<lambda>i. ''a''"] by (auto simp: numeral_2_eq_2)
  then have "\<forall>i < 2. \<exists>ok. k_caller s i = Returned ok" by (auto simp: less_2_cases_iff)
  with s show ?thesis by blast
qed

lemma allow_linearizes_witness:
  "\<exists>s. lock_run 1 (\<lambda>i. ''a'') 2 s \<and> k_caller s 1 = Returned True \<and> k_caller s 0 = Returned False"
proof -
  obtain s where s: "lock_run 1 (\<lambda>i. ''a'') 2 s" "k_order s = [(1, 11), (0, 10)]"
    "\<forall>i < 2. \<exists>ok. k_caller s i = Returned ok" using two_callers by blast
  from s(3) obtain ok0 ok1 where r: "k_caller s 0 = Returned ok0" "k_caller s 1 = Returned ok1" by (metis one_less_numeral_iff semiring_norm(76) zero_less_numeral)
  have res: "fst (run_limiter (make_limiter 1) (calls_in_order (\<lambda>i. ''a'') (k_order s))) = [True, False]"
    by (simp add: s(2) calls_in_order_def run_limiter_Cons make_limiter_def allow_def hit_def new_bucket_def)
  have "\<exists>k < length (k_order s). fst (k_order s ! k) = i \<and> ok = [True, False] ! k" if "k_caller s i = Returned ok" for i ok
    using allow_linearizes[OF s(1)] that unfolding res by force
  from this[OF r(1)] this[OF r(2)] have "\<not> ok0" "ok1" by (auto simp: s(2) less_Suc_eq)
  with s(1) r show ?thesis by auto
qed

lemma callers_return_witness:
  "\<exists>s. lock_run 1 (\<lambda>i. ''a'') 2 s \<and> k_mutex s = None \<and> lock_work 2 s \<le> 16"
proof -
  obtain s where s: "lock_run 1 (\<lambda>i. ''a'') 2 s" "\<forall>i < 2. \<exists>ok. k_caller s i = Returned ok" using two_callers by blast
  from callers_return[OF s(1)] s show ?thesis by (intro exI[of _ s]) simp
qed

end
