(* ===== verification/Picojson_Value.thy ===== *)
theory Picojson_Value
  imports Prelude
begin

text \<open>
  The value type of \<^verbatim>\<open>src/lib/include/picojson/picojson.h\<close>, as the library is compiled
  here: \<^verbatim>\<open>PICOJSON_USE_INT64\<close> is defined by jwt-cpp, the locale is \<^verbatim>\<open>"C"\<close> (the program
  never calls \<^verbatim>\<open>setlocale\<close>). The tagged union is a datatype; an object is an ordered map.
  A \<^verbatim>\<open>double\<close> is a sign, a mantissa and an exponent, or an infinity, with the rounding of
  IEEE binary64. A failed \<^verbatim>\<open>PICOJSON_ASSERT\<close> is \<open>Inl\<close> of a \<^verbatim>\<open>runtime_error\<close>.
\<close>

section \<open>IEEE doubles\<close>

datatype double = Finite bool nat int | Infinite bool

fun bit_length :: "nat \<Rightarrow> nat" where
  "bit_length n = (if n = 0 then 0 else Suc (bit_length (n div 2)))"

declare bit_length.simps [simp del]

text \<open>The quotient \<open>a / b\<close> rounded to the nearest integer, ties to even.\<close>

definition div_half_even :: "nat \<Rightarrow> nat \<Rightarrow> nat" where
  "div_half_even a b =
     (let q = a div b; r = a mod b
      in if 2 * r < b then q else if 2 * r > b then Suc q else if even q then q else Suc q)"

text \<open>\<open>num / den\<close> rounded to an integer multiple of \<open>2 ^ e\<close>, in units of \<open>2 ^ e\<close>.\<close>

definition scale_round :: "nat \<Rightarrow> nat \<Rightarrow> int \<Rightarrow> nat" where
  "scale_round num den e =
     (if 0 \<le> e then div_half_even num (den * 2 ^ nat e) else div_half_even (num * 2 ^ nat (- e)) den)"

text \<open>The double nearest to \<open>num / den\<close> (\<open>0 < den\<close>), overflowing to infinity.\<close>

definition round_double :: "bool \<Rightarrow> nat \<Rightarrow> nat \<Rightarrow> double" where
  "round_double neg num den =
     (if num = 0 then Finite neg 0 0
      else
        (let k = int (bit_length num) - int (bit_length den);
             low = (if 0 \<le> k then num < den * 2 ^ nat k else num * 2 ^ nat (- k) < den);
             e = max (- 1074) ((if low then k - 1 else k) - 52);
             m = scale_round num den e;
             (m', e') = (if m = 2 ^ 53 then (2 ^ 52, e + 1) else (m, e))
         in if 971 < e' then Infinite neg else Finite neg m' e'))"

definition double_of_int :: "int \<Rightarrow> double" where
  "double_of_int i = round_double (i < 0) (nat \<bar>i\<bar>) 1"

definition is_finite :: "double \<Rightarrow> bool" where
  "is_finite d = (case d of Finite _ _ _ \<Rightarrow> True | Infinite _ \<Rightarrow> False)"

definition is_zero :: "double \<Rightarrow> bool" where
  "is_zero d = (case d of Finite _ m _ \<Rightarrow> m = 0 | Infinite _ \<Rightarrow> False)"

text \<open>\<^verbatim>\<open>x == y\<close> on doubles: the two zeros are equal.\<close>

definition double_eq :: "double \<Rightarrow> double \<Rightarrow> bool" where
  "double_eq x y \<longleftrightarrow> x = y \<or> (is_zero x \<and> is_zero y)"

text \<open>
  \<^verbatim>\<open>strtod\<close> on text made of digits, signs, points and the letter e (the only characters a
  JSON number token is made of): the value and the unread rest, \<open>None\<close> if nothing converts.
\<close>

definition strtod_scan :: "string \<Rightarrow> (double \<times> string) option" where
  "strtod_scan s =
     (let neg = (s \<noteq> [] \<and> hd s = CHR ''-'');
          u = (if s \<noteq> [] \<and> (hd s = CHR ''-'' \<or> hd s = CHR ''+'') then tl s else s);
          ip = takeWhile is_digit u; r1 = dropWhile is_digit u;
          dot = (r1 \<noteq> [] \<and> hd r1 = CHR ''.'');
          fp = (if dot then takeWhile is_digit (tl r1) else []);
          r2 = (if dot \<and> (ip \<noteq> [] \<or> fp \<noteq> []) then dropWhile is_digit (tl r1) else r1);
          exp_at = (r2 \<noteq> [] \<and> (hd r2 = CHR ''e'' \<or> hd r2 = CHR ''E''));
          es = (if exp_at then tl r2 else []);
          eneg = (es \<noteq> [] \<and> hd es = CHR ''-'');
          eu = (if es \<noteq> [] \<and> (hd es = CHR ''-'' \<or> hd es = CHR ''+'') then tl es else es);
          ed = takeWhile is_digit eu;
          r3 = (if exp_at \<and> ed \<noteq> [] then dropWhile is_digit eu else r2);
          ev = (if exp_at \<and> ed \<noteq> [] then (if eneg then - int (digits_value 0 ed) else int (digits_value 0 ed))
                else 0);
          m = digits_value 0 (ip @ fp);
          x = ev - int (length fp)
      in if ip = [] \<and> fp = [] then None
         else Some (if 0 \<le> x then round_double neg (m * 10 ^ nat x) 1
                    else round_double neg m (10 ^ nat (- x)), r3))"

section \<open>Values\<close>

datatype json =
    JNull
  | JBool bool
  | JNumber double
  | JString string
  | JArray "json list"
  | JObject "(string \<times> json) list"
  | JInt "64 word"

datatype json_kind =
    null_type | boolean_type | number_type | string_type | array_type | object_type | int64_type

fun type_of :: "json \<Rightarrow> json_kind" where
  "type_of JNull = null_type"
| "type_of (JBool _) = boolean_type"
| "type_of (JNumber _) = number_type"
| "type_of (JString _) = string_type"
| "type_of (JArray _) = array_type"
| "type_of (JObject _) = object_type"
| "type_of (JInt _) = int64_type"

text \<open>\<^verbatim>\<open>value(int type, bool)\<close>: the default value of a type.\<close>

fun default_value :: "json_kind \<Rightarrow> json" where
  "default_value null_type = JNull"
| "default_value boolean_type = JBool False"
| "default_value number_type = JNumber (Finite False 0 0)"
| "default_value int64_type = JInt 0"
| "default_value string_type = JString []"
| "default_value array_type = JArray []"
| "default_value object_type = JObject []"

datatype pj_exn = Assert_failed string | Overflow_error

text \<open>\<^verbatim>\<open>value(double)\<close> refuses infinities with \<^verbatim>\<open>overflow_error\<close>.\<close>

definition number_value :: "double \<Rightarrow> pj_exn + json" where
  "number_value n = (if is_finite n then Inr (JNumber n) else Inl Overflow_error)"

text \<open>\<^verbatim>\<open>is<T>()\<close>; a double is asked for by number and int64 alike.\<close>

definition is_null :: "json \<Rightarrow> bool" where "is_null v \<longleftrightarrow> type_of v = null_type"
definition is_bool :: "json \<Rightarrow> bool" where "is_bool v \<longleftrightarrow> type_of v = boolean_type"
definition is_int64 :: "json \<Rightarrow> bool" where "is_int64 v \<longleftrightarrow> type_of v = int64_type"
definition is_string :: "json \<Rightarrow> bool" where "is_string v \<longleftrightarrow> type_of v = string_type"
definition is_array :: "json \<Rightarrow> bool" where "is_array v \<longleftrightarrow> type_of v = array_type"
definition is_object :: "json \<Rightarrow> bool" where "is_object v \<longleftrightarrow> type_of v = object_type"
definition is_double :: "json \<Rightarrow> bool" where
  "is_double v \<longleftrightarrow> type_of v = number_type \<or> type_of v = int64_type"

definition get_mismatch :: "string \<Rightarrow> pj_exn" where
  "get_mismatch ctype =
     Assert_failed (''\"type mismatch! call is<type>() before get<type>()\" && is<'' @ ctype @ ''>()'')"

fun get_bool :: "json \<Rightarrow> pj_exn + bool" where
  "get_bool (JBool b) = Inr b"
| "get_bool _ = Inl (get_mismatch ''bool'')"

fun get_string :: "json \<Rightarrow> pj_exn + string" where
  "get_string (JString s) = Inr s"
| "get_string _ = Inl (get_mismatch ''std::string'')"

fun get_array :: "json \<Rightarrow> pj_exn + json list" where
  "get_array (JArray a) = Inr a"
| "get_array _ = Inl (get_mismatch ''array'')"

fun get_object :: "json \<Rightarrow> pj_exn + (string \<times> json) list" where
  "get_object (JObject m) = Inr m"
| "get_object _ = Inl (get_mismatch ''object'')"

fun get_int64 :: "json \<Rightarrow> pj_exn + 64 word" where
  "get_int64 (JInt i) = Inr i"
| "get_int64 _ = Inl (get_mismatch ''int64_t'')"

text \<open>
  \<^verbatim>\<open>get<double>()\<close> on an integer rewrites the value itself into a number
  (\<^verbatim>\<open>const_cast<value *>(this)->type_ = number_type\<close>), so it also returns the value it leaves.
\<close>

fun get_double :: "json \<Rightarrow> pj_exn + (double \<times> json)" where
  "get_double (JNumber n) = Inr (n, JNumber n)"
| "get_double (JInt i) = Inr (double_of_int (sint i), JNumber (double_of_int (sint i)))"
| "get_double _ = Inl (get_mismatch ''double'')"

fun evaluate_as_boolean :: "json \<Rightarrow> bool" where
  "evaluate_as_boolean JNull = False"
| "evaluate_as_boolean (JBool b) = b"
| "evaluate_as_boolean (JNumber n) = (\<not> is_zero n)"
| "evaluate_as_boolean (JInt i) = (i \<noteq> 0)"
| "evaluate_as_boolean (JString s) = (s \<noteq> [])"
| "evaluate_as_boolean _ = True"

text \<open>\<^verbatim>\<open>get(idx)\<close>, \<^verbatim>\<open>get(key)\<close> and \<^verbatim>\<open>contains\<close>; a missing element reads as null.\<close>

fun get_index :: "json \<Rightarrow> nat \<Rightarrow> pj_exn + json" where
  "get_index (JArray a) idx = Inr (if idx < length a then a ! idx else JNull)"
| "get_index _ _ = Inl (Assert_failed ''is<array>()'')"

fun get_key :: "json \<Rightarrow> string \<Rightarrow> pj_exn + json" where
  "get_key (JObject m) key = Inr (case map_of m key of Some v \<Rightarrow> v | None \<Rightarrow> JNull)"
| "get_key _ _ = Inl (Assert_failed ''is<object>()'')"

fun contains_index :: "json \<Rightarrow> nat \<Rightarrow> pj_exn + bool" where
  "contains_index (JArray a) idx = Inr (idx < length a)"
| "contains_index _ _ = Inl (Assert_failed ''is<array>()'')"

fun contains_key :: "json \<Rightarrow> string \<Rightarrow> pj_exn + bool" where
  "contains_key (JObject m) key = Inr (map_of m key \<noteq> None)"
| "contains_key _ _ = Inl (Assert_failed ''is<object>()'')"

text \<open>\<^verbatim>\<open>operator==\<close>: same kind and equal contents; an integer compares as a double.\<close>

fun json_eq :: "json \<Rightarrow> json \<Rightarrow> bool"
and json_list_eq :: "json list \<Rightarrow> json list \<Rightarrow> bool"
and members_eq :: "(string \<times> json) list \<Rightarrow> (string \<times> json) list \<Rightarrow> bool" where
  "json_eq JNull y = is_null y"
| "json_eq (JBool b) y = (case y of JBool c \<Rightarrow> b = c | _ \<Rightarrow> False)"
| "json_eq (JNumber m) y =
     (case y of JNumber n \<Rightarrow> double_eq m n | JInt j \<Rightarrow> double_eq m (double_of_int (sint j)) | _ \<Rightarrow> False)"
| "json_eq (JInt i) y =
     (case y of JNumber n \<Rightarrow> double_eq (double_of_int (sint i)) n
      | JInt j \<Rightarrow> double_eq (double_of_int (sint i)) (double_of_int (sint j)) | _ \<Rightarrow> False)"
| "json_eq (JString s) y = (case y of JString t \<Rightarrow> s = t | _ \<Rightarrow> False)"
| "json_eq (JArray xs) y = (case y of JArray ys \<Rightarrow> json_list_eq xs ys | _ \<Rightarrow> False)"
| "json_eq (JObject m) y = (case y of JObject n \<Rightarrow> members_eq m n | _ \<Rightarrow> False)"
| "json_list_eq [] ys = (ys = [])"
| "json_list_eq (x # xs) ys = (case ys of [] \<Rightarrow> False | y # ys' \<Rightarrow> json_eq x y \<and> json_list_eq xs ys')"
| "members_eq [] ys = (ys = [])"
| "members_eq ((k, x) # xs) ys =
     (case ys of [] \<Rightarrow> False | (k', y) # ys' \<Rightarrow> k = k' \<and> json_eq x y \<and> members_eq xs ys')"

section \<open>Printing\<close>

text \<open>\<^verbatim>\<open>printf("%.f")\<close> of an integral double and \<^verbatim>\<open>printf("%.17g")\<close> of any other.\<close>

definition fraction :: "nat \<Rightarrow> int \<Rightarrow> nat \<times> nat" where
  "fraction m e = (if 0 \<le> e then (m * 2 ^ nat e, 1) else (m, 2 ^ nat (- e)))"

fun neg_exponent :: "nat \<Rightarrow> nat \<Rightarrow> nat \<Rightarrow> nat" where
  "neg_exponent 0 num den = 0"
| "neg_exponent (Suc k) num den = (if den \<le> num then 0 else Suc (neg_exponent k (10 * num) den))"

definition decimal_exponent :: "nat \<Rightarrow> nat \<Rightarrow> int" where
  "decimal_exponent num den =
     (if den \<le> num then int (length (to_string (num div den))) - 1
      else - int (neg_exponent (Suc (bit_length den)) num den))"

definition strip_zeros :: "string \<Rightarrow> string" where
  "strip_zeros s = rev (dropWhile (\<lambda>c. c = CHR ''0'') (rev s))"

definition with_point :: "string \<Rightarrow> string \<Rightarrow> string" where
  "with_point ip fp = (if strip_zeros fp = [] then ip else ip @ ''.'' @ strip_zeros fp)"

definition format_17g :: "nat \<Rightarrow> nat \<Rightarrow> string" where
  "format_17g num den =
     (let x0 = decimal_exponent num den;
          d0 = (if x0 \<le> 16 then div_half_even (num * 10 ^ nat (16 - x0)) den
                else div_half_even num (den * 10 ^ nat (x0 - 16)));
          (d, x) = (if d0 = 10 ^ 17 then (10 ^ 16, x0 + 1) else (d0, x0));
          ds = to_string d
      in if x < - 4 \<or> 17 \<le> x then
           with_point (take 1 ds) (drop 1 ds) @ ''e'' @ (if x < 0 then ''-'' else ''+'')
           @ (if \<bar>x\<bar> < 10 then ''0'' else []) @ to_string (nat \<bar>x\<bar>)
         else if 0 \<le> x then with_point (take (nat x + 1) ds) (drop (nat x + 1) ds)
         else with_point ''0'' (replicate (nat (- x) - 1) (CHR ''0'') @ ds))"

definition format_double :: "double \<Rightarrow> string" where
  "format_double d =
     (case d of
        Infinite neg \<Rightarrow> (if neg then ''-inf'' else ''inf'')
      | Finite neg m e \<Rightarrow>
          (let (num, den) = fraction m e
           in (if neg then ''-'' else []) @
              (if num < den * 2 ^ 53 \<and> den dvd num then to_string (num div den)
               else format_17g num den)))"

fun to_str :: "json \<Rightarrow> string" where
  "to_str JNull = ''null''"
| "to_str (JBool b) = (if b then ''true'' else ''false'')"
| "to_str (JInt i) = int_to_string (sint i)"
| "to_str (JNumber n) = format_double n"
| "to_str (JString s) = s"
| "to_str (JArray _) = ''array''"
| "to_str (JObject _) = ''object''"

abbreviation BS :: char where "BS \<equiv> CHR 0x08"
abbreviation FF :: char where "FF \<equiv> CHR 0x0C"
abbreviation DEL :: char where "DEL \<equiv> CHR 0x7F"

definition hex_lower :: "nat \<Rightarrow> char" where
  "hex_lower d = (if d < 10 then char_of (48 + d) else char_of (87 + d))"

definition serialize_char :: "char \<Rightarrow> string" where
  "serialize_char c =
     (if c = DQ then [BSL, DQ]
      else if c = BSL then [BSL, BSL]
      else if c = CHR ''/'' then [BSL, CHR ''/'']
      else if c = BS then [BSL, CHR ''b'']
      else if c = FF then [BSL, CHR ''f'']
      else if c = LF then [BSL, CHR ''n'']
      else if c = CR then [BSL, CHR ''r'']
      else if c = TAB then [BSL, CHR ''t'']
      else if byte c < 0x20 \<or> c = DEL then
        [BSL, CHR ''u'', CHR ''0'', CHR ''0'', hex_lower (byte c div 16), hex_lower (byte c mod 16)]
      else [c])"

definition serialize_str :: "string \<Rightarrow> string" where
  "serialize_str s = DQ # concat (map serialize_char s) @ [DQ]"

text \<open>
  \<^verbatim>\<open>_serialize(oi, indent)\<close>: \<open>None\<close> is the compact form (\<^verbatim>\<open>indent == -1\<close>), \<open>Some k\<close> the
  pretty one at nesting \<open>k\<close>.
\<close>

definition indent_str :: "nat option \<Rightarrow> string" where
  "indent_str ind = (case ind of None \<Rightarrow> [] | Some k \<Rightarrow> LF # replicate (k * 2) (CHR '' ''))"

definition newline_at_top :: "nat option \<Rightarrow> string" where
  "newline_at_top ind = (if ind = Some 0 then [LF] else [])"

fun serialize_at :: "nat option \<Rightarrow> json \<Rightarrow> string"
and serialize_items :: "nat option \<Rightarrow> bool \<Rightarrow> json list \<Rightarrow> string"
and serialize_members :: "nat option \<Rightarrow> bool \<Rightarrow> (string \<times> json) list \<Rightarrow> string" where
  "serialize_at ind (JString s) = serialize_str s @ newline_at_top ind"
| "serialize_at ind (JArray a) =
     ''['' @ serialize_items (map_option Suc ind) True a
     @ (if a = [] then [] else indent_str ind) @ '']'' @ newline_at_top ind"
| "serialize_at ind (JObject m) =
     ''{'' @ serialize_members (map_option Suc ind) True m
     @ (if m = [] then [] else indent_str ind) @ ''}'' @ newline_at_top ind"
| "serialize_at ind v = to_str v @ newline_at_top ind"
| "serialize_items ind first [] = []"
| "serialize_items ind first (v # vs) =
     (if first then [] else '','') @ indent_str ind @ serialize_at ind v
     @ serialize_items ind False vs"
| "serialize_members ind first [] = []"
| "serialize_members ind first ((k, v) # m) =
     (if first then [] else '','') @ indent_str ind @ serialize_str k @ '':''
     @ (if ind = None then [] else '' '') @ serialize_at ind v
     @ serialize_members ind False m"

definition serialize :: "bool \<Rightarrow> json \<Rightarrow> string" where
  "serialize prettify v = serialize_at (if prettify then Some 0 else None) v"

end
