(* ===== verification/Picojson_Memory.thy ===== *)
theory Picojson_Memory
  imports Picojson_Value
begin

text \<open>
  The storage of a JSON value in \<^verbatim>\<open>picojson.h\<close>: \<^verbatim>\<open>value\<close> is a type tag and a union that for strings,
  arrays and objects holds a pointer it owns. The heap maps addresses to cells; deleting an address
  that holds nothing, or reading one, is undefined behaviour and gives \<open>None\<close>. Copying and clearing
  recurse through the cells, so they take fuel; as much as a value has levels is enough. The
  code allocates a container before it copies the elements into it, the model after; no operation
  looks at the numbers of addresses.
\<close>

section \<open>Cells\<close>

text \<open>The tag with the union field it selects.\<close>

datatype slot =
    S_null
  | S_boolean bool
  | S_number double
  | S_int64 "64 word"
  | S_string nat
  | S_array nat
  | S_object nat

datatype cell =
    Cell_string string
  | Cell_array "slot list"
  | Cell_object "(string \<times> slot) list"

text \<open>What is allocated, and the next address the allocator gives.\<close>

record heap =
  cells :: "nat \<rightharpoonup> cell"
  next_addr :: nat

definition heap_ok :: "heap \<Rightarrow> bool" where
  "heap_ok h \<longleftrightarrow> (\<forall>a \<ge> next_addr h. cells h a = None)"

definition new_cell :: "heap \<Rightarrow> cell \<Rightarrow> heap \<times> nat" where
  "new_cell h c = (h\<lparr> cells := (cells h)(next_addr h \<mapsto> c), next_addr := Suc (next_addr h) \<rparr>, next_addr h)"

definition delete_cell :: "nat \<Rightarrow> heap \<Rightarrow> heap option" where
  "delete_cell a h = (if cells h a = None then None else Some (h\<lparr> cells := (cells h)(a := None) \<rparr>))"

section \<open>Clearing and copying\<close>

fun each_slot :: "(heap \<Rightarrow> slot \<Rightarrow> heap option) \<Rightarrow> heap \<Rightarrow> slot list \<Rightarrow> heap option" where
  "each_slot f h [] = Some h"
| "each_slot f h (v # vs) = Option.bind (f h v) (\<lambda>h1. each_slot f h1 vs)"

fun map_slots :: "(heap \<Rightarrow> slot \<Rightarrow> (heap \<times> slot) option) \<Rightarrow> heap \<Rightarrow> slot list \<Rightarrow> (heap \<times> slot list) option" where
  "map_slots f h [] = Some (h, [])"
| "map_slots f h (v # vs) =
     Option.bind (f h v) (\<lambda>(h1, v1). Option.bind (map_slots f h1 vs) (\<lambda>(h2, vs2). Some (h2, v1 # vs2)))"

text \<open>\<^verbatim>\<open>clear()\<close>: deleting a container runs the destructors of what it holds before it is freed.\<close>

fun clear :: "nat \<Rightarrow> heap \<Rightarrow> slot \<Rightarrow> heap option" where
  "clear n h (S_string a) = delete_cell a h"
| "clear (Suc n) h (S_array a) =
     (case cells h a of
        Some (Cell_array vs) \<Rightarrow> Option.bind (each_slot (clear n) h vs) (delete_cell a)
      | _ \<Rightarrow> None)"
| "clear (Suc n) h (S_object a) =
     (case cells h a of
        Some (Cell_object kvs) \<Rightarrow> Option.bind (each_slot (clear n) h (map snd kvs)) (delete_cell a)
      | _ \<Rightarrow> None)"
| "clear 0 h (S_array a) = None"
| "clear 0 h (S_object a) = None"
| "clear n h S_null = Some h"
| "clear n h (S_boolean b) = Some h"
| "clear n h (S_number d) = Some h"
| "clear n h (S_int64 i) = Some h"

text \<open>\<^verbatim>\<open>value(const value &x)\<close>: a new cell whose container copies its elements one by one.\<close>

fun copy_value :: "nat \<Rightarrow> heap \<Rightarrow> slot \<Rightarrow> (heap \<times> slot) option" where
  "copy_value n h (S_string a) =
     (case cells h a of
        Some (Cell_string s) \<Rightarrow> (let (h1, b) = new_cell h (Cell_string s) in Some (h1, S_string b))
      | _ \<Rightarrow> None)"
| "copy_value (Suc n) h (S_array a) =
     (case cells h a of
        Some (Cell_array vs) \<Rightarrow>
          Option.bind (map_slots (copy_value n) h vs)
            (\<lambda>(h1, ws). let (h2, b) = new_cell h1 (Cell_array ws) in Some (h2, S_array b))
      | _ \<Rightarrow> None)"
| "copy_value (Suc n) h (S_object a) =
     (case cells h a of
        Some (Cell_object kvs) \<Rightarrow>
          Option.bind (map_slots (copy_value n) h (map snd kvs))
            (\<lambda>(h1, ws). let (h2, b) = new_cell h1 (Cell_object (zip (map fst kvs) ws)) in Some (h2, S_object b))
      | _ \<Rightarrow> None)"
| "copy_value 0 h (S_array a) = None"
| "copy_value 0 h (S_object a) = None"
| "copy_value n h S_null = Some (h, S_null)"
| "copy_value n h (S_boolean b) = Some (h, S_boolean b)"
| "copy_value n h (S_number d) = Some (h, S_number d)"
| "copy_value n h (S_int64 i) = Some (h, S_int64 i)"

text \<open>\<^verbatim>\<open>value(int type, bool)\<close>: the default of each type.\<close>

fun init_value :: "heap \<Rightarrow> json_kind \<Rightarrow> heap \<times> slot" where
  "init_value h null_type = (h, S_null)"
| "init_value h boolean_type = (h, S_boolean False)"
| "init_value h number_type = (h, S_number (Finite False 0 0))"
| "init_value h int64_type = (h, S_int64 0)"
| "init_value h string_type = (let (h1, a) = new_cell h (Cell_string []) in (h1, S_string a))"
| "init_value h array_type = (let (h1, a) = new_cell h (Cell_array []) in (h1, S_array a))"
| "init_value h object_type = (let (h1, a) = new_cell h (Cell_object []) in (h1, S_object a))"

section \<open>Assigning, moving and setting\<close>

text \<open>\<^verbatim>\<open>operator=(const value &x)\<close>: copy, swap, and the destructor of the temporary frees the old
  contents. \<open>same\<close> is \<^verbatim>\<open>this == &x\<close>. The result is the heap and the new contents of \<^verbatim>\<open>*this\<close>.\<close>

definition assign_value :: "nat \<Rightarrow> bool \<Rightarrow> heap \<Rightarrow> slot \<Rightarrow> slot \<Rightarrow> (heap \<times> slot) option" where
  "assign_value n same h this x =
     (if same then Some (h, this)
      else Option.bind (copy_value n h x)
        (\<lambda>(h1, t). Option.bind (clear n h1 this) (\<lambda>h2. Some (h2, t))))"

text \<open>\<^verbatim>\<open>swap\<close>, the move constructor (a null value swapped with its source) and move assignment: new
  contents of \<^verbatim>\<open>*this\<close> and of the source.\<close>

definition swap_values :: "slot \<Rightarrow> slot \<Rightarrow> slot \<times> slot" where
  "swap_values this x = (x, this)"

definition move_construct :: "slot \<Rightarrow> slot \<times> slot" where
  "move_construct x = swap_values S_null x"

definition move_assign :: "slot \<Rightarrow> slot \<Rightarrow> slot \<times> slot" where
  "move_assign this x = swap_values this x"

text \<open>\<^verbatim>\<open>value(const std::string &)\<close>, \<^verbatim>\<open>value(const array &)\<close> and \<^verbatim>\<open>value(const object &)\<close>: a new cell
  with a copy of the container at the address the reference denotes.\<close>

definition construct_string :: "heap \<Rightarrow> nat \<Rightarrow> (heap \<times> slot) option" where
  "construct_string h ref =
     (case cells h ref of
        Some (Cell_string s) \<Rightarrow> (let (h1, a) = new_cell h (Cell_string s) in Some (h1, S_string a))
      | _ \<Rightarrow> None)"

definition construct_array :: "nat \<Rightarrow> heap \<Rightarrow> nat \<Rightarrow> (heap \<times> slot) option" where
  "construct_array n h ref = copy_value (Suc n) h (S_array ref)"

definition construct_object :: "nat \<Rightarrow> heap \<Rightarrow> nat \<Rightarrow> (heap \<times> slot) option" where
  "construct_object n h ref = copy_value (Suc n) h (S_object ref)"

text \<open>\<^verbatim>\<open>set<bool>\<close>, \<^verbatim>\<open>set<double>\<close> and \<^verbatim>\<open>set<int64_t>\<close>: nothing is read after \<open>clear\<close>.\<close>

definition set_scalar :: "nat \<Rightarrow> heap \<Rightarrow> slot \<Rightarrow> slot \<Rightarrow> (heap \<times> slot) option" where
  "set_scalar n h this new = Option.bind (clear n h this) (\<lambda>h1. Some (h1, new))"

text \<open>\<^verbatim>\<open>set<std::string>\<close>, \<^verbatim>\<open>set<array>\<close> and \<^verbatim>\<open>set<object>\<close>: the parameter is a reference, read after \<open>clear\<close>.\<close>

definition set_string :: "nat \<Rightarrow> heap \<Rightarrow> slot \<Rightarrow> nat \<Rightarrow> (heap \<times> slot) option" where
  "set_string n h this ref = Option.bind (clear n h this) (\<lambda>h1. construct_string h1 ref)"

definition set_array :: "nat \<Rightarrow> heap \<Rightarrow> slot \<Rightarrow> nat \<Rightarrow> (heap \<times> slot) option" where
  "set_array n h this ref = Option.bind (clear n h this) (\<lambda>h1. construct_array n h1 ref)"

definition set_object :: "nat \<Rightarrow> heap \<Rightarrow> slot \<Rightarrow> nat \<Rightarrow> (heap \<times> slot) option" where
  "set_object n h this ref = Option.bind (clear n h this) (\<lambda>h1. construct_object n h1 ref)"

section \<open>What a slot stands for\<close>

text \<open>\<open>rep c j v as\<close>: the slot \<open>v\<close> represents \<open>j\<close> in the cells \<open>c\<close> and owns exactly the addresses \<open>as\<close>,
  no two parts sharing one.\<close>

inductive rep :: "(nat \<rightharpoonup> cell) \<Rightarrow> json \<Rightarrow> slot \<Rightarrow> nat list \<Rightarrow> bool"
  and reps :: "(nat \<rightharpoonup> cell) \<Rightarrow> json list \<Rightarrow> slot list \<Rightarrow> nat list \<Rightarrow> bool" for c where
  rep_null: "rep c JNull S_null []"
| rep_bool: "rep c (JBool b) (S_boolean b) []"
| rep_number: "rep c (JNumber d) (S_number d) []"
| rep_int: "rep c (JInt i) (S_int64 i) []"
| rep_string: "c a = Some (Cell_string s) \<Longrightarrow> rep c (JString s) (S_string a) [a]"
| rep_array: "c a = Some (Cell_array vs) \<Longrightarrow> reps c js vs as \<Longrightarrow> a \<notin> set as \<Longrightarrow>
    rep c (JArray js) (S_array a) (a # as)"
| rep_object: "c a = Some (Cell_object kvs) \<Longrightarrow> map fst kvs = map fst ms \<Longrightarrow>
    reps c (map snd ms) (map snd kvs) as \<Longrightarrow> a \<notin> set as \<Longrightarrow> rep c (JObject ms) (S_object a) (a # as)"
| reps_nil: "reps c [] [] []"
| reps_cons: "rep c j v as \<Longrightarrow> reps c js vs bs \<Longrightarrow> set as \<inter> set bs = {} \<Longrightarrow> reps c (j # js) (v # vs) (as @ bs)"

inductive_cases rep_stringE: "rep c j (S_string a) as"
inductive_cases rep_arrayE: "rep c j (S_array a) as"

text \<open>The levels of a value: the recursion depth of copying and clearing it.\<close>

fun levels :: "json \<Rightarrow> nat" where
  "levels (JArray js) = Suc (fold max (map levels js) 0)"
| "levels (JObject ms) = Suc (fold max (map (\<lambda>m. levels (snd m)) ms) 0)"
| "levels _ = 0"

lemma fold_max_le: "fold max xs k \<le> n \<longleftrightarrow> k \<le> n \<and> (\<forall>x \<in> set xs. x \<le> (n :: nat))"
  by (induction xs arbitrary: k) auto

definition levels_within :: "nat \<Rightarrow> json list \<Rightarrow> bool" where
  "levels_within n js \<longleftrightarrow> (\<forall>j \<in> set js. levels j \<le> n)"

lemma levels_array: "levels (JArray js) \<le> n \<longleftrightarrow> (\<exists>m. n = Suc m \<and> levels_within m js)"
  by (cases n) (auto simp: fold_max_le levels_within_def)

lemma levels_object: "levels (JObject ms) \<le> n \<longleftrightarrow> (\<exists>m. n = Suc m \<and> levels_within m (map snd ms))"
  by (cases n) (auto simp: fold_max_le levels_within_def)

lemma rep_allocated: "rep c j v as \<Longrightarrow> \<forall>a \<in> set as. c a \<noteq> None"
  and reps_allocated: "reps c js vs as \<Longrightarrow> \<forall>a \<in> set as. c a \<noteq> None"
  by (induction rule: rep_reps.inducts) auto

text \<open>What a slot stands for depends on the cells it owns only.\<close>

lemma rep_frame: "rep c j v as \<Longrightarrow> \<forall>a \<in> set as. d a = c a \<Longrightarrow> rep d j v as"
  and reps_frame: "reps c js vs as \<Longrightarrow> \<forall>a \<in> set as. d a = c a \<Longrightarrow> reps d js vs as"
  by (induction rule: rep_reps.inducts) (auto intro: rep_reps.intros)

section \<open>Clearing frees exactly what is owned\<close>

definition without :: "nat list \<Rightarrow> heap \<Rightarrow> heap" where
  "without as h = h\<lparr> cells := (\<lambda>a. if a \<in> set as then None else cells h a) \<rparr>"

lemma without_simps [simp]:
  "cells (without as h) a = (if a \<in> set as then None else cells h a)" "next_addr (without as h) = next_addr h"
  "without [] h = h"
  by (simp_all add: without_def)

lemma without_without [simp]: "without as (without bs h) = without (bs @ as) h"
  by (cases h) (auto simp: without_def fun_eq_iff)

lemma delete_without: "a \<notin> set as \<Longrightarrow> cells h a \<noteq> None \<Longrightarrow> delete_cell a (without as h) = Some (without (a # as) h)"
  by (cases h) (auto simp: delete_cell_def without_def fun_eq_iff)

declare levels.simps(1,2) [simp del]

lemma clear_frees: "rep c j v as \<Longrightarrow> \<forall>a \<in> set as. cells h a = c a \<Longrightarrow> levels j \<le> n \<Longrightarrow> clear n h v = Some (without as h)"
  and clear_all_frees: "reps c js vs as \<Longrightarrow> \<forall>a \<in> set as. cells h a = c a \<Longrightarrow> levels_within n js \<Longrightarrow>
    each_slot (clear n) h vs = Some (without as h)"
proof (induction arbitrary: h n and h n rule: rep_reps.inducts)
  case (rep_string a s)
  then show ?case using delete_without[of a "[]" h] by simp
next
  case (rep_array a vs js as)
  from rep_array.prems(2) obtain m where n: "n = Suc m" "levels_within m js" by (auto simp: levels_array)
  have "each_slot (clear m) h vs = Some (without as h)" using rep_array n by simp
  then show ?case using rep_array n delete_without[of a as h] by simp
next
  case (rep_object a kvs ms as)
  from rep_object.prems(2) obtain m where n: "n = Suc m" "levels_within m (map snd ms)" by (auto simp: levels_object)
  have "each_slot (clear m) h (map snd kvs) = Some (without as h)" using rep_object n by simp
  then show ?case using rep_object n delete_without[of a as h] by simp
next
  case (reps_cons j v as js vs bs)
  have "clear n h v = Some (without as h)" using reps_cons by (simp add: levels_within_def)
  moreover have "each_slot (clear n) (without as h) vs = Some (without bs (without as h))"
    by (rule reps_cons.IH(4)) (use reps_cons.prems reps_cons.hyps in \<open>auto simp: levels_within_def\<close>)
  ultimately show ?case by simp
qed simp_all

section \<open>A copy is deep\<close>

text \<open>What an operation that only allocates does to the heap: every allocated cell keeps its contents,
  and the cells it adds are those of \<open>as\<close>, which did not exist.\<close>

definition adds :: "nat list \<Rightarrow> heap \<Rightarrow> heap \<Rightarrow> bool" where
  "adds as h h1 \<longleftrightarrow> heap_ok h1 \<and> next_addr h \<le> next_addr h1 \<and>
     (\<forall>a. cells h a \<noteq> None \<longrightarrow> cells h1 a = cells h a) \<and>
     (\<forall>a. cells h1 a \<noteq> None \<longleftrightarrow> cells h a \<noteq> None \<or> a \<in> set as) \<and>
     (\<forall>a \<in> set as. next_addr h \<le> a \<and> a < next_addr h1)"

lemma adds_nothing: "heap_ok h \<Longrightarrow> adds [] h h"
  by (simp add: adds_def)

lemma adds_trans: "adds as h h1 \<Longrightarrow> adds bs h1 h2 \<Longrightarrow> adds (as @ bs) h h2"
  by (fastforce simp: adds_def)

lemma adds_new: "adds as h h1 \<Longrightarrow> new_cell h1 x = (h2, a) \<Longrightarrow> adds (a # as) h h2"
  by (auto simp: adds_def new_cell_def heap_ok_def split: if_splits)

lemma adds_disjoint: "adds as h h1 \<Longrightarrow> adds bs h1 h2 \<Longrightarrow> set as \<inter> set bs = {}"
  by (fastforce simp: adds_def)

lemma adds_without:
  assumes "adds as h h1" and "heap_ok h"
  shows "cells (without as h1) = cells h"
proof (rule ext)
  fix a
  have "cells h1 a \<noteq> None \<longleftrightarrow> cells h a \<noteq> None \<or> a \<in> set as" and "a \<in> set as \<Longrightarrow> cells h a = None"
    and "cells h a \<noteq> None \<Longrightarrow> cells h1 a = cells h a" using assms by (auto simp: adds_def heap_ok_def)
  then show "cells (without as h1) a = cells h a" by (cases "cells h a") auto
qed

lemma adds_keeps: "adds bs h h1 \<Longrightarrow> rep (cells h) j v as \<Longrightarrow> rep (cells h1) j v as"
  by (frule rep_allocated, erule rep_frame) (auto simp: adds_def)

lemma adds_keeps_all: "adds bs h h1 \<Longrightarrow> reps (cells h) js vs as \<Longrightarrow> reps (cells h1) js vs as"
  by (frule reps_allocated, erule reps_frame) (auto simp: adds_def)

lemma reps_length: "reps c js vs as \<Longrightarrow> length vs = length js"
  by (induction js arbitrary: vs as) (auto elim: reps.cases)

lemma rep_fresh:
  assumes "adds as h h1" and "new_cell h1 x = (h2, a)"
  shows "cells h2 a = Some x" and "a \<notin> set as" and "heap_ok h1 \<Longrightarrow> adds [a] h1 h2"
  using assms adds_new[OF adds_nothing assms(2)] by (auto simp: new_cell_def adds_def)

lemma adds_heap_ok: "adds as h h1 \<Longrightarrow> heap_ok h1"
  by (simp add: adds_def)

lemma adds_same: "adds bs h h1 \<Longrightarrow> cells h a \<noteq> None \<Longrightarrow> cells h1 a = cells h a"
  by (simp add: adds_def)

lemma rep_new_array:
  assumes "reps (cells h1) js ws bs" and "adds bs h h1" and "new_cell h1 (Cell_array ws) = (h2, a)"
  shows "rep (cells h2) (JArray js) (S_array a) (a # bs)" and "adds (a # bs) h h2"
  using assms rep_fresh[OF assms(2,3)] adds_keeps_all[of "[a]" h1 h2] adds_new[OF assms(2,3)]
  by (auto intro!: rep_array dest: adds_heap_ok)

lemma rep_new_object:
  assumes "reps (cells h1) (map snd ms) ws bs" and "adds bs h h1"
    and "new_cell h1 (Cell_object (zip (map fst ms) ws)) = (h2, a)"
  shows "rep (cells h2) (JObject ms) (S_object a) (a # bs)" and "adds (a # bs) h h2"
  using assms rep_fresh[OF assms(2,3)] adds_keeps_all[of "[a]" h1 h2] adds_new[OF assms(2,3)] reps_length[OF assms(1)]
  by (auto intro!: rep_object dest: adds_heap_ok)

lemma copy_represents: "rep c j v as \<Longrightarrow> \<forall>a \<in> set as. cells h a = c a \<Longrightarrow> levels j \<le> n \<Longrightarrow> heap_ok h \<Longrightarrow>
    \<exists>h1 w bs. copy_value n h v = Some (h1, w) \<and> rep (cells h1) j w bs \<and> adds bs h h1"
  and copies_represent: "reps c js vs as \<Longrightarrow> \<forall>a \<in> set as. cells h a = c a \<Longrightarrow> levels_within n js \<Longrightarrow> heap_ok h \<Longrightarrow>
    \<exists>h1 ws bs. map_slots (copy_value n) h vs = Some (h1, ws) \<and> reps (cells h1) js ws bs \<and> adds bs h h1"
proof (induction arbitrary: h n and h n rule: rep_reps.inducts)
  case (rep_string a s)
  obtain h1 b where new: "new_cell h (Cell_string s) = (h1, b)" by (cases "new_cell h (Cell_string s)")
  have "adds [b] h h1" using adds_new[OF adds_nothing new] rep_string by simp
  moreover have "rep (cells h1) (JString s) (S_string b) [b]" using new by (auto simp: new_cell_def intro: rep_reps.intros)
  ultimately show ?case using rep_string new by (auto simp: exI)
next
  case (rep_array a vs js as)
  from rep_array.prems(2) obtain m where n: "n = Suc m" "levels_within m js" by (auto simp: levels_array)
  obtain h1 ws bs where copy: "map_slots (copy_value m) h vs = Some (h1, ws)"
    and r: "reps (cells h1) js ws bs" "adds bs h h1" using rep_array.IH(3)[of h m] rep_array.prems n by auto
  obtain h2 b where new: "new_cell h1 (Cell_array ws) = (h2, b)" by (cases "new_cell h1 (Cell_array ws)")
  show ?case using rep_new_array[OF r new] rep_array n copy new by (auto simp: exI)
next
  case (rep_object a kvs ms as)
  from rep_object.prems(2) obtain m where n: "n = Suc m" "levels_within m (map snd ms)" by (auto simp: levels_object)
  obtain h1 ws bs where copy: "map_slots (copy_value m) h (map snd kvs) = Some (h1, ws)"
    and r: "reps (cells h1) (map snd ms) ws bs" "adds bs h h1" using rep_object.IH(3)[of h m] rep_object.prems n by auto
  obtain h2 b where new: "new_cell h1 (Cell_object (zip (map fst ms) ws)) = (h2, b)"
    by (cases "new_cell h1 (Cell_object (zip (map fst ms) ws))")
  show ?case using rep_new_object[OF r new] rep_object n copy new by (auto simp: exI)
next
  case (reps_cons j v as js vs bs)
  obtain h1 w cs where one: "copy_value n h v = Some (h1, w)" "rep (cells h1) j w cs" "adds cs h h1"
    using reps_cons.IH(2)[of h n] reps_cons.prems by (auto simp: levels_within_def)
  have "\<forall>a \<in> set bs. cells h1 a = c a"
    using reps_allocated[OF reps_cons.IH(3)] reps_cons.prems(1) adds_same[OF one(3)] by auto
  then obtain h2 ws ds where rest: "map_slots (copy_value n) h1 vs = Some (h2, ws)" "reps (cells h2) js ws ds" "adds ds h1 h2"
    using reps_cons.IH(4)[of h1 n] reps_cons.prems adds_heap_ok[OF one(3)] by (auto simp: levels_within_def)
  have "reps (cells h2) (j # js) (w # ws) (cs @ ds)"
    using adds_keeps[OF rest(3) one(2)] rest(2) adds_disjoint[OF one(3) rest(3)] by (rule rep_reps.reps_cons)
  then show ?case using one rest adds_trans[OF one(3) rest(3)] by (auto simp: exI)
qed (auto intro: rep_reps.intros adds_nothing)

section \<open>What the operations promise\<close>

lemma construct_after_free: "a \<in> set as \<Longrightarrow>
    construct_string (without as h) a = None \<and> construct_array n (without as h) a = None \<and>
    construct_object n (without as h) a = None"
  by (simp add: construct_string_def construct_array_def construct_object_def)

text \<open>The life of a value: constructed by default, copied, both destroyed, and nothing is left.\<close>

lemma rep_empty:
  "c a = Some (Cell_array []) \<Longrightarrow> rep c (JArray []) (S_array a) [a]"
  "c a = Some (Cell_object []) \<Longrightarrow> rep c (JObject []) (S_object a) [a]"
  using rep_array[of c a "[]" "[]" "[]"] rep_object[of c a "[]" "[]" "[]"] reps_nil[of c] by auto

lemma init_represents: "heap_ok h \<Longrightarrow> init_value h t = (h1, v) \<Longrightarrow>
    rep (cells h1) (default_value t) v [next_addr h ..< next_addr h1] \<and> adds [next_addr h ..< next_addr h1] h h1"
  using adds_new[OF adds_nothing, of h]
  by (cases t) (auto simp: new_cell_def intro: rep_reps.intros adds_nothing intro!: rep_string rep_empty)

lemma default_then_destroyed:
  assumes "heap_ok h" and "init_value h t = (h1, v)"
  shows "\<exists>h2. clear 1 h1 v = Some h2 \<and> cells h2 = cells h"
proof -
  have "levels (default_value t) \<le> 1" by (cases t) (simp_all add: levels_array levels_object levels_within_def)
  then have "clear 1 h1 v = Some (without [next_addr h ..< next_addr h1] h1)"
    using init_represents[OF assms] by (intro clear_frees) auto
  moreover have "cells (without [next_addr h ..< next_addr h1] h1) = cells h"
    using init_represents[OF assms] assms(1) by (blast intro: adds_without)
  ultimately show ?thesis by simp
qed

text \<open>A heap with the array \<open>["a"]\<close>, used to apply the theorems below.\<close>

definition sample_heap :: heap where
  "sample_heap = \<lparr> cells = [0 \<mapsto> Cell_array [S_string 1], 1 \<mapsto> Cell_string ''a''], next_addr = 2 \<rparr>"

lemma sample_rep: "rep (cells sample_heap) (JArray [JString ''a'']) (S_array 0) [0, 1]"
  and sample_part: "rep (cells sample_heap) (JString ''a'') (S_string 1) [1]"
  and sample_ok: "heap_ok sample_heap"
  and sample_levels: "levels (JArray [JString ''a'']) \<le> 1"
proof -
  show part: "rep (cells sample_heap) (JString ''a'') (S_string 1) [1]" by (rule rep_string) (simp add: sample_heap_def)
  show "rep (cells sample_heap) (JArray [JString ''a'']) (S_array 0) [0, 1]"
    using rep_array[OF _ reps_cons[OF part reps_nil]] by (simp add: sample_heap_def)
  show "heap_ok sample_heap" by (auto simp: heap_ok_def sample_heap_def)
  show "levels (JArray [JString ''a'']) \<le> 1" by (simp add: levels_array levels_within_def)
qed

text \<open>C37: copying a value makes a value that stands for the same JSON and shares no cell with the
  original or with anything else allocated; the original is unchanged, and destroying it afterwards
  leaves the copy intact.\<close>

theorem copy_is_deep:
  assumes "rep (cells h) j v as" and "heap_ok h" and "levels j \<le> n"
  shows "\<exists>h1 w bs h2. copy_value n h v = Some (h1, w) \<and> rep (cells h1) j v as \<and> rep (cells h1) j w bs \<and>
    (\<forall>a \<in> set bs. cells h a = None) \<and> clear n h1 v = Some h2 \<and> rep (cells h2) j w bs"
proof -
  obtain h1 w bs where c: "copy_value n h v = Some (h1, w)" "rep (cells h1) j w bs" "adds bs h h1"
    using copy_represents[OF assms(1) _ assms(3,2)] by auto
  have fresh: "\<forall>a \<in> set bs. cells h a = None" using c(3) assms(2) by (auto simp: adds_def heap_ok_def)
  have v: "rep (cells h1) j v as" by (rule adds_keeps[OF c(3) assms(1)])
  have "rep (cells (without as h1)) j w bs"
    using c(2) fresh rep_allocated[OF assms(1)] by (intro rep_frame[OF c(2)]) auto
  moreover have "clear n h1 v = Some (without as h1)" by (rule clear_frees[OF v _ assms(3)]) simp
  ultimately show ?thesis using c v fresh by (auto simp: exI)
qed

theorem copy_is_deep_witness: "\<exists>h1 w bs h2. copy_value 1 sample_heap (S_array 0) = Some (h1, w) \<and>
    rep (cells h1) (JArray [JString ''a'']) (S_array 0) [0, 1] \<and> rep (cells h1) (JArray [JString ''a'']) w bs \<and>
    (\<forall>a \<in> set bs. cells sample_heap a = None) \<and> clear 1 h1 (S_array 0) = Some h2 \<and> rep (cells h2) (JArray [JString ''a'']) w bs"
  by (rule copy_is_deep[OF sample_rep sample_ok sample_levels])

text \<open>what a copy allocates is exactly what its destructor frees: afterwards the allocated cells are
  those of before, none leaked and none freed twice.\<close>

theorem construct_then_destroy:
  assumes "heap_ok h" and "rep (cells h) j v as" and "levels j \<le> n" and "copy_value n h v = Some (h1, w)"
  shows "\<exists>h2. clear n h1 w = Some h2 \<and> cells h2 = cells h"
proof -
  obtain bs where c: "rep (cells h1) j w bs" "adds bs h h1"
    using copy_represents[OF assms(2) _ assms(3,1)] assms(4) by auto
  have "cells (without bs h1) = cells h" by (rule adds_without[OF c(2) assms(1)])
  then show ?thesis using clear_frees[OF c(1) _ assms(3), of h1] by simp
qed

theorem construct_then_destroy_witness:
  "\<exists>h2. clear 1 (fst (the (copy_value 1 sample_heap (S_array 0)))) (snd (the (copy_value 1 sample_heap (S_array 0)))) = Some h2 \<and>
    cells h2 = cells sample_heap"
  by (rule construct_then_destroy[OF sample_ok sample_rep sample_levels])
    (use copy_represents[OF sample_rep _ sample_levels sample_ok] in auto)

text \<open>C38: assignment frees exactly what the target held and leaves in it a copy of the source, also
  when the source is a part of the target.\<close>

theorem assign_replaces:
  assumes "rep (cells h) j this as" and "rep (cells h) k x bs" and "heap_ok h" and "levels j \<le> n" and "levels k \<le> n"
  shows "\<exists>h1 t cs. assign_value n False h this x = Some (h1, t) \<and> rep (cells h1) k t cs \<and>
    (\<forall>a. cells h1 a \<noteq> None \<longleftrightarrow> (cells h a \<noteq> None \<and> a \<notin> set as) \<or> a \<in> set cs)"
proof -
  obtain h1 t cs where c: "copy_value n h x = Some (h1, t)" "rep (cells h1) k t cs" "adds cs h h1"
    using copy_represents[OF assms(2) _ assms(5,3)] by auto
  have apart: "set as \<inter> set cs = {}" using rep_allocated[OF assms(1)] c(3) assms(3) by (auto simp: adds_def heap_ok_def)
  have "clear n h1 this = Some (without as h1)"
    by (rule clear_frees[OF adds_keeps[OF c(3) assms(1)] _ assms(4)]) simp
  moreover have "rep (cells (without as h1)) k t cs" using apart by (intro rep_frame[OF c(2)]) auto
  ultimately show ?thesis using c apart by (intro exI[of _ "without as h1"] exI) (auto simp: assign_value_def adds_def)
qed

theorem assign_replaces_witness: "\<exists>h1 t cs. assign_value 1 False sample_heap (S_array 0) (S_string 1) = Some (h1, t) \<and>
    rep (cells h1) (JString ''a'') t cs \<and>
    (\<forall>a. cells h1 a \<noteq> None \<longleftrightarrow> (cells sample_heap a \<noteq> None \<and> a \<notin> set [0, 1]) \<or> a \<in> set cs)"
  by (rule assign_replaces[OF sample_rep sample_part sample_ok sample_levels]) simp

text \<open>the setters read their argument after the old contents are freed, so setting a value from a
  string, an array or an object inside that value reads freed storage.\<close>

theorem set_from_own_part:
  assumes "rep (cells h) j this as" and "levels j \<le> n" and "ref \<in> set as"
  shows "set_string n h this ref = None \<and> set_array n h this ref = None \<and> set_object n h this ref = None"
  using clear_frees[OF assms(1) _ assms(2)] construct_after_free[OF assms(3)]
  by (simp add: set_string_def set_array_def set_object_def)

theorem set_from_own_part_witness: "set_string 1 sample_heap (S_array 0) 1 = None \<and>
    set_array 1 sample_heap (S_array 0) 1 = None \<and> set_object 1 sample_heap (S_array 0) 1 = None"
  by (rule set_from_own_part[OF sample_rep sample_levels]) simp

text \<open>a setter whose argument is not part of the old value frees exactly what that value held and
  leaves a copy of the argument.\<close>

theorem set_string_replaces:
  assumes "rep (cells h) j this as" and "heap_ok h" and "levels j \<le> n" and "cells h ref = Some (Cell_string s)" and "ref \<notin> set as"
  shows "\<exists>h1 a. set_string n h this ref = Some (h1, S_string a) \<and> cells h1 a = Some (Cell_string s) \<and>
    (\<forall>b. b \<noteq> a \<longrightarrow> cells h1 b = (if b \<in> set as then None else cells h b)) \<and> cells h a = None"
proof -
  have "clear n h this = Some (without as h)" by (rule clear_frees[OF assms(1) _ assms(3)]) simp
  then show ?thesis using assms(2,4,5)
    by (auto simp: set_string_def construct_string_def new_cell_def heap_ok_def)
qed

theorem set_string_replaces_witness: "\<exists>h1 a. set_string 0 sample_heap S_null 1 = Some (h1, S_string a) \<and>
    cells h1 a = Some (Cell_string ''a'') \<and>
    (\<forall>b. b \<noteq> a \<longrightarrow> cells h1 b = (if b \<in> set [] then None else cells sample_heap b)) \<and> cells sample_heap a = None"
  by (rule set_string_replaces[OF rep_null sample_ok]) (simp_all add: sample_heap_def)

end
