(* ===== verification/Picojson_Moves.thy ===== *)
theory Picojson_Moves
  imports Picojson_Memory
begin

text \<open>
  The constructors and setters of a JSON value in \<^verbatim>\<open>picojson.h\<close> that take an rvalue: they make a new
  container and move the contents of the argument into it. Nothing is copied, whatever the size of the
  value. A container that was moved from is left empty, as the library's containers are in practice; the
  standard only promises that they can be destroyed.
\<close>

section \<open>Moving contents\<close>

definition put_cell :: "nat \<Rightarrow> cell \<Rightarrow> heap \<Rightarrow> heap" where
  "put_cell a c h = h\<lparr> cells := (cells h)(a \<mapsto> c) \<rparr>"

text \<open>\<^verbatim>\<open>value(std::string &&)\<close>, \<^verbatim>\<open>value(array &&)\<close> and \<^verbatim>\<open>value(object &&)\<close>.\<close>

definition construct_string_move :: "heap \<Rightarrow> nat \<Rightarrow> (heap \<times> slot) option" where
  "construct_string_move h ref =
     (case cells h ref of
        Some (Cell_string s) \<Rightarrow>
          (let (h1, a) = new_cell h (Cell_string s) in Some (put_cell ref (Cell_string []) h1, S_string a))
      | _ \<Rightarrow> None)"

definition construct_array_move :: "heap \<Rightarrow> nat \<Rightarrow> (heap \<times> slot) option" where
  "construct_array_move h ref =
     (case cells h ref of
        Some (Cell_array vs) \<Rightarrow>
          (let (h1, a) = new_cell h (Cell_array vs) in Some (put_cell ref (Cell_array []) h1, S_array a))
      | _ \<Rightarrow> None)"

definition construct_object_move :: "heap \<Rightarrow> nat \<Rightarrow> (heap \<times> slot) option" where
  "construct_object_move h ref =
     (case cells h ref of
        Some (Cell_object kvs) \<Rightarrow>
          (let (h1, a) = new_cell h (Cell_object kvs) in Some (put_cell ref (Cell_object []) h1, S_object a))
      | _ \<Rightarrow> None)"

text \<open>\<^verbatim>\<open>set(T &&)\<close>: as the other setters, \<open>clear\<close> comes first.\<close>

definition set_string_move :: "nat \<Rightarrow> heap \<Rightarrow> slot \<Rightarrow> nat \<Rightarrow> (heap \<times> slot) option" where
  "set_string_move n h this ref = Option.bind (clear n h this) (\<lambda>h1. construct_string_move h1 ref)"

definition set_array_move :: "nat \<Rightarrow> heap \<Rightarrow> slot \<Rightarrow> nat \<Rightarrow> (heap \<times> slot) option" where
  "set_array_move n h this ref = Option.bind (clear n h this) (\<lambda>h1. construct_array_move h1 ref)"

definition set_object_move :: "nat \<Rightarrow> heap \<Rightarrow> slot \<Rightarrow> nat \<Rightarrow> (heap \<times> slot) option" where
  "set_object_move n h this ref = Option.bind (clear n h this) (\<lambda>h1. construct_object_move h1 ref)"

text \<open>\<^verbatim>\<open>value(const char *s)\<close> reads up to the zero byte, \<^verbatim>\<open>value(const char *s, size_t len)\<close> a length;
  \<open>s\<close> is the memory from the pointer on.\<close>

definition construct_c_string :: "heap \<Rightarrow> string \<Rightarrow> heap \<times> slot" where
  "construct_c_string h s =
     (let (h1, a) = new_cell h (Cell_string (takeWhile (\<lambda>c. c \<noteq> CHR 0x00) s)) in (h1, S_string a))"

definition construct_chars :: "heap \<Rightarrow> string \<Rightarrow> nat \<Rightarrow> heap \<times> slot" where
  "construct_chars h s len = (let (h1, a) = new_cell h (Cell_string (take len s)) in (h1, S_string a))"

lemma construct_chars_represents:
  "construct_chars h s len = (h1, v) \<Longrightarrow> \<exists>a. v = S_string a \<and> rep (cells h1) (JString (take len s)) v [a]"
  "construct_c_string h s = (h1, v) \<Longrightarrow> CHR 0x00 \<notin> set s \<Longrightarrow> \<exists>a. v = S_string a \<and> rep (cells h1) (JString s) v [a]"
  by (auto simp: construct_chars_def construct_c_string_def new_cell_def takeWhile_eq_all_conv[THEN iffD2] intro!: rep_string)

section \<open>What moving does\<close>

text \<open>The one cell that changes hands: what a move builds from the container \<open>ref\<close>, which stood for \<open>j\<close> and
  owned \<open>as\<close> beside its own cell.\<close>

inductive moved :: "heap \<Rightarrow> heap \<Rightarrow> nat \<Rightarrow> nat list \<Rightarrow> json \<Rightarrow> slot \<Rightarrow> bool" for h h1 where
  moved_to: "cells h a = None \<Longrightarrow> rep (cells h1) j v (a # as) \<Longrightarrow> cells h1 ref \<noteq> None \<Longrightarrow>
    \<forall>b. b \<noteq> a \<and> b \<noteq> ref \<longrightarrow> cells h1 b = cells h b \<Longrightarrow> moved h h1 ref as j v"

inductive_cases movedE: "moved h h1 ref as j v"

inductive_cases rep_objectE: "rep c j (S_object a) as"

lemma move_array:
  assumes "heap_ok h" and "rep (cells h) j (S_array ref) (ref # as)"
  shows "\<exists>h1 v. construct_array_move h ref = Some (h1, v) \<and> moved h h1 ref as j v"
proof -
  obtain vs js where c: "cells h ref = Some (Cell_array vs)" "j = JArray js" "reps (cells h) js vs as" "ref \<notin> set as"
    using assms(2) by (auto elim: rep_arrayE)
  obtain h1 a where new: "new_cell h (Cell_array vs) = (h1, a)" by (cases "new_cell h (Cell_array vs)")
  let ?h = "put_cell ref (Cell_array []) h1"
  have a: "cells h a = None" "a \<noteq> ref" "cells ?h a = Some (Cell_array vs)"
    "\<forall>b. b \<noteq> a \<and> b \<noteq> ref \<longrightarrow> cells ?h b = cells h b" "cells ?h ref \<noteq> None"
    using new assms(1) c(1) by (auto simp: new_cell_def heap_ok_def put_cell_def)
  have notin: "a \<notin> set as" using reps_allocated[OF c(3)] a(1) by auto
  have "reps (cells ?h) js vs as" using a(4) notin c(4) by (intro reps_frame[OF c(3)]) auto
  then have "rep (cells ?h) (JArray js) (S_array a) (a # as)" using a(3) notin by (intro rep_array)
  then have "moved h ?h ref as j (S_array a)" using a c(2) by (intro moved_to) auto
  then show ?thesis using c(1) new by (auto simp: construct_array_move_def)
qed

lemma move_object:
  assumes "heap_ok h" and "rep (cells h) j (S_object ref) (ref # as)"
  shows "\<exists>h1 v. construct_object_move h ref = Some (h1, v) \<and> moved h h1 ref as j v"
proof -
  obtain kvs ms where c: "cells h ref = Some (Cell_object kvs)" "j = JObject ms" "map fst kvs = map fst ms"
    "reps (cells h) (map snd ms) (map snd kvs) as" "ref \<notin> set as"
    using assms(2) by (auto elim: rep_objectE)
  obtain h1 a where new: "new_cell h (Cell_object kvs) = (h1, a)" by (cases "new_cell h (Cell_object kvs)")
  let ?h = "put_cell ref (Cell_object []) h1"
  have a: "cells h a = None" "a \<noteq> ref" "cells ?h a = Some (Cell_object kvs)"
    "\<forall>b. b \<noteq> a \<and> b \<noteq> ref \<longrightarrow> cells ?h b = cells h b" "cells ?h ref \<noteq> None"
    using new assms(1) c(1) by (auto simp: new_cell_def heap_ok_def put_cell_def)
  have notin: "a \<notin> set as" using reps_allocated[OF c(4)] a(1) by auto
  have "reps (cells ?h) (map snd ms) (map snd kvs) as" using a(4) notin c(5) by (intro reps_frame[OF c(4)]) auto
  then have "rep (cells ?h) (JObject ms) (S_object a) (a # as)" using a(3) notin c(3) by (intro rep_object)
  then have "moved h ?h ref as j (S_object a)" using a c(2) by (intro moved_to) auto
  then show ?thesis using c(1) new by (auto simp: construct_object_move_def)
qed

lemma move_string:
  assumes "heap_ok h" and "rep (cells h) j (S_string ref) (ref # as)"
  shows "\<exists>h1 v. construct_string_move h ref = Some (h1, v) \<and> moved h h1 ref as j v"
proof -
  obtain s where c: "cells h ref = Some (Cell_string s)" "j = JString s" "as = []"
    using assms(2) by (auto elim: rep_stringE)
  obtain h1 a where new: "new_cell h (Cell_string s) = (h1, a)" by (cases "new_cell h (Cell_string s)")
  let ?h = "put_cell ref (Cell_string []) h1"
  have a: "cells h a = None" "a \<noteq> ref" "cells ?h a = Some (Cell_string s)"
    "\<forall>b. b \<noteq> a \<and> b \<noteq> ref \<longrightarrow> cells ?h b = cells h b" "cells ?h ref \<noteq> None"
    using new assms(1) c(1) by (auto simp: new_cell_def heap_ok_def put_cell_def)
  then have "moved h ?h ref as j (S_string a)" using c by (intro moved_to) (auto intro: rep_string)
  then show ?thesis using c(1) new by (auto simp: construct_string_move_def)
qed

lemma heap_ok_without: "heap_ok h \<Longrightarrow> heap_ok (without as h)"
  by (simp add: heap_ok_def)

text \<open>The old contents are freed first; a container that is not part of them keeps what it stands for.\<close>

lemma clear_then:
  assumes "rep (cells h) k this bs" and "levels k \<le> n" and "rep (cells h) j v as" and "set as \<inter> set bs = {}"
  shows "clear n h this = Some (without bs h)" and "rep (cells (without bs h)) j v as"
  using clear_frees[OF assms(1) _ assms(2), of h] assms(4) by (auto intro!: rep_frame[OF assms(3)])

text \<open>C39: a setter that moves frees exactly what the value held, takes over the parts of the argument without
  copying one, in a single new cell, and leaves everything else as it was; but if the argument is inside
  the value it sets, it is freed before it is read, moved or not.\<close>

theorem set_by_move:
  assumes "heap_ok h" and "rep (cells h) k this bs" and "levels k \<le> n"
  shows "(\<forall>j ref as. rep (cells h) j (S_string ref) (ref # as) \<and> set (ref # as) \<inter> set bs = {} \<longrightarrow>
      (\<exists>h1 v. set_string_move n h this ref = Some (h1, v) \<and> moved (without bs h) h1 ref as j v)) \<and>
    (\<forall>j ref as. rep (cells h) j (S_array ref) (ref # as) \<and> set (ref # as) \<inter> set bs = {} \<longrightarrow>
      (\<exists>h1 v. set_array_move n h this ref = Some (h1, v) \<and> moved (without bs h) h1 ref as j v)) \<and>
    (\<forall>j ref as. rep (cells h) j (S_object ref) (ref # as) \<and> set (ref # as) \<inter> set bs = {} \<longrightarrow>
      (\<exists>h1 v. set_object_move n h this ref = Some (h1, v) \<and> moved (without bs h) h1 ref as j v)) \<and>
    (\<forall>ref \<in> set bs. set_string_move n h this ref = None \<and> set_array_move n h this ref = None \<and>
      set_object_move n h this ref = None)"
proof (intro conjI allI impI ballI)
  note ok = heap_ok_without[OF assms(1), of bs]
  fix j ref as
  { assume r: "rep (cells h) j (S_string ref) (ref # as) \<and> set (ref # as) \<inter> set bs = {}"
    note c = clear_then[OF assms(2,3) conjunct1[OF r] conjunct2[OF r]]
    show "\<exists>h1 v. set_string_move n h this ref = Some (h1, v) \<and> moved (without bs h) h1 ref as j v"
      using move_string[OF ok c(2)] c(1) by (simp add: set_string_move_def) }
  { assume r: "rep (cells h) j (S_array ref) (ref # as) \<and> set (ref # as) \<inter> set bs = {}"
    note c = clear_then[OF assms(2,3) conjunct1[OF r] conjunct2[OF r]]
    show "\<exists>h1 v. set_array_move n h this ref = Some (h1, v) \<and> moved (without bs h) h1 ref as j v"
      using move_array[OF ok c(2)] c(1) by (simp add: set_array_move_def) }
  { assume r: "rep (cells h) j (S_object ref) (ref # as) \<and> set (ref # as) \<inter> set bs = {}"
    note c = clear_then[OF assms(2,3) conjunct1[OF r] conjunct2[OF r]]
    show "\<exists>h1 v. set_object_move n h this ref = Some (h1, v) \<and> moved (without bs h) h1 ref as j v"
      using move_object[OF ok c(2)] c(1) by (simp add: set_object_move_def) }
next
  fix ref assume "ref \<in> set bs"
  moreover have "clear n h this = Some (without bs h)" by (rule clear_frees[OF assms(2) _ assms(3)]) simp
  ultimately show "set_string_move n h this ref = None" "set_array_move n h this ref = None" "set_object_move n h this ref = None"
    by (simp_all add: set_string_move_def set_array_move_def set_object_move_def construct_string_move_def
        construct_array_move_def construct_object_move_def)
qed

lemma set_by_move_witness:
  "(\<exists>h1 v. set_array_move 0 sample_heap S_null 0 = Some (h1, v) \<and>
     moved (without [] sample_heap) h1 0 [1] (JArray [JString ''a'']) v) \<and>
   set_string_move 1 sample_heap (S_array 0) 1 = None"
  using set_by_move[OF sample_ok rep_null, of 0] set_by_move[OF sample_ok sample_rep sample_levels] sample_rep
  by (auto simp del: without_simps)

end
