(* ===== verification/Picojson_Parse.thy ===== *)
theory Picojson_Parse
  imports Picojson_Value
begin

text \<open>
  The parser of \<^verbatim>\<open>picojson.h\<close>: the one-character look-ahead \<^verbatim>\<open>input\<close> class, the
  recursive-descent functions and \<^verbatim>\<open>default_parse_context\<close>. \<^verbatim>\<open>getc\<close> returns \<open>None\<close>
  where the code returns -1. The mutual recursion carries fuel; \<open>parse_fuel\<close> is twice
  the length of the text plus two, and it never runs out (\<open>parse_no_fuel\<close> below).
\<close>

named_theorems input_lemmas \<open>how getc and ungetc move the view of the input\<close>

section \<open>The input class\<close>

record input =
  cur :: string
  consumed :: bool
  line :: nat

definition new_input :: "string \<Rightarrow> input" where
  "new_input s = \<lparr> cur = s, consumed = False, line = 1 \<rparr>"

text \<open>The step past a character that was handed out and not put back.\<close>

definition advance :: "input \<Rightarrow> input" where
  "advance i =
     (if consumed i then
        i\<lparr> cur := tl (cur i),
           line := (if cur i \<noteq> [] \<and> hd (cur i) = LF then Suc (line i) else line i) \<rparr>
      else i)"

definition getc :: "input \<Rightarrow> char option \<times> input" where
  "getc i =
     (let j = advance i
      in if cur j = [] then (None, j\<lparr> consumed := False \<rparr>)
         else (Some (hd (cur j)), j\<lparr> consumed := True \<rparr>))"

definition ungetc :: "input \<Rightarrow> input" where
  "ungetc i = i\<lparr> consumed := False \<rparr>"

text \<open>\<^verbatim>\<open>cur()\<close>: where parsing stopped; it drops a handed-out character without counting lines.\<close>

definition position :: "input \<Rightarrow> string" where
  "position i = (if consumed i then tl (cur i) else cur i)"

definition json_ws :: "char \<Rightarrow> bool" where
  "json_ws c \<longleftrightarrow> c = CHR '' '' \<or> c = TAB \<or> c = LF \<or> c = CR"

lemma getc_shrinks: "getc i = (Some c, j) \<Longrightarrow> length (position j) < length (position i)"
  by (cases "cur i"; cases "tl (cur i)")
    (auto simp: getc_def advance_def position_def Let_def split: if_splits)

lemmas getc_shrinks_sym = getc_shrinks [OF sym]

function skip_ws :: "input \<Rightarrow> input" where
  "skip_ws i =
     (case getc i of
        (None, j) \<Rightarrow> ungetc j
      | (Some c, j) \<Rightarrow> if json_ws c then skip_ws j else ungetc j)"
  by pat_completeness auto
termination
  by (relation "measure (\<lambda>i. length (position i))")
    (simp, metis getc_shrinks in_measure)

declare skip_ws.simps [simp del]

definition expect :: "char \<Rightarrow> input \<Rightarrow> bool \<times> input" where
  "expect c i =
     (let (ch, j) = getc (skip_ws i)
      in if ch = Some c then (True, j) else (False, ungetc j))"

fun match :: "string \<Rightarrow> input \<Rightarrow> bool \<times> input" where
  "match [] i = (True, i)"
| "match (p # ps) i =
     (let (ch, j) = getc i in if ch = Some p then match ps j else (False, ungetc j))"

section \<open>Strings\<close>

definition hex_value :: "char \<Rightarrow> nat option" where
  "hex_value c =
     (if 48 \<le> byte c \<and> byte c \<le> 57 then Some (byte c - 48)
      else if 65 \<le> byte c \<and> byte c \<le> 70 then Some (byte c - 55)
      else if 97 \<le> byte c \<and> byte c \<le> 102 then Some (byte c - 87)
      else None)"

text \<open>\<open>k\<close> more hexadecimal digits onto \<open>acc\<close>; \<^verbatim>\<open>_parse_quadhex\<close> is \<open>k = 4\<close>.\<close>

fun parse_hex :: "nat \<Rightarrow> nat \<Rightarrow> input \<Rightarrow> nat option \<times> input" where
  "parse_hex 0 acc i = (Some acc, i)"
| "parse_hex (Suc k) acc i =
     (case getc i of
        (None, j) \<Rightarrow> (None, j)
      | (Some c, j) \<Rightarrow>
          (case hex_value c of
             None \<Rightarrow> (None, ungetc j)
           | Some h \<Rightarrow> parse_hex k (acc * 16 + h) j))"

definition parse_quadhex :: "input \<Rightarrow> nat option \<times> input" where
  "parse_quadhex i = parse_hex 4 0 i"

text \<open>The UTF-8 bytes of a code point.\<close>

definition utf8 :: "nat \<Rightarrow> string" where
  "utf8 u =
     (if u < 0x80 then [char_of u]
      else if u < 0x800 then [char_of (0xc0 + u div 64), char_of (0x80 + u mod 64)]
      else if u < 0x10000 then
        [char_of (0xe0 + u div 4096), char_of (0x80 + u div 64 mod 64), char_of (0x80 + u mod 64)]
      else
        [char_of (0xf0 + u div 262144), char_of (0x80 + u div 4096 mod 64),
         char_of (0x80 + u div 64 mod 64), char_of (0x80 + u mod 64)])"

definition parse_codepoint :: "input \<Rightarrow> string option \<times> input" where
  "parse_codepoint i =
     (case parse_quadhex i of
        (None, j) \<Rightarrow> (None, j)
      | (Some u, j) \<Rightarrow>
          if 0xd800 \<le> u \<and> u \<le> 0xdfff then
            (if 0xdc00 \<le> u then (None, j)
             else
               (let (c1, j1) = getc j
                in if c1 \<noteq> Some BSL then (None, ungetc j1)
                   else
                     (let (c2, j2) = getc j1
                      in if c2 \<noteq> Some (CHR ''u'') then (None, ungetc j2)
                         else
                           (case parse_quadhex j2 of
                              (None, j3) \<Rightarrow> (None, j3)
                            | (Some w, j3) \<Rightarrow>
                                if 0xdc00 \<le> w \<and> w \<le> 0xdfff then
                                  (Some (utf8 ((u - 0xd800) * 1024 + (w - 0xdc00) mod 1024 + 0x10000)), j3)
                                else (None, j3)))))
          else (Some (utf8 u), j))"

definition simple_escape :: "char \<Rightarrow> char option" where
  "simple_escape c =
     (if c = DQ then Some DQ
      else if c = BSL then Some BSL
      else if c = CHR ''/'' then Some (CHR ''/'')
      else if c = CHR ''b'' then Some BS
      else if c = CHR ''f'' then Some FF
      else if c = CHR ''n'' then Some LF
      else if c = CHR ''r'' then Some CR
      else if c = CHR ''t'' then Some TAB
      else None)"

lemma parse_hex_shrinks: "parse_hex k acc i = (Some u, j) \<Longrightarrow> length (position j) \<le> length (position i)"
proof (induction k acc i rule: parse_hex.induct)
  case (2 k acc i)
  then show ?case
    by (fastforce split: prod.splits option.splits dest: getc_shrinks)
qed auto

lemma parse_codepoint_shrinks:
  assumes "parse_codepoint i = (Some s, j)"
  shows "length (position j) \<le> length (position i)"
  using assms
  by (auto simp: parse_codepoint_def parse_quadhex_def Let_def split: prod.splits option.splits if_splits)
    (fastforce dest!: parse_hex_shrinks getc_shrinks)+

text \<open>\<^verbatim>\<open>_parse_string\<close> after the opening quote, \<open>out\<close> being the text so far.\<close>

function parse_string :: "string \<Rightarrow> input \<Rightarrow> string option \<times> input" where
  "parse_string out i =
     (case getc i of
        (None, j) \<Rightarrow> (None, ungetc j)
      | (Some c, j) \<Rightarrow>
          if byte c < 32 then (None, ungetc j)
          else if c = DQ then (Some out, j)
          else if c = BSL then
            (case getc j of
               (None, k) \<Rightarrow> (None, k)
             | (Some e, k) \<Rightarrow>
                 (case simple_escape e of
                    Some x \<Rightarrow> parse_string (out @ [x]) k
                  | None \<Rightarrow>
                      if e = CHR ''u'' then
                        (case parse_codepoint k of
                           (None, l) \<Rightarrow> (None, l)
                         | (Some u, l) \<Rightarrow> parse_string (out @ u) l)
                      else (None, k)))
          else parse_string (out @ [c]) j)"
  by pat_completeness auto
termination
  by (relation "measure (\<lambda>(out, i). length (position i))")
    (auto dest!: getc_shrinks_sym parse_codepoint_shrinks [OF sym])

declare parse_string.simps [simp del]

section \<open>Numbers\<close>

definition number_char :: "char \<Rightarrow> bool" where
  "number_char c \<longleftrightarrow>
     is_digit c \<or> c = CHR ''+'' \<or> c = CHR ''-'' \<or> c = CHR ''e'' \<or> c = CHR ''E'' \<or> c = CHR ''.''"

function parse_number :: "string \<Rightarrow> input \<Rightarrow> string \<times> input" where
  "parse_number out i =
     (case getc i of
        (None, j) \<Rightarrow> (out, ungetc j)
      | (Some c, j) \<Rightarrow> if number_char c then parse_number (out @ [c]) j else (out, ungetc j))"
  by pat_completeness auto
termination
  by (relation "measure (\<lambda>(out, i). length (position i))")
    (simp, metis (no_types, lifting) case_prod_conv getc_shrinks in_measure)

declare parse_number.simps [simp del]

section \<open>Values\<close>

datatype 'a parsed = Parsed 'a input | Rejected input | Thrown pj_exn input | No_fuel

text \<open>
  A number token: \<^verbatim>\<open>strtoimax\<close> if it reads the whole token into 64 bits, else \<^verbatim>\<open>strtod\<close> if that
  does, else an error.
\<close>

definition number_of_token :: "string \<Rightarrow> input \<Rightarrow> json parsed" where
  "number_of_token s j =
     (if s = [] then Rejected j
      else
        (case strtol_scan s of
           Some (v, []) \<Rightarrow>
             if - (2 ^ 63) \<le> v \<and> v < 2 ^ 63 then Parsed (JInt (word_of_int v)) j
             else (case strtod_scan s of
                     Some (f, []) \<Rightarrow> (case number_value f of Inr n \<Rightarrow> Parsed n j | Inl e \<Rightarrow> Thrown e j)
                   | _ \<Rightarrow> Rejected j)
         | _ \<Rightarrow>
             (case strtod_scan s of
                Some (f, []) \<Rightarrow> (case number_value f of Inr n \<Rightarrow> Parsed n j | Inl e \<Rightarrow> Thrown e j)
              | _ \<Rightarrow> Rejected j)))"

definition literal :: "string \<Rightarrow> json \<Rightarrow> input \<Rightarrow> json parsed" where
  "literal text v i = (let (ok, j) = match text i in if ok then Parsed v j else Rejected j)"

text \<open>
  \<open>parse_value\<close> is \<^verbatim>\<open>_parse\<close> with a \<^verbatim>\<open>default_parse_context\<close> whose \<^verbatim>\<open>depths_\<close> is \<open>d\<close>. An array
  gives its items one level less; an object gives its members its own level.
\<close>

fun parse_value :: "nat \<Rightarrow> nat \<Rightarrow> input \<Rightarrow> json parsed"
and parse_items :: "nat \<Rightarrow> nat \<Rightarrow> json list \<Rightarrow> input \<Rightarrow> json parsed"
and parse_members :: "nat \<Rightarrow> nat \<Rightarrow> (string, json) smap \<Rightarrow> input \<Rightarrow> json parsed" where
  "parse_value 0 d i = No_fuel"
| "parse_value (Suc fuel) d i =
     (let (ch, j) = getc (skip_ws i)
      in if ch = Some (CHR ''n'') then literal ''ull'' JNull j
         else if ch = Some (CHR ''f'') then literal ''alse'' (JBool False) j
         else if ch = Some (CHR ''t'') then literal ''rue'' (JBool True) j
         else if ch = Some DQ then
           (case parse_string [] j of
              (Some s, k) \<Rightarrow> Parsed (JString s) k
            | (None, k) \<Rightarrow> Rejected k)
         else if ch = Some (CHR ''['') then
           (if d = 0 then Rejected j
            else
              (let (stop, k) = expect (CHR '']'') j
               in if stop then Parsed (JArray []) k else parse_items fuel (d - 1) [] k))
         else if ch = Some (CHR ''{'') then
           (if d = 0 then Rejected j
            else
              (let (stop, k) = expect (CHR ''}'') j
               in if stop then Parsed (JObject []) k else parse_members fuel d [] k))
         else if (case ch of Some c \<Rightarrow> is_digit c \<or> c = CHR ''-'' | None \<Rightarrow> False) then
           (let (s, k) = parse_number [] (ungetc j) in number_of_token s k)
         else Rejected (ungetc j))"
| "parse_items 0 d items i = No_fuel"
| "parse_items (Suc fuel) d items i =
     (case parse_value fuel d i of
        Parsed v j \<Rightarrow>
          (let (more, k) = expect (CHR '','') j
           in if more then parse_items fuel d (items @ [v]) k
              else
                (let (stop, l) = expect (CHR '']'') k
                 in if stop then Parsed (JArray (items @ [v])) l else Rejected l))
      | other \<Rightarrow> other)"
| "parse_members 0 d members i = No_fuel"
| "parse_members (Suc fuel) d members i =
     (let (quote, j) = expect DQ i
      in if \<not> quote then Rejected j
         else
           (case parse_string [] j of
              (None, k) \<Rightarrow> Rejected k
            | (Some key, k) \<Rightarrow>
                (let (colon, l) = expect (CHR '':'') k
                 in if \<not> colon then Rejected l
                    else
                      (case parse_value fuel d l of
                         Parsed v m \<Rightarrow>
                           (let (more, n) = expect (CHR '','') m
                            in if more then parse_members fuel d (smap_put key v members) n
                               else
                                 (let (stop, q) = expect (CHR ''}'') n
                                  in if stop then Parsed (JObject (smap_put key v members)) q
                                     else Rejected q))
                       | other \<Rightarrow> other))))"

definition default_max_depths :: nat where
  "default_max_depths = 100"

definition parse_fuel :: "string \<Rightarrow> nat" where
  "parse_fuel s = 2 * length s + 2"

definition parse_text :: "string \<Rightarrow> json parsed" where
  "parse_text s = parse_value (parse_fuel s) default_max_depths (new_input s)"

text \<open>
  The error text: the line and what is left of it, control characters dropped. It reads on
  from where the parser stopped.
\<close>

fun printable_line :: "string \<Rightarrow> string" where
  "printable_line [] = []"
| "printable_line (c # s) =
     (if c = LF then [] else if 32 \<le> byte c then c # printable_line s else printable_line s)"

definition syntax_error :: "input \<Rightarrow> string" where
  "syntax_error i =
     ''syntax error at line '' @ to_string (line i) @ '' near: '' @ printable_line (position i)"

text \<open>
  \<^verbatim>\<open>std::string parse(value &out, const std::string &s)\<close>: the error text, or, where the code returns
  the empty text, the value it wrote to \<^verbatim>\<open>out\<close>; trailing text is not looked at. What a failed parse
  leaves in \<^verbatim>\<open>out\<close> is not described. The exception of an overflowing number passes through.
\<close>

definition parse :: "string \<Rightarrow> pj_exn + (string + json)" where
  "parse s =
     (case parse_text s of
        Parsed v _ \<Rightarrow> Inr (Inr v)
      | Rejected i \<Rightarrow> Inr (Inl (syntax_error i))
      | Thrown e _ \<Rightarrow> Inl e
      | No_fuel \<Rightarrow> Inr (Inl ''no fuel''))"

section \<open>The input seen as the text that is left\<close>

lemma cur_advance: "cur (advance i) = position i"
  by (simp add: advance_def position_def)

lemma fst_getc [simp, input_lemmas]:
  "fst (getc i) = (case position i of [] \<Rightarrow> None | c # _ \<Rightarrow> Some c)"
  by (simp add: getc_def Let_def cur_advance split: list.splits)

lemma position_getc [simp, input_lemmas]: "position (snd (getc i)) = tl (position i)"
  by (simp add: getc_def Let_def cur_advance position_def [of "_\<lparr>consumed := _\<rparr>"])

lemma position_ungetc_getc [simp, input_lemmas]: "position (ungetc (snd (getc i))) = position i"
  by (simp add: getc_def Let_def cur_advance ungetc_def position_def [of "_\<lparr>consumed := _\<rparr>"])

lemma position_new_input [simp, input_lemmas]: "position (new_input s) = s"
  by (simp add: position_def new_input_def)

lemma getc_Nil:
  assumes "position i = []"
  obtains j where "getc i = (None, j)" "position j = []" "position (ungetc j) = []"
  by (rule that [of "snd (getc i)"]) (simp_all add: assms prod_eq_iff)

lemma getc_Cons:
  assumes "position i = c # r"
  obtains j where "getc i = (Some c, j)" "position j = r" "position (ungetc j) = c # r"
  by (rule that [of "snd (getc i)"]) (simp_all add: assms prod_eq_iff)

lemma position_skip_ws [simp, input_lemmas]:
  "position (skip_ws i) = dropWhile json_ws (position i)"
proof (induction i rule: skip_ws.induct)
  case (1 i)
  show ?case
  proof (cases "position i")
    case Nil
    then obtain j where "getc i = (None, j)" "position (ungetc j) = []" by (rule getc_Nil)
    with Nil show ?thesis by (subst skip_ws.simps) simp
  next
    case (Cons c r)
    then obtain j where "getc i = (Some c, j)" "position j = r" "position (ungetc j) = c # r"
      by (rule getc_Cons)
    with Cons 1 show ?thesis by (subst skip_ws.simps) simp
  qed
qed

lemma expect_skip:
  assumes "dropWhile json_ws (position i) = c # r"
  shows "\<exists>j. expect c i = (True, j) \<and> position j = r"
    and "d \<noteq> c \<Longrightarrow> \<exists>j. expect d i = (False, j) \<and> position j = c # r"
proof -
  have "position (skip_ws i) = c # r" using assms by simp
  then obtain j where "getc (skip_ws i) = (Some c, j)" "position j = r" "position (ungetc j) = c # r"
    by (rule getc_Cons)
  then show "\<exists>j. expect c i = (True, j) \<and> position j = r"
    and "d \<noteq> c \<Longrightarrow> \<exists>j. expect d i = (False, j) \<and> position j = c # r"
    by (simp_all add: expect_def)
qed

lemma expect_end:
  assumes "dropWhile json_ws (position i) = []"
  shows "\<exists>j. expect c i = (False, j) \<and> position j = []"
proof -
  have "position (skip_ws i) = []" using assms by simp
  then obtain j where "getc (skip_ws i) = (None, j)" "position (ungetc j) = []" by (rule getc_Nil)
  then show ?thesis by (simp add: expect_def)
qed

lemma expect_yes:
  "position i = c # r \<Longrightarrow> \<not> json_ws c \<Longrightarrow> \<exists>j. expect c i = (True, j) \<and> position j = r"
  by (rule expect_skip(1)) simp

lemma expect_no:
  "position i = c # r \<Longrightarrow> \<not> json_ws c \<Longrightarrow> d \<noteq> c \<Longrightarrow>
   \<exists>j. expect d i = (False, j) \<and> position j = c # r"
  by (rule expect_skip(2)) simp_all

lemma length_dropWhile: "length (dropWhile P xs) \<le> length xs"
  by (rule length_dropWhile_le)

lemma expect_shrinks:
  "expect c i = (b, j) \<Longrightarrow> length (position j) \<le> length (position i) \<and>
   (b \<longrightarrow> length (position j) < length (position i))"
proof (cases "dropWhile json_ws (position i)")
  case Nil
  assume "expect c i = (b, j)"
  with expect_end[OF Nil, of c] show ?thesis by auto
next
  case (Cons d r)
  assume "expect c i = (b, j)"
  moreover have "length (d # r) \<le> length (position i)" by (metis Cons length_dropWhile)
  ultimately show ?thesis
    using expect_skip(1)[OF Cons] expect_skip(2)[OF Cons, of c] by (cases "c = d") auto
qed

lemma match_prefix:
  "position i = p @ r \<Longrightarrow> \<exists>j. match p i = (True, j) \<and> position j = r"
proof (induction p arbitrary: i)
  case Nil
  then show ?case by simp
next
  case (Cons c p)
  then obtain j where "getc i = (Some c, j)" "position j = p @ r" by (auto elim: getc_Cons)
  with Cons.IH[of j] show ?case by auto
qed

lemma match_shrinks: "length (position (snd (match p i))) \<le> length (position i)"
proof (induction p arbitrary: i)
  case Nil
  then show ?case by simp
next
  case (Cons c p)
  note IH = Cons.IH
  show ?case
  proof (cases "position i")
    case Nil
    then obtain j where "getc i = (None, j)" "position (ungetc j) = []" by (rule getc_Nil)
    then show ?thesis by simp
  next
    case (Cons d r)
    then obtain j where "getc i = (Some d, j)" "position j = r" "position (ungetc j) = d # r"
      by (rule getc_Cons)
    with Cons IH[of j] show ?thesis by auto
  qed
qed

lemma parse_number_view [input_lemmas]:
  "\<exists>j. parse_number out i = (out @ takeWhile number_char (position i), j) \<and>
     position j = dropWhile number_char (position i)"
proof (induction out i rule: parse_number.induct)
  case (1 out i)
  show ?case
  proof (cases "position i")
    case Nil
    then obtain j where "getc i = (None, j)" "position (ungetc j) = []" by (rule getc_Nil)
    with Nil show ?thesis by (subst parse_number.simps) simp
  next
    case (Cons c r)
    then obtain j where "getc i = (Some c, j)" "position j = r" "position (ungetc j) = c # r"
      by (rule getc_Cons)
    with Cons 1 show ?thesis by (subst parse_number.simps) auto
  qed
qed

section \<open>Enough fuel\<close>

lemma parse_string_step:
  assumes "getc i = (Some c, j)" "32 \<le> byte c" "c \<noteq> DQ"
  shows "c \<noteq> BSL \<Longrightarrow> parse_string out i = parse_string (out @ [c]) j"
    and "c = BSL \<Longrightarrow> getc j = (Some e, k) \<Longrightarrow> simple_escape e = Some x \<Longrightarrow>
      parse_string out i = parse_string (out @ [x]) k"
    and "c = BSL \<Longrightarrow> getc j = (Some (CHR ''u''), k) \<Longrightarrow> parse_codepoint k = (Some u, l) \<Longrightarrow>
      parse_string out i = parse_string (out @ u) l"
  using assms by (subst parse_string.simps, simp add: simple_escape_def)+

lemma parse_string_shrinks:
  "parse_string out i = (Some s, j) \<Longrightarrow> length (position j) < length (position i)"
proof (induction "length (position i)" arbitrary: out i rule: less_induct)
  case less
  note step = less.prems[unfolded parse_string.simps[of out i]]
  then obtain c k where g: "getc i = (Some c, k)"
    by (auto split: prod.splits option.splits)
  note k = getc_shrinks[OF g]
  consider "c = DQ" | "c = BSL" | "32 \<le> byte c" "c \<noteq> DQ" "c \<noteq> BSL"
    using step g by (auto split: if_splits)
  then show ?case
  proof cases
    case 1
    with step g k show ?thesis by (auto split: if_splits)
  next
    case 2
    then have b: "32 \<le> byte c" "c \<noteq> DQ" by (simp_all add: byte_def)
    obtain e l where e: "getc k = (Some e, l)"
      using step g 2 b by (auto split: prod.splits option.splits)
    note l = getc_shrinks[OF e]
    show ?thesis
    proof (cases "simple_escape e")
      case (Some x)
      then have "parse_string (out @ [x]) l = (Some s, j)"
        using less.prems parse_string_step(2)[OF g b 2 e] by simp
      with less.hyps[of l "out @ [x]"] k l show ?thesis by simp
    next
      case None
      then obtain u m where "e = CHR ''u''" and u: "parse_codepoint l = (Some u, m)"
        using step g 2 b e by (auto split: prod.splits option.splits if_splits)
      then have "parse_string (out @ u) m = (Some s, j)"
        using less.prems parse_string_step(3)[OF g b 2 _ u] e by simp
      with less.hyps[of m "out @ u"] k l parse_codepoint_shrinks[OF u] show ?thesis by simp
    qed
  next
    case 3
    then have "parse_string (out @ [c]) k = (Some s, j)"
      using less.prems parse_string_step(1)[OF g] by simp
    with less.hyps[of k "out @ [c]"] k show ?thesis by simp
  qed
qed

lemma number_of_token_cases: "number_of_token s j \<noteq> No_fuel"
  "number_of_token s j = Parsed v k \<Longrightarrow> k = j \<and> s \<noteq> []"
  by (auto simp: number_of_token_def split: if_splits option.splits list.splits sum.splits)

lemma literal_cases: "literal t v i \<noteq> No_fuel"
  "literal t v i = Parsed w k \<Longrightarrow> length (position k) \<le> length (position i)"
  using match_shrinks[of t i] by (auto simp: literal_def Let_def split: prod.splits if_splits)

text \<open>A value takes at least one character, and so do the items and members after the first bracket.\<close>

lemma parse_value_shrinks:
  "parse_value fuel d i = Parsed v j \<Longrightarrow> length (position j) < length (position i)"
  "parse_items fuel d xs i = Parsed v j \<Longrightarrow> length (position j) < length (position i)"
  "parse_members fuel d ms i = Parsed v j \<Longrightarrow> length (position j) < length (position i)"
proof (induction fuel arbitrary: d i v j xs ms)
  case 0
  { case 1 then show ?case by simp }
  { case 2 then show ?case by simp }
  { case 3 then show ?case by simp }
next
  case (Suc fuel)
  {
    case 1
    obtain ch k where g: "getc (skip_ws i) = (ch, k)" by fastforce
    have le: "length (position (skip_ws i)) \<le> length (position i)" by (simp add: length_dropWhile)
    show ?case
    proof (cases ch)
      case None
      with 1 g show ?thesis by simp
    next
      case (Some c)
      with g have k: "length (position k) < length (position i)" using getc_shrinks le by fastforce
      show ?thesis
      proof (cases "is_digit c \<or> c = CHR ''-''")
        case True
        then have u: "position (ungetc k) = position (skip_ws i)"
          using g by (metis position_ungetc_getc snd_conv)
        have n: "number_char c" using True by (auto simp: number_char_def)
        have c: "c \<notin> {CHR ''n'', CHR ''f'', CHR ''t'', DQ, CHR ''['', CHR ''{''}"
          using True by (auto simp: is_digit_def byte_def)
        obtain l where l: "parse_number [] (ungetc k) =
            (takeWhile number_char (position (ungetc k)), l)"
          "position l = dropWhile number_char (position (ungetc k))"
          using parse_number_view[of "[]" "ungetc k"] by auto
        have "j = l" "takeWhile number_char (position (ungetc k)) \<noteq> []"
          using 1 g Some c True l(1) number_of_token_cases(2) by (auto simp: Let_def)
        moreover have "length (takeWhile number_char xs) + length (dropWhile number_char xs) = length xs" for xs
          by (metis length_append takeWhile_dropWhile_id)
        ultimately show ?thesis using l(2) u le
          by (metis add.commute add_less_cancel_left length_greater_0_conv less_add_same_cancel1 order_less_le_trans)
      next
        case False
        with 1 g Some k show ?thesis
          using Suc.IH(2)[of "d - 1" "[]"] Suc.IH(3)[of d "[]"]
          by (auto simp: Let_def split: if_splits prod.splits option.splits
              dest!: literal_cases(2) parse_string_shrinks expect_shrinks)
            (fastforce dest: less_trans)+
      qed
    qed
  }
  {
    case 2
    then show ?case
      using Suc.IH(1)[of d i] Suc.IH(2)[of d]
      by (auto simp: Let_def split: if_splits prod.splits parsed.splits dest!: expect_shrinks)
        (fastforce dest: less_trans)+
  }
  {
    case 3
    then show ?case
      using Suc.IH(1)[of d] Suc.IH(3)[of d]
      by (auto simp: Let_def split: if_splits prod.splits parsed.splits option.splits
          dest!: expect_shrinks parse_string_shrinks)
        (fastforce dest: less_trans)+
  }
qed

text \<open>Each recursive call is one character further, so twice the length is enough fuel.\<close>

lemma parse_value_no_fuel:
  "2 * length (position i) + 1 \<le> fuel \<Longrightarrow> parse_value fuel d i \<noteq> No_fuel"
  "2 * length (position i) + 2 \<le> fuel \<Longrightarrow> parse_items fuel d xs i \<noteq> No_fuel"
  "2 * length (position i) + 2 \<le> fuel \<Longrightarrow> parse_members fuel d ms i \<noteq> No_fuel"
proof (induction fuel arbitrary: d i xs ms)
  case 0
  { case 1 then show ?case by simp }
  { case 2 then show ?case by simp }
  { case 3 then show ?case by simp }
next
  case (Suc fuel)
  {
    case 1
    obtain ch k where g: "getc (skip_ws i) = (ch, k)" by fastforce
    have le: "length (position (skip_ws i)) \<le> length (position i)" by (simp add: length_dropWhile)
    have k: "ch \<noteq> None \<Longrightarrow> length (position k) < length (position i)"
      using getc_shrinks[of "skip_ws i"] g le by fastforce
    have deeper: "2 * length (position l) + 2 \<le> fuel" if "ch \<noteq> None" "expect c k = (b, l)" for c b l
      using expect_shrinks[OF that(2)] k[OF that(1)] 1 by linarith
    show ?case
      using g Suc.IH(2)[OF deeper] Suc.IH(3)[OF deeper]
      by (auto simp: Let_def literal_cases number_of_token_cases split: prod.splits option.splits)
  }
  {
    case 2
    then have v: "parse_value fuel d i \<noteq> No_fuel" by (intro Suc.IH(1)) simp
    have deeper: "2 * length (position l) + 2 \<le> fuel"
      if "parse_value fuel d i = Parsed w k" "expect c k = (b, l)" for c b l w k
      using expect_shrinks[OF that(2)] parse_value_shrinks(1)[OF that(1)] 2 by linarith
    show ?case
      using v Suc.IH(2)[OF deeper]
      by (auto simp: Let_def split: prod.splits parsed.splits)
  }
  {
    case 3
    have inner: "parse_value fuel d l \<noteq> No_fuel"
      if "expect DQ i = (b, j)" "parse_string [] j = (Some key, k)" "expect c k = (b', l)" for b j key k c b' l
      by (rule Suc.IH(1))
        (use expect_shrinks[OF that(1)] parse_string_shrinks[OF that(2)] expect_shrinks[OF that(3)] 3 in linarith)
    have deeper: "2 * length (position n) + 2 \<le> fuel"
      if "expect DQ i = (b, j)" "parse_string [] j = (Some key, k)" "expect c k = (b', l)"
        "parse_value fuel d l = Parsed w m" "expect c' m = (b'', n)" for b j key k c b' l w m c' b'' n
      using expect_shrinks[OF that(1)] parse_string_shrinks[OF that(2)] expect_shrinks[OF that(3)]
        parse_value_shrinks(1)[OF that(4)] expect_shrinks[OF that(5)] 3 by linarith
    show ?case
      using inner Suc.IH(3)[OF deeper]
      by (auto simp: Let_def split: prod.splits parsed.splits option.splits)
  }
qed

text \<open>C27: the JSON parser always terminates with a verdict: on every input text, twice its length
  plus two steps of recursion are enough to accept it, reject it with a syntax error, or raise the
  overflow exception.\<close>
theorem parse_terminates: "parse_text s \<noteq> No_fuel"
  unfolding parse_text_def parse_fuel_def by (rule parse_value_no_fuel(1)) simp

end
