(* ===== verification/Picojson_Roundtrip.thy ===== *)
theory Picojson_Roundtrip
  imports Picojson_Parse Http
begin

text \<open>
  What the JSON library promises its clients: printing and parsing are inverse on values
  without doubles, arrays are bounded in nesting and objects are not, and text after the
  value is ignored. The gateway's own error bodies (\<^verbatim>\<open>src/Http.cpp\<close>) are read back by the
  same parser.
\<close>

section \<open>Escapes\<close>

text \<open>A text that the string parser turns into one given character.\<close>

inductive escapes :: "string \<Rightarrow> char \<Rightarrow> bool" where
  escapes_plain: "32 \<le> byte c \<Longrightarrow> c \<noteq> DQ \<Longrightarrow> c \<noteq> BSL \<Longrightarrow> escapes [c] c"
| escapes_simple: "simple_escape x = Some c \<Longrightarrow> escapes [BSL, x] c"
| escapes_unicode: "hex_value h1 = Some a \<Longrightarrow> hex_value h2 = Some b \<Longrightarrow> a * 16 + b = byte c \<Longrightarrow>
    byte c < 0x80 \<Longrightarrow> escapes [BSL, CHR ''u'', CHR ''0'', CHR ''0'', h1, h2] c"

lemma hex_value_digit: "d < 16 \<Longrightarrow> hex_value (hex_lower d) = Some d"
  by (auto simp: hex_value_def hex_lower_def byte_char_of)

lemma hex_digit_lower: "hex_digit d = hex_lower d"
  by (simp add: hex_digit_def hex_lower_def)

lemma escapes_u:
  "byte c < 0x80 \<Longrightarrow>
   escapes [BSL, CHR ''u'', CHR ''0'', CHR ''0'', hex_lower (byte c div 16), hex_lower (byte c mod 16)] c"
  by (rule escapes_unicode) (auto simp: hex_value_digit)

lemma escapes_known:
  "escapes [BSL, DQ] DQ" "escapes [BSL, BSL] BSL" "escapes [BSL, CHR ''/''] (CHR ''/'')"
  "escapes [BSL, CHR ''b''] BS" "escapes [BSL, CHR ''f''] FF" "escapes [BSL, CHR ''n''] LF"
  "escapes [BSL, CHR ''r''] CR" "escapes [BSL, CHR ''t''] TAB"
  by (rule escapes_simple, simp add: simple_escape_def)+

lemma escapes_serialize_char: "escapes (serialize_char c) c"
proof (cases "byte c < 0x20 \<or> c = DEL")
  case True
  then have "byte c < 0x80" by (auto simp: byte_def)
  from escapes_u[OF this] True show ?thesis
    unfolding serialize_char_def by (simp add: escapes_known)
next
  case False
  then have "c \<noteq> DQ \<Longrightarrow> c \<noteq> BSL \<Longrightarrow> escapes [c] c" by (intro escapes_plain) auto
  with False show ?thesis unfolding serialize_char_def by (simp add: escapes_known)
qed

lemma escapes_jsonEscape_char: "escapes (jsonEscape_char c) c"
proof (cases "byte c < 0x20")
  case True
  then have "byte c < 0x80" by simp
  from escapes_u[OF this] True show ?thesis
    unfolding jsonEscape_char_def u_escape_def hex_digit_lower by (simp add: escapes_known)
next
  case False
  then have "c \<noteq> DQ \<Longrightarrow> c \<noteq> BSL \<Longrightarrow> escapes [c] c" by (intro escapes_plain) auto
  with False show ?thesis unfolding jsonEscape_char_def by (simp add: escapes_known)
qed

lemma parse_hex_step:
  assumes "position i = h # r" "hex_value h = Some a"
  shows "\<exists>j. parse_hex (Suc k) acc i = parse_hex k (acc * 16 + a) j \<and> position j = r"
proof -
  obtain j where "getc i = (Some h, j)" "position j = r" using assms(1) by (rule getc_Cons)
  with assms(2) show ?thesis by (intro exI[of _ j]) simp
qed

lemma parse_codepoint_ascii:
  assumes "position i = CHR ''0'' # CHR ''0'' # h1 # h2 # r"
    and "hex_value h1 = Some a" "hex_value h2 = Some b" "a * 16 + b = byte c" "byte c < 0x80"
  shows "\<exists>j. parse_codepoint i = (Some [c], j) \<and> position j = r"
proof -
  have z: "hex_value (CHR ''0'') = Some 0" by (simp add: hex_value_def byte_def)
  obtain j1 where 1: "parse_hex 4 0 i = parse_hex 3 0 j1" "position j1 = CHR ''0'' # h1 # h2 # r"
    using parse_hex_step[OF assms(1) z, of 3 0] by (auto simp: numeral_eq_Suc)
  obtain j2 where 2: "parse_hex 3 0 j1 = parse_hex 2 0 j2" "position j2 = h1 # h2 # r"
    using parse_hex_step[OF 1(2) z, of 2 0] by (auto simp: numeral_eq_Suc)
  obtain j3 where 3: "parse_hex 2 0 j2 = parse_hex 1 a j3" "position j3 = h2 # r"
    using parse_hex_step[OF 2(2) assms(2), of 1 0] by (auto simp: numeral_eq_Suc)
  obtain j4 where 4: "parse_hex 1 a j3 = (Some (a * 16 + b), j4)" "position j4 = r"
    using parse_hex_step[OF 3(2) assms(3), of 0 a] by auto
  from 1 2 3 4 assms(4) have "parse_quadhex i = (Some (byte c), j4)"
    by (simp add: parse_quadhex_def)
  with assms(5) 4(2) show ?thesis by (simp add: parse_codepoint_def utf8_def)
qed

lemma parse_string_escape:
  assumes "escapes e c" and "position i = e @ r"
  shows "\<exists>j. parse_string out i = parse_string (out @ [c]) j \<and> position j = r"
proof -
  have b: "32 \<le> byte BSL" "BSL \<noteq> DQ" by (simp_all add: byte_def)
  from assms(1) show ?thesis
  proof cases
    case escapes_plain
    with assms(2) obtain j where "getc i = (Some c, j)" "position j = r"
      by (auto elim: getc_Cons)
    with escapes_plain parse_string_step(1)[of i c j out] show ?thesis by auto
  next
    case (escapes_simple x)
    with assms(2) obtain j where j: "getc i = (Some BSL, j)" "position j = x # r"
      by (auto elim: getc_Cons)
    from j(2) obtain k where k: "getc j = (Some x, k)" "position k = r" by (rule getc_Cons)
    from parse_string_step(2)[OF j(1) b refl k(1) escapes_simple(2), of out] k(2) show ?thesis by auto
  next
    case (escapes_unicode h1 a h2 b')
    with assms(2) obtain j where j: "getc i = (Some BSL, j)"
      "position j = CHR ''u'' # CHR ''0'' # CHR ''0'' # h1 # h2 # r"
      by (auto elim: getc_Cons)
    from j(2) obtain k where k: "getc j = (Some (CHR ''u''), k)"
      "position k = CHR ''0'' # CHR ''0'' # h1 # h2 # r" by (rule getc_Cons)
    obtain l where l: "parse_codepoint k = (Some [c], l)" "position l = r"
      using parse_codepoint_ascii[OF k(2) escapes_unicode(2-5)] by blast
    from parse_string_step(3)[OF j(1) b refl k(1) l(1), of out] l(2) show ?thesis by auto
  qed
qed

lemma parse_string_escaped:
  assumes esc: "\<And>c. escapes (f c) c"
  shows "position i = concat (map f s) @ DQ # r \<Longrightarrow>
    \<exists>j. parse_string out i = (Some (out @ s), j) \<and> position j = r"
proof (induction s arbitrary: i out)
  case Nil
  then obtain j where "getc i = (Some DQ, j)" "position j = r" by (auto elim: getc_Cons)
  moreover have "32 \<le> byte DQ" by (simp add: byte_def)
  ultimately show ?case by (subst parse_string.simps) simp
next
  case (Cons c s)
  then obtain j where "parse_string out i = parse_string (out @ [c]) j"
    "position j = concat (map f s) @ DQ # r"
    using parse_string_escape[OF esc, of i c "concat (map f s) @ DQ # r" out] by auto
  with Cons.IH[of j "out @ [c]"] show ?case by simp
qed

section \<open>Round trip of values\<close>

text \<open>
  Values without doubles whose objects are proper ordered maps; and the nesting that
  \<^verbatim>\<open>depths_\<close> allows, which counts arrays only.
\<close>

fun plain :: "json \<Rightarrow> bool"
and plain_items :: "json list \<Rightarrow> bool"
and plain_members :: "(string \<times> json) list \<Rightarrow> bool" where
  "plain (JNumber _) = False"
| "plain (JArray a) = plain_items a"
| "plain (JObject m) = (smap_ok m \<and> plain_members m)"
| "plain _ = True"
| "plain_items [] = True"
| "plain_items (v # vs) = (plain v \<and> plain_items vs)"
| "plain_members [] = True"
| "plain_members ((k, v) # m) = (plain v \<and> plain_members m)"

fun fits :: "nat \<Rightarrow> json \<Rightarrow> bool"
and fits_items :: "nat \<Rightarrow> json list \<Rightarrow> bool"
and fits_members :: "nat \<Rightarrow> (string \<times> json) list \<Rightarrow> bool" where
  "fits d (JArray a) = (0 < d \<and> fits_items (d - 1) a)"
| "fits d (JObject m) = (0 < d \<and> fits_members d m)"
| "fits d _ = True"
| "fits_items d [] = True"
| "fits_items d (v # vs) = (fits d v \<and> fits_items d vs)"
| "fits_members d [] = True"
| "fits_members d ((k, v) # m) = (fits d v \<and> fits_members d m)"

text \<open>Text that does not go on with a number.\<close>

definition no_number :: "string \<Rightarrow> bool" where
  "no_number r \<longleftrightarrow> r = [] \<or> \<not> number_char (hd r)"

lemma ws_simps [simp]:
  "\<not> json_ws (CHR ''n'')" "\<not> json_ws (CHR ''t'')" "\<not> json_ws (CHR ''f'')" "\<not> json_ws DQ"
  "\<not> json_ws (CHR ''['')" "\<not> json_ws (CHR ''{'')" "\<not> json_ws (CHR '']'')" "\<not> json_ws (CHR ''}'')"
  "\<not> json_ws (CHR '','')" "\<not> json_ws (CHR '':'')" "\<not> json_ws (CHR ''-'')"
  by (simp_all add: json_ws_def)

lemma is_digit_not_ws: "is_digit c \<Longrightarrow> \<not> json_ws c"
  by (auto simp: is_digit_def json_ws_def byte_def)

lemma getc_value:
  assumes "position i = c # r" and "\<not> json_ws c"
  obtains j where "getc (skip_ws i) = (Some c, j)" "position j = r" "position (ungetc j) = c # r"
proof -
  have "position (skip_ws i) = c # r" using assms by simp
  then show ?thesis by (rule getc_Cons) (rule that)
qed

lemma sint_range64: "- (2 ^ 63) \<le> sint (x :: 64 word)" "sint (x :: 64 word) < 2 ^ 63"
  using sint_range_size[of x] by (simp_all add: word_size)

lemma int_to_string_number_chars: "\<forall>c \<in> set (int_to_string i). number_char c"
  using to_string_digits by (auto simp: int_to_string_def number_char_def)

lemma int_to_string_head:
  "\<exists>c r. int_to_string i = c # r \<and> (is_digit c \<or> c = CHR ''-'')"
proof (cases "i < 0")
  case False
  then show ?thesis
    using hd_to_string[of "nat i"] by (cases "to_string (nat i)") (auto simp: int_to_string_def)
qed (simp add: int_to_string_def)

lemma parse_value_int:
  assumes "position i = int_to_string (sint x) @ r" and "no_number r"
  shows "\<exists>j. parse_value (Suc fuel) d i = Parsed (JInt x) j \<and> position j = r"
proof -
  obtain c t where t: "int_to_string (sint x) = c # t" and c: "is_digit c \<or> c = CHR ''-''"
    using int_to_string_head by blast
  have ws: "\<not> json_ws c" using c is_digit_not_ws by auto
  have other: "c \<notin> {CHR ''n'', CHR ''f'', CHR ''t'', DQ, CHR ''['', CHR ''{''}"
    using c by (auto simp: is_digit_def byte_def)
  obtain j where j: "getc (skip_ws i) = (Some c, j)" "position (ungetc j) = int_to_string (sint x) @ r"
    using getc_value[of i c "t @ r"] assms(1) t ws by auto
  have tw: "takeWhile number_char (int_to_string (sint x) @ r) = int_to_string (sint x)"
    "dropWhile number_char (int_to_string (sint x) @ r) = r"
    using assms(2) int_to_string_number_chars[of "sint x"]
    by (cases r; simp add: no_number_def takeWhile_append dropWhile_append)+
  obtain k where k: "parse_number [] (ungetc j) = (int_to_string (sint x), k)" "position k = r"
    using parse_number_view[of "[]" "ungetc j"] j(2) tw by auto
  have "number_of_token (int_to_string (sint x)) k = Parsed (JInt x) k"
    using sint_range64[of x] by (simp add: number_of_token_def strtol_scan_int_to_string)
  then show ?thesis using j(1) other c k by (auto simp: Let_def)
qed

lemma no_number_simps [simp]:
  "no_number []" "no_number (CHR '','' # r)" "no_number (CHR '']'' # r)" "no_number (CHR ''}'' # r)"
  by (simp_all add: no_number_def number_char_def is_digit_def byte_def)

definition reads_value :: "json \<Rightarrow> bool" where
  "reads_value v \<longleftrightarrow>
     (\<forall>fuel d i r. plain v \<longrightarrow> fits d v \<longrightarrow> position i = serialize_at None v @ r \<longrightarrow>
        (is_int64 v \<longrightarrow> no_number r) \<longrightarrow> 2 * length (position i) + 1 \<le> fuel \<longrightarrow>
        (\<exists>j. parse_value fuel d i = Parsed v j \<and> position j = r))"

definition reads_items :: "json list \<Rightarrow> bool" where
  "reads_items vs \<longleftrightarrow>
     (\<forall>fuel d acc i r. vs \<noteq> [] \<longrightarrow> plain_items vs \<longrightarrow> fits_items d vs \<longrightarrow>
        position i = serialize_items None True vs @ CHR '']'' # r \<longrightarrow>
        2 * length (position i) + 2 \<le> fuel \<longrightarrow>
        (\<exists>j. parse_items fuel d acc i = Parsed (JArray (acc @ vs)) j \<and> position j = r))"

definition reads_members :: "(string \<times> json) list \<Rightarrow> bool" where
  "reads_members m \<longleftrightarrow>
     (\<forall>fuel d acc i r. m \<noteq> [] \<longrightarrow> smap_ok (acc @ m) \<longrightarrow> plain_members m \<longrightarrow> fits_members d m \<longrightarrow>
        position i = serialize_members None True m @ CHR ''}'' # r \<longrightarrow>
        2 * length (position i) + 2 \<le> fuel \<longrightarrow>
        (\<exists>j. parse_members fuel d acc i = Parsed (JObject (acc @ m)) j \<and> position j = r))"

lemma serialize_items_more:
  "vs \<noteq> [] \<Longrightarrow> serialize_items None False vs = '','' @ serialize_items None True vs"
  "m \<noteq> [] \<Longrightarrow> serialize_members None False m = '','' @ serialize_members None True m"
  by (cases vs; simp) (cases m; auto)

lemma reads_literal:
  assumes "position i = c # t @ r" "\<not> json_ws c"
  shows "\<exists>j k. getc (skip_ws i) = (Some c, j) \<and> literal t v j = Parsed v k \<and> position k = r"
proof -
  obtain j where j: "getc (skip_ws i) = (Some c, j)" "position j = t @ r"
    using getc_value[OF assms] by blast
  from match_prefix[OF j(2)] obtain k where "match t j = (True, k)" "position k = r" by blast
  with j(1) show ?thesis by (auto simp: literal_def)
qed

lemma reads_null: "reads_value JNull"
  unfolding reads_value_def
proof (intro allI impI)
  fix fuel d i r
  assume "position i = serialize_at None JNull @ r" and f: "2 * length (position i) + 1 \<le> fuel"
  then obtain j k where "getc (skip_ws i) = (Some (CHR ''n''), j)" "literal ''ull'' JNull j = Parsed JNull k"
    "position k = r" using reads_literal[of i "CHR ''n''" "''ull''" r JNull] by (auto simp: newline_at_top_def)
  with f show "\<exists>j. parse_value fuel d i = Parsed JNull j \<and> position j = r"
    by (cases fuel) auto
qed

lemma reads_bool: "reads_value (JBool b)"
  unfolding reads_value_def
proof (intro allI impI)
  fix fuel d i r
  assume p: "position i = serialize_at None (JBool b) @ r" and f: "2 * length (position i) + 1 \<le> fuel"
  show "\<exists>j. parse_value fuel d i = Parsed (JBool b) j \<and> position j = r"
  proof (cases b)
    case True
    with p obtain j k where "getc (skip_ws i) = (Some (CHR ''t''), j)"
      "literal ''rue'' (JBool True) j = Parsed (JBool True) k" "position k = r"
      using reads_literal[of i "CHR ''t''" "''rue''" r "JBool True"] by (auto simp: newline_at_top_def)
    with f True show ?thesis by (cases fuel) auto
  next
    case False
    with p obtain j k where "getc (skip_ws i) = (Some (CHR ''f''), j)"
      "literal ''alse'' (JBool False) j = Parsed (JBool False) k" "position k = r"
      using reads_literal[of i "CHR ''f''" "''alse''" r "JBool False"] by (auto simp: newline_at_top_def)
    with f False show ?thesis by (cases fuel) auto
  qed
qed

lemma reads_string: "reads_value (JString s)"
  unfolding reads_value_def
proof (intro allI impI)
  fix fuel d i r
  assume p: "position i = serialize_at None (JString s) @ r" and f: "2 * length (position i) + 1 \<le> fuel"
  from p have "position i = DQ # concat (map serialize_char s) @ DQ # r"
    by (simp add: serialize_str_def newline_at_top_def)
  then obtain j where j: "getc (skip_ws i) = (Some DQ, j)"
    "position j = concat (map serialize_char s) @ DQ # r"
    using getc_value[of i DQ] by auto
  from parse_string_escaped[OF escapes_serialize_char j(2), of "[]"]
  obtain k where "parse_string [] j = (Some s, k)" "position k = r" by auto
  with j(1) f show "\<exists>j. parse_value fuel d i = Parsed (JString s) j \<and> position j = r"
    by (cases fuel) auto
qed

lemma reads_int: "reads_value (JInt x)"
  unfolding reads_value_def
proof (intro allI impI)
  fix fuel d i r
  assume "position i = serialize_at None (JInt x) @ r" "is_int64 (JInt x) \<longrightarrow> no_number r"
    and f: "2 * length (position i) + 1 \<le> fuel"
  then show "\<exists>j. parse_value fuel d i = Parsed (JInt x) j \<and> position j = r"
    using parse_value_int[of i x r "fuel - 1" d]
    by (cases fuel) (auto simp: newline_at_top_def is_int64_def)
qed

lemma reads_array:
  assumes "reads_items a"
  shows "reads_value (JArray a)"
  unfolding reads_value_def
proof (intro allI impI)
  fix fuel d i r
  assume pl: "plain (JArray a)" "fits d (JArray a)" and p: "position i = serialize_at None (JArray a) @ r"
    and f: "2 * length (position i) + 1 \<le> fuel"
  let ?t = "serialize_items None True a @ CHR '']'' # r"
  have pi: "position i = CHR ''['' # ?t"
    using p by (simp add: newline_at_top_def indent_str_def)
  then obtain j where j: "getc (skip_ws i) = (Some (CHR ''[''), j)" "position j = ?t"
    using getc_value[OF pi] by auto
  have d: "d \<noteq> 0" using pl(2) by simp
  obtain fuel' where fuel: "fuel = Suc fuel'" using f by (cases fuel) auto
  show "\<exists>j. parse_value fuel d i = Parsed (JArray a) j \<and> position j = r"
  proof (cases a)
    case Nil
    with j(2) obtain k where "expect (CHR '']'') j = (True, k)" "position k = r"
      using expect_yes[of j "CHR '']''" r] by auto
    with Nil j(1) d fuel show ?thesis by auto
  next
    case (Cons v vs)
    obtain c t where c: "serialize_at None v = c # t" "\<not> json_ws c" "c \<noteq> CHR '']''"
    proof (cases v)
      case (JBool b) then show ?thesis using that by (cases b) (auto simp: newline_at_top_def)
    next
      case (JInt x)
      obtain c t where "int_to_string (sint x) = c # t" "is_digit c \<or> c = CHR ''-''"
        using int_to_string_head by blast
      then have "\<not> json_ws c" "c \<noteq> CHR '']''"
        using is_digit_not_ws[of c] by (auto simp: is_digit_def byte_def)
      with JInt that \<open>int_to_string (sint x) = c # t\<close> show ?thesis by (simp add: newline_at_top_def)
    qed (use that pl(1) Cons in \<open>auto simp: newline_at_top_def serialize_str_def\<close>)
    obtain k where k: "expect (CHR '']'') j = (False, k)" "position k = ?t"
      using expect_no[of j c _ "CHR '']''"] j(2) c Cons by (auto simp: indent_str_def)
    have "2 * length (position k) + 2 \<le> fuel'" using f fuel pi k(2) by simp
    with assms pl k(2) Cons obtain l where "parse_items fuel' (d - 1) [] k = Parsed (JArray ([] @ a)) l" "position l = r"
      unfolding reads_items_def by (metis fits.simps(1) list.distinct(1) plain.simps(2))
    with j(1) k(1) d fuel show ?thesis by auto
  qed
qed

lemma reads_object:
  assumes "reads_members m"
  shows "reads_value (JObject m)"
  unfolding reads_value_def
proof (intro allI impI)
  fix fuel d i r
  assume pl: "plain (JObject m)" "fits d (JObject m)" and p: "position i = serialize_at None (JObject m) @ r"
    and f: "2 * length (position i) + 1 \<le> fuel"
  let ?t = "serialize_members None True m @ CHR ''}'' # r"
  have pi: "position i = CHR ''{'' # ?t"
    using p by (simp add: newline_at_top_def indent_str_def)
  then obtain j where j: "getc (skip_ws i) = (Some (CHR ''{''), j)" "position j = ?t"
    using getc_value[OF pi] by auto
  have d: "d \<noteq> 0" using pl(2) by simp
  obtain fuel' where fuel: "fuel = Suc fuel'" using f by (cases fuel) auto
  show "\<exists>j. parse_value fuel d i = Parsed (JObject m) j \<and> position j = r"
  proof (cases m)
    case Nil
    with j(2) obtain k where "expect (CHR ''}'') j = (True, k)" "position k = r"
      using expect_yes[of j "CHR ''}''" r] by auto
    with Nil j(1) d fuel show ?thesis by auto
  next
    case (Cons e es)
    obtain key v where e: "e = (key, v)" by (cases e)
    obtain k where k: "expect (CHR ''}'') j = (False, k)" "position k = ?t"
      using expect_no[of j DQ _ "CHR ''}''"] j(2) Cons e by (auto simp: indent_str_def serialize_str_def)
    have "2 * length (position k) + 2 \<le> fuel'" using f fuel pi k(2) by simp
    with assms pl k(2) Cons obtain l where "parse_members fuel' d [] k = Parsed (JObject ([] @ m)) l" "position l = r"
      unfolding reads_members_def by (metis append_Nil fits.simps(2) list.distinct(1) plain.simps(3))
    with j(1) k(1) d fuel show ?thesis by auto
  qed
qed

lemma reads_items_Cons:
  assumes v: "reads_value v" and vs: "reads_items vs"
  shows "reads_items (v # vs)"
  unfolding reads_items_def
proof (intro allI impI)
  fix fuel d acc i r
  assume pl: "plain_items (v # vs)" "fits_items d (v # vs)"
    and p: "position i = serialize_items None True (v # vs) @ CHR '']'' # r"
    and f: "2 * length (position i) + 2 \<le> fuel"
  let ?t = "serialize_items None False vs @ CHR '']'' # r"
  obtain fuel' where fuel: "fuel = Suc fuel'" using f by (cases fuel) auto
  have "no_number ?t" by (cases vs) auto
  moreover have pi: "position i = serialize_at None v @ ?t" using p by (simp add: indent_str_def)
  ultimately obtain j where j: "parse_value fuel' d i = Parsed v j" "position j = ?t"
    using v pl f fuel unfolding reads_value_def by fastforce
  show "\<exists>j. parse_items fuel d acc i = Parsed (JArray (acc @ v # vs)) j \<and> position j = r"
  proof (cases vs)
    case Nil
    with j(2) obtain k where k: "expect (CHR '','') j = (False, k)" "position k = CHR '']'' # r"
      using expect_no[of j "CHR '']''" r "CHR '',''"] by auto
    then obtain l where "expect (CHR '']'') k = (True, l)" "position l = r"
      using expect_yes[of k "CHR '']''" r] by auto
    with j(1) k(1) Nil fuel show ?thesis by auto
  next
    case (Cons w ws)
    then have "?t = CHR '','' # serialize_items None True vs @ CHR '']'' # r"
      by (simp add: serialize_items_more)
    with j(2) obtain k where k: "expect (CHR '','') j = (True, k)"
      "position k = serialize_items None True vs @ CHR '']'' # r"
      using expect_yes[of j "CHR '',''"] by auto
    have "length (position k) < length (position i)"
      using expect_shrinks[OF k(1)] parse_value_shrinks(1)[OF j(1)] by linarith
    then have "2 * length (position k) + 2 \<le> fuel'" using f fuel by linarith
    with vs pl k(2) Cons obtain l where
      "parse_items fuel' d (acc @ [v]) k = Parsed (JArray ((acc @ [v]) @ vs)) l" "position l = r"
      unfolding reads_items_def by (metis fits_items.simps(2) list.distinct(1) plain_items.simps(2))
    with j(1) k(1) fuel show ?thesis by auto
  qed
qed

lemma reads_members_Cons:
  assumes v: "reads_value v" and m: "reads_members m"
  shows "reads_members ((key, v) # m)"
  unfolding reads_members_def
proof (intro allI impI)
  fix fuel d acc i r
  assume ok: "smap_ok (acc @ (key, v) # m)" and pl: "plain_members ((key, v) # m)" "fits_members d ((key, v) # m)"
    and p: "position i = serialize_members None True ((key, v) # m) @ CHR ''}'' # r"
    and f: "2 * length (position i) + 2 \<le> fuel"
  let ?t = "serialize_members None False m @ CHR ''}'' # r"
  obtain fuel' where fuel: "fuel = Suc fuel'" using f by (cases fuel) auto
  have pi: "position i = DQ # concat (map serialize_char key) @ DQ # CHR '':'' # serialize_at None v @ ?t"
    using p by (simp add: indent_str_def serialize_str_def)
  obtain j where j: "expect DQ i = (True, j)"
    "position j = concat (map serialize_char key) @ DQ # CHR '':'' # serialize_at None v @ ?t"
    using expect_yes[OF pi] by auto
  obtain k where k: "parse_string [] j = (Some key, k)" "position k = CHR '':'' # serialize_at None v @ ?t"
    using parse_string_escaped[OF escapes_serialize_char j(2), of "[]"] by auto
  obtain l where l: "expect (CHR '':'') k = (True, l)" "position l = serialize_at None v @ ?t"
    using expect_yes[OF k(2)] by auto
  have len: "length (position l) < length (position i)"
    using expect_shrinks[OF j(1)] parse_string_shrinks[OF k(1)] expect_shrinks[OF l(1)] by linarith
  have "no_number ?t" by (cases m) auto
  moreover have "2 * length (position l) + 1 \<le> fuel'" using len f fuel by linarith
  moreover have "plain v" "fits d v" using pl by simp_all
  ultimately obtain n where n: "parse_value fuel' d l = Parsed v n" "position n = ?t"
    using v l(2) unfolding reads_value_def by blast
  have put: "smap_put key v acc = acc @ [(key, v)]"
    using ok by (intro smap_put_last) (auto simp: smap_ok_def sorted_wrt_append)
  show "\<exists>j. parse_members fuel d acc i = Parsed (JObject (acc @ (key, v) # m)) j \<and> position j = r"
  proof (cases m)
    case Nil
    with n(2) obtain q where q: "expect (CHR '','') n = (False, q)" "position q = CHR ''}'' # r"
      using expect_no[of n "CHR ''}''" r "CHR '',''"] by auto
    then obtain o' where "expect (CHR ''}'') q = (True, o')" "position o' = r"
      using expect_yes[of q "CHR ''}''" r] by auto
    with j(1) k(1) l(1) n(1) q(1) Nil fuel put show ?thesis by auto
  next
    case (Cons e es)
    then have "?t = CHR '','' # serialize_members None True m @ CHR ''}'' # r"
      by (simp add: serialize_items_more)
    with n(2) obtain q where q: "expect (CHR '','') n = (True, q)"
      "position q = serialize_members None True m @ CHR ''}'' # r"
      using expect_yes[of n "CHR '',''"] by auto
    have "length (position q) < length (position i)"
      using expect_shrinks[OF q(1)] parse_value_shrinks(1)[OF n(1)] len by linarith
    then have "2 * length (position q) + 2 \<le> fuel'" using f fuel by linarith
    moreover have "smap_ok ((acc @ [(key, v)]) @ m)" using ok by simp
    ultimately obtain o' where
      "parse_members fuel' d (acc @ [(key, v)]) q = Parsed (JObject ((acc @ [(key, v)]) @ m)) o'"
      "position o' = r"
      using m pl q(2) Cons unfolding reads_members_def
      by (metis fits_members.simps(2) list.distinct(1) plain_members.simps(2))
    with j(1) k(1) l(1) n(1) q(1) fuel put show ?thesis by auto
  qed
qed

lemma reads_none: "reads_items []" "reads_members []"
  by (simp_all add: reads_items_def reads_members_def)

lemma reads_all: "reads_value v" "reads_items vs" "reads_members m"
proof (induction v and vs and m rule: plain_plain_items_plain_members.induct)
  case (1 n)
  then show ?case by (simp add: reads_value_def)
qed (simp_all add: reads_null reads_bool reads_string reads_int reads_array reads_object reads_items_Cons
    reads_members_Cons reads_none del: plain.simps)

section \<open>What the library promises\<close>

lemma parse_reads:
  assumes "reads_value v" "plain v" "fits 100 v" "is_int64 v \<longrightarrow> no_number r"
  shows "parse (serialize_at None v @ r) = Inr (Inr v)"
proof -
  let ?s = "serialize_at None v @ r"
  have "position (new_input ?s) = ?s" "2 * length (position (new_input ?s)) + 1 \<le> parse_fuel ?s"
    by (simp_all add: parse_fuel_def)
  with assms obtain j where "parse_value (parse_fuel ?s) 100 (new_input ?s) = Parsed v j"
    unfolding reads_value_def by blast
  then show ?thesis by (simp add: parse_def parse_text_def default_max_depths_def)
qed

text \<open>C26:
  Parsing what \<^verbatim>\<open>serialize\<close> printed gives the value back, for every value without doubles whose
  arrays nest at most 100 deep, whatever text follows it: the parser stops after the value and
  reports no error for what is left (behind an integer the rest must not go on with the number).
\<close>

theorem parse_serialize:
  assumes "plain v" and "fits 100 v" and "is_int64 v \<longrightarrow> no_number r"
  shows "parse (serialize False v @ r) = Inr (Inr v)"
  using parse_reads[OF reads_all(1) assms] by (simp add: serialize_def)

lemma parse_serialize_witness:
  "parse (serialize False (JObject [(''a'', JArray [JInt 7, JNull]), (''b'', JString [DQ, LF])]) @ ''] junk'') =
   Inr (Inr (JObject [(''a'', JArray [JInt 7, JNull]), (''b'', JString [DQ, LF])]))"
  by (rule parse_serialize) (simp_all add: smap_ok_def is_int64_def)

text \<open>Objects within objects, and arrays that only open.\<close>

fun nested :: "nat \<Rightarrow> json" where
  "nested 0 = JNull"
| "nested (Suc n) = JObject [(''a'', nested n)]"

lemma nested_ok: "plain (nested n)" "0 < d \<Longrightarrow> fits d (nested n)" "\<not> is_int64 (nested n)"
  by (induction n) (simp_all add: smap_ok_def is_int64_def)

lemma open_brackets_rejected:
  "position i = replicate n (CHR ''['') @ r \<Longrightarrow> d < n \<Longrightarrow>
   \<exists>j. parse_value fuel d i = Rejected j \<or> parse_value fuel d i = No_fuel"
proof (induction n arbitrary: d i fuel)
  case (Suc n)
  show ?case
  proof (cases fuel)
    case (Suc fuel')
    from Suc.prems(1) have "position i = CHR ''['' # replicate n (CHR ''['') @ r" by simp
    then obtain j where j: "getc (skip_ws i) = (Some (CHR ''[''), j)"
      "position j = replicate n (CHR ''['') @ r"
      using getc_value[of i "CHR ''[''"] by auto
    show ?thesis
    proof (cases d)
      case 0
      with Suc j(1) show ?thesis by auto
    next
      case d: (Suc d')
      then obtain m where m: "n = Suc m" using Suc.prems(2) by (cases n) auto
      then obtain k where k: "expect (CHR '']'') j = (False, k)" "position k = replicate n (CHR ''['') @ r"
        using expect_no[of j "CHR ''[''" "replicate m (CHR ''['') @ r" "CHR '']''"] j(2) by auto
      show ?thesis
      proof (cases fuel')
        case (Suc fuel'')
        from Suc.IH[OF k(2), of d' fuel''] Suc.prems(2) d
        show ?thesis using \<open>fuel = Suc fuel'\<close> Suc d j(1) k(1) by (auto split: parsed.splits)
      qed (use \<open>fuel = Suc fuel'\<close> d j(1) k(1) in auto)
    qed
  qed simp
qed simp

text \<open>
  The nesting limit of 100 binds arrays only: a text that opens more than 100 arrays is a syntax
  error whatever follows, and objects nested to any depth at all are read back (for them the
  parser recurses without a bound on the stack, \<^verbatim>\<open>parse_object_start\<close> does not count).
\<close>

theorem nesting_limit:
  "(\<exists>e. parse (replicate (101 + k) (CHR ''['') @ r) = Inr (Inl e)) \<and>
   parse (serialize False (nested n)) = Inr (Inr (nested n))"
proof
  let ?s = "replicate (101 + k) (CHR ''['') @ r"
  have "\<exists>j. parse_text ?s = Rejected j \<or> parse_text ?s = No_fuel"
    unfolding parse_text_def default_max_depths_def by (rule open_brackets_rejected) auto
  then obtain j where "parse_text ?s = Rejected j"
    using parse_value_no_fuel(1)[of "new_input ?s" "parse_fuel ?s" 100]
    by (auto simp: parse_text_def parse_fuel_def default_max_depths_def)
  then show "\<exists>e. parse ?s = Inr (Inl e)"
    by (simp add: parse_def)
  show "parse (serialize False (nested n)) = Inr (Inr (nested n))"
    using parse_reads[OF reads_all(1), of "nested n" "[]"] nested_ok by (simp add: serialize_def)
qed

text \<open>A flat object of strings, its strings escaped by any sound escaping.\<close>

lemma parse_member_string:
  assumes esc: "\<And>c. escapes (f c) c"
    and p: "position i = DQ # concat (map serialize_char k) @ DQ # CHR '':'' # DQ # concat (map f t) @ DQ # c # r"
    and c: "c = CHR '','' \<or> c = CHR ''}''"
  shows "\<exists>q. position q = r \<and> parse_members (Suc (Suc n)) d acc i =
    (if c = CHR '','' then parse_members (Suc n) d (smap_put k (JString t) acc) q
     else Parsed (JObject (smap_put k (JString t) acc)) q)"
proof -
  obtain j where j: "expect DQ i = (True, j)"
    "position j = concat (map serialize_char k) @ DQ # CHR '':'' # DQ # concat (map f t) @ DQ # c # r"
    using expect_yes[OF p] by auto
  obtain l where l: "parse_string [] j = (Some k, l)"
    "position l = CHR '':'' # DQ # concat (map f t) @ DQ # c # r"
    using parse_string_escaped[OF escapes_serialize_char j(2), of "[]"] by auto
  obtain m where m: "expect (CHR '':'') l = (True, m)" "position m = DQ # concat (map f t) @ DQ # c # r"
    using expect_yes[OF l(2)] by auto
  obtain m' where m': "getc (skip_ws m) = (Some DQ, m')" "position m' = concat (map f t) @ DQ # c # r"
    using getc_value[OF m(2)] by auto
  obtain o' where o': "parse_string [] m' = (Some t, o')" "position o' = c # r"
    using parse_string_escaped[OF esc m'(2), of "[]"] by auto
  have v: "parse_value (Suc n) d m = Parsed (JString t) o'" using m'(1) o'(1) by simp
  from c show ?thesis
  proof
    assume "c = CHR '',''"
    moreover from this obtain q where "expect (CHR '','') o' = (True, q)" "position q = r"
      using expect_yes[OF o'(2)] by auto
    ultimately show ?thesis
      using j(1) l(1) m(1) v by (auto simp: parse_members.simps(2) simp del: parse_value.simps)
  next
    assume c: "c = CHR ''}''"
    then obtain q where q: "expect (CHR '','') o' = (False, q)" "position q = CHR ''}'' # r"
      using expect_no[OF o'(2), of "CHR '',''"] by auto
    then obtain q' where "expect (CHR ''}'') q = (True, q')" "position q' = r"
      using expect_yes[OF q(2)] by auto
    with c q(1) show ?thesis
      using j(1) l(1) m(1) v by (auto simp: parse_members.simps(2) simp del: parse_value.simps)
  qed
qed

text \<open>
  The body of every error answer of the gateway is a JSON object which the JSON library reads back
  as exactly the code and the message, whatever characters (quotes, control characters, bytes above
  127) they contain: \<^verbatim>\<open>jsonEscape\<close> is a sound escaping.
\<close>

theorem parse_jsonError:
  "parse (resp_body (jsonError st code msg)) =
     Inr (Inr (JObject [(''error'', JString code), (''message'', JString msg)]))"
proof -
  let ?m = "CHR '','' # DQ # concat (map serialize_char ''message'') @ DQ # CHR '':'' # DQ # jsonEscape msg @ DQ # ''}''"
  let ?s = "DQ # concat (map serialize_char ''error'') @ DQ # CHR '':'' # DQ # jsonEscape code @ DQ # ?m"
  have s: "resp_body (jsonError st code msg) = CHR ''{'' # ?s"
    by (simp add: jsonError_def serialize_char_def byte_def)
  obtain n where fuel: "parse_fuel (CHR ''{'' # ?s) = Suc (Suc (Suc (Suc n)))"
    by (simp add: parse_fuel_def)
  obtain j where j: "getc (skip_ws (new_input (CHR ''{'' # ?s))) = (Some (CHR ''{''), j)" "position j = ?s"
    using getc_value[of "new_input (CHR ''{'' # ?s)" "CHR ''{''" ?s] by auto
  then obtain k where k: "expect (CHR ''}'') j = (False, k)" "position k = ?s"
    using expect_no[of j DQ _ "CHR ''}''"] by auto
  obtain l where l: "position l = tl ?m" "parse_members (Suc (Suc (Suc n))) 100 [] k =
      parse_members (Suc (Suc n)) 100 (smap_put ''error'' (JString code) []) l"
    using parse_member_string[OF escapes_jsonEscape_char, of k "''error''" code "CHR '',''" "tl ?m" "Suc n" 100 "[]"]
      k(2) by (auto simp: jsonEscape_def)
  obtain q where "parse_members (Suc (Suc n)) 100 (smap_put ''error'' (JString code) []) l =
      Parsed (JObject (smap_put ''message'' (JString msg) (smap_put ''error'' (JString code) []))) q"
    using parse_member_string[OF escapes_jsonEscape_char, of l "''message''" msg "CHR ''}''" "[]" n 100
        "smap_put ''error'' (JString code) []"] l(1) by (auto simp: jsonEscape_def)
  with l(2) j(1) k(1) have "parse_text (CHR ''{'' # ?s) =
      Parsed (JObject [(''error'', JString code), (''message'', JString msg)]) q"
    unfolding parse_text_def fuel default_max_depths_def by (auto simp del: parse_members.simps)
  then show ?thesis
    unfolding s parse_def by simp
qed

end
