(* ===== verification/Picojson_Null.thy ===== *)
theory Picojson_Null
  imports Picojson_Roundtrip
begin

text \<open>
  The parser of \<^verbatim>\<open>picojson.h\<close> with a \<^verbatim>\<open>null_parse_context\<close>: it checks a text and builds nothing. One
  context serves the whole text, so its counter \<^verbatim>\<open>depths_\<close> is state: it goes into each function and
  comes out with the result. Nothing constructs a number, so nothing throws. The fuel is that of the
  parser with the default context.
\<close>

section \<open>The parser that builds nothing\<close>

definition skip_literal :: "string \<Rightarrow> nat \<Rightarrow> input \<Rightarrow> nat parsed" where
  "skip_literal text d i = (let (ok, j) = match text i in if ok then Parsed d j else Rejected j)"

definition number_token_ok :: "string \<Rightarrow> bool" where
  "number_token_ok s \<longleftrightarrow>
     (if s = [] then False
      else
        (case strtol_scan s of
           Some (v, []) \<Rightarrow>
             if - (2 ^ 63) \<le> v \<and> v < 2 ^ 63 then True
             else (case strtod_scan s of Some (f, []) \<Rightarrow> True | _ \<Rightarrow> False)
         | _ \<Rightarrow> (case strtod_scan s of Some (f, []) \<Rightarrow> True | _ \<Rightarrow> False)))"

fun skip_value :: "nat \<Rightarrow> nat \<Rightarrow> input \<Rightarrow> nat parsed"
and skip_items :: "nat \<Rightarrow> nat \<Rightarrow> input \<Rightarrow> nat parsed"
and skip_members :: "nat \<Rightarrow> nat \<Rightarrow> input \<Rightarrow> nat parsed" where
  "skip_value 0 d i = No_fuel"
| "skip_value (Suc fuel) d i =
     (let (ch, j) = getc (skip_ws i)
      in if ch = Some (CHR ''n'') then skip_literal ''ull'' d j
         else if ch = Some (CHR ''f'') then skip_literal ''alse'' d j
         else if ch = Some (CHR ''t'') then skip_literal ''rue'' d j
         else if ch = Some DQ then
           (case parse_string [] j of
              (Some s, k) \<Rightarrow> Parsed d k
            | (None, k) \<Rightarrow> Rejected k)
         else if ch = Some (CHR ''['') then
           (if d = 0 then Rejected j
            else
              (let (stop, k) = expect (CHR '']'') j
               in if stop then Parsed (Suc (d - 1)) k else skip_items fuel (d - 1) k))
         else if ch = Some (CHR ''{'') then
           (if d = 0 then Rejected j
            else
              (let (stop, k) = expect (CHR ''}'') j
               in if stop then Parsed (d - 1) k else skip_members fuel (d - 1) k))
         else if (case ch of Some c \<Rightarrow> is_digit c \<or> c = CHR ''-'' | None \<Rightarrow> False) then
           (let (s, k) = parse_number [] (ungetc j)
            in if number_token_ok s then Parsed d k else Rejected k)
         else Rejected (ungetc j))"
| "skip_items 0 d i = No_fuel"
| "skip_items (Suc fuel) d i =
     (case skip_value fuel d i of
        Parsed d1 j \<Rightarrow>
          (let (more, k) = expect (CHR '','') j
           in if more then skip_items fuel d1 k
              else
                (let (stop, l) = expect (CHR '']'') k
                 in if stop then Parsed (Suc d1) l else Rejected l))
      | other \<Rightarrow> other)"
| "skip_members 0 d i = No_fuel"
| "skip_members (Suc fuel) d i =
     (let (quote, j) = expect DQ i
      in if \<not> quote then Rejected j
         else
           (case parse_string [] j of
              (None, k) \<Rightarrow> Rejected k
            | (Some key, k) \<Rightarrow>
                (let (colon, l) = expect (CHR '':'') k
                 in if \<not> colon then Rejected l
                    else
                      (case skip_value fuel (Suc d) l of
                         Parsed d1 m \<Rightarrow>
                           (let (more, n) = expect (CHR '','') m
                            in if more then skip_members fuel d1 n
                               else
                                 (let (stop, q) = expect (CHR ''}'') n
                                  in if stop then Parsed d1 q else Rejected q))
                       | other \<Rightarrow> other))))"

definition null_parse :: "string \<Rightarrow> nat parsed" where
  "null_parse s = skip_value (parse_fuel s) default_max_depths (new_input s)"

section \<open>What is accepted\<close>

text \<open>How a result with the default context follows a result of this parser.\<close>

definition same_end :: "input \<Rightarrow> json parsed \<Rightarrow> bool" where
  "same_end j r \<longleftrightarrow> (\<exists>v. r = Parsed v j) \<or> (\<exists>x k. r = Thrown x k)"

lemma same_end_simps [simp]: "same_end j (Parsed v k) \<longleftrightarrow> j = k" "same_end j (Thrown x k)"
  by (auto simp: same_end_def)

lemma number_token_cases:
  "number_token_ok s \<Longrightarrow> same_end j (number_of_token s j)"
  "number_of_token s j = Parsed v k \<Longrightarrow> number_token_ok s \<and> k = j"
  by (auto simp: number_token_ok_def number_of_token_def split: option.splits list.splits sum.splits if_splits)

lemma skip_then_parse:
  "skip_value fuel e i = Parsed e' j \<Longrightarrow> fuel \<le> d \<Longrightarrow> same_end j (parse_value fuel d i)"
  "skip_items fuel e i = Parsed e' j \<Longrightarrow> fuel \<le> d \<Longrightarrow> same_end j (parse_items fuel d xs i)"
  "skip_members fuel e i = Parsed e' j \<Longrightarrow> fuel \<le> d \<Longrightarrow> same_end j (parse_members fuel d ms i)"
proof (induction fuel arbitrary: e e' i j d xs ms)
  case 0
  { case 1 then show ?case by simp }
  { case 2 then show ?case by simp }
  { case 3 then show ?case by simp }
next
  case (Suc fuel)
  {
    case 1
    then obtain d' where d: "d = Suc d'" "fuel \<le> d'" by (cases d) auto
    obtain ch k where g: "getc (skip_ws i) = (ch, k)" by fastforce
    obtain s l where n: "parse_number [] (ungetc k) = (s, l)" by fastforce
    obtain str l' where q: "parse_string [] k = (str, l')" by fastforce
    obtain b m where a: "expect (CHR '']'') k = (b, m)" by fastforce
    obtain b' m' where o: "expect (CHR ''}'') k = (b', m')" by fastforce
    note IH = Suc.IH(2)[of "e - 1" m e' j d' "[]"] Suc.IH(3)[of "e - 1" m' e' j d "[]"]
    show ?case
      using 1(1) d(2) IH number_token_cases(1)[of s l]
      by (simp add: d(1) g n q a o skip_literal_def literal_def del: match.simps split: if_splits prod.splits option.splits)
  }
  {
    case 2
    then have d: "fuel \<le> d" by simp
    from 2 obtain e1 k where s: "skip_value fuel e i = Parsed e1 k" by (auto split: parsed.splits)
    obtain b l where c: "expect (CHR '','') k = (b, l)" by fastforce
    obtain b' l' where o: "expect (CHR '']'') l = (b', l')" by fastforce
    have "same_end k (parse_value fuel d i)" by (rule Suc.IH(1)[OF s d])
    then show ?case
    proof (cases "parse_value fuel d i")
      case (Parsed v k')
      with \<open>same_end k (parse_value fuel d i)\<close> have "k' = k" by simp
      then show ?thesis using 2(1) Suc.IH(2)[OF _ d, of e1 l e' j "xs @ [v]"]
        by (auto simp: Parsed s c o split: if_splits)
    qed (simp_all add: same_end_def)
  }
  {
    case 3
    then have d: "fuel \<le> d" by simp
    obtain b1 j1 where q: "expect DQ i = (b1, j1)" by fastforce
    obtain key j2 where k: "parse_string [] j1 = (key, j2)" by fastforce
    obtain b3 j3 where c: "expect (CHR '':'') j2 = (b3, j3)" by fastforce
    from 3(1) obtain e1 j4 where s: "skip_value fuel (Suc e) j3 = Parsed e1 j4" and yes: "b1" "b3" "key \<noteq> None"
      by (auto simp: q k c split: if_splits option.splits parsed.splits)
    obtain b5 j5 where m: "expect (CHR '','') j4 = (b5, j5)" by fastforce
    obtain b6 j6 where o: "expect (CHR ''}'') j5 = (b6, j6)" by fastforce
    have "same_end j4 (parse_value fuel d j3)" by (rule Suc.IH(1)[OF s d])
    then show ?case
    proof (cases "parse_value fuel d j3")
      case (Parsed v k')
      with \<open>same_end j4 (parse_value fuel d j3)\<close> have "k' = j4" by simp
      then show ?thesis using 3(1) yes Suc.IH(3)[OF _ d, of e1 j5 e' j "smap_put (the key) v ms"]
        by (auto simp: Parsed q k c s m o split: if_splits)
    qed (use yes in \<open>auto simp: q k c same_end_def\<close>)
  }
qed

text \<open>A counter as large as what is left of the text is large enough.\<close>

lemma parse_then_skip:
  "parse_value fuel d i = Parsed v j \<Longrightarrow> length (position i) \<le> e \<Longrightarrow>
     \<exists>e'. skip_value fuel e i = Parsed e' j \<and> length (position j) \<le> e'"
  "parse_items fuel d xs i = Parsed v j \<Longrightarrow> length (position i) \<le> e \<Longrightarrow>
     \<exists>e'. skip_items fuel e i = Parsed e' j \<and> length (position j) \<le> e'"
  "parse_members fuel d ms i = Parsed v j \<Longrightarrow> length (position i) \<le> e \<Longrightarrow>
     \<exists>e'. skip_members fuel e i = Parsed e' j \<and> length (position j) \<le> e'"
proof (induction fuel arbitrary: d e i v j xs ms)
  case 0
  { case 1 then show ?case by simp }
  { case 2 then show ?case by simp }
  { case 3 then show ?case by simp }
next
  case (Suc fuel)
  {
    case 1
    obtain ch k where g: "getc (skip_ws i) = (ch, k)" by fastforce
    obtain s l where n: "parse_number [] (ungetc k) = (s, l)" by fastforce
    obtain str l' where q: "parse_string [] k = (str, l')" by fastforce
    obtain b m where a: "expect (CHR '']'') k = (b, m)" by fastforce
    obtain b' m' where o: "expect (CHR ''}'') k = (b', m')" by fastforce
    have all: "length (position j) \<le> e" using parse_value_shrinks(1)[OF 1(1)] 1(2) by simp
    have le: "ch \<noteq> None \<Longrightarrow> length (position m) \<le> e - 1 \<and> length (position m') \<le> e - 1 \<and> 0 < e"
      using getc_shrinks[of "skip_ws i"] g expect_shrinks[OF a] expect_shrinks[OF o] 1(2)
        length_dropWhile[of json_ws "position i"] by fastforce
    note IH = Suc.IH(2)[of "d - 1" "[]" m v j "e - 1"] Suc.IH(3)[of d "[]" m' v j "e - 1"]
    show ?case
      using 1(1) le all IH number_token_cases(2)[of s l v j]
      by (simp add: g n q a o skip_literal_def literal_def del: match.simps split: if_splits prod.splits option.splits)
  }
  {
    case 2
    from 2(1) obtain w k where v: "parse_value fuel d i = Parsed w k" by (auto split: parsed.splits)
    obtain e1 where s: "skip_value fuel e i = Parsed e1 k" "length (position k) \<le> e1" using Suc.IH(1)[OF v 2(2)] by auto
    obtain b l where c: "expect (CHR '','') k = (b, l)" by fastforce
    obtain b' l' where o: "expect (CHR '']'') l = (b', l')" by fastforce
    have "length (position l) \<le> e1" "length (position l') \<le> e1"
      using expect_shrinks[OF c] expect_shrinks[OF o] s(2) by auto
    then show ?case using 2(1) Suc.IH(2)[of d "xs @ [w]" l v j e1] by (auto simp: v s c o split: if_splits)
  }
  {
    case 3
    obtain b1 j1 where q: "expect DQ i = (b1, j1)" by fastforce
    obtain key j2 where k: "parse_string [] j1 = (key, j2)" by fastforce
    obtain b3 j3 where c: "expect (CHR '':'') j2 = (b3, j3)" by fastforce
    from 3(1) obtain w j4 where v: "parse_value fuel d j3 = Parsed w j4" and yes: "b1" "b3" "key \<noteq> None"
      by (auto simp: q k c split: if_splits option.splits parsed.splits)
    have "length (position j3) \<le> Suc e"
      using 3(2) expect_shrinks[OF q] expect_shrinks[OF c] parse_string_shrinks[of "[]" j1 "the key" j2] k yes(3) by auto
    with Suc.IH(1)[OF v] obtain e1 where s: "skip_value fuel (Suc e) j3 = Parsed e1 j4" "length (position j4) \<le> e1" by auto
    obtain b5 j5 where m: "expect (CHR '','') j4 = (b5, j5)" by fastforce
    obtain b6 j6 where o: "expect (CHR ''}'') j5 = (b6, j6)" by fastforce
    have "length (position j5) \<le> e1" "length (position j6) \<le> e1"
      using expect_shrinks[OF m] expect_shrinks[OF o] s(2) by auto
    then show ?case using 3(1) yes Suc.IH(3)[of d "smap_put (the key) w ms" j5 v j e1]
      by (auto simp: q k c v s m o split: if_splits)
  }
qed

section \<open>It always ends\<close>

text \<open>A result, and with it less text than before.\<close>

definition ends_below :: "nat \<Rightarrow> nat parsed \<Rightarrow> bool" where
  "ends_below n r \<longleftrightarrow> (case r of Parsed e j \<Rightarrow> length (position j) < n | Rejected j \<Rightarrow> True | Thrown x j \<Rightarrow> False | No_fuel \<Rightarrow> False)"

lemma ends_below_simps [simp]:
  "ends_below n (Parsed e j) \<longleftrightarrow> length (position j) < n" "ends_below n (Rejected j)"
  "\<not> ends_below n (Thrown x j)" "\<not> ends_below n No_fuel"
  by (simp_all add: ends_below_def)

lemma ends_below_mono: "ends_below m r \<Longrightarrow> m \<le> n \<Longrightarrow> ends_below n r"
  by (cases r) auto

lemma skip_literal_ends: "length (position i) < n \<Longrightarrow> ends_below n (skip_literal t d i)"
  using match_shrinks[of t i] by (auto simp: skip_literal_def split: prod.splits)

lemma skip_ends:
  "2 * length (position i) + 1 \<le> fuel \<Longrightarrow> ends_below (length (position i)) (skip_value fuel d i)"
  "2 * length (position i) + 2 \<le> fuel \<Longrightarrow> ends_below (length (position i)) (skip_items fuel d i)"
  "2 * length (position i) + 2 \<le> fuel \<Longrightarrow> ends_below (length (position i)) (skip_members fuel d i)"
proof (induction fuel arbitrary: d i)
  case 0
  { case 1 then show ?case by simp }
  { case 2 then show ?case by simp }
  { case 3 then show ?case by simp }
next
  case (Suc fuel)
  {
    case 1
    obtain ch k where g: "getc (skip_ws i) = (ch, k)" by fastforce
    obtain s l where n: "parse_number [] (ungetc k) = (s, l)" by fastforce
    obtain str l' where q: "parse_string [] k = (str, l')" by fastforce
    obtain b m where a: "expect (CHR '']'') k = (b, m)" by fastforce
    obtain b' m' where o: "expect (CHR ''}'') k = (b', m')" by fastforce
    have k: "ch \<noteq> None \<Longrightarrow> length (position k) < length (position i)"
      using getc_shrinks[of "skip_ws i"] g length_dropWhile[of json_ws "position i"] by fastforce
    have le: "ch \<noteq> None \<Longrightarrow> length (position m) < length (position i) \<and> length (position m') < length (position i)"
      using k expect_shrinks[OF a] expect_shrinks[OF o] by auto
    have str: "str \<noteq> None \<Longrightarrow> ch \<noteq> None \<Longrightarrow> length (position l') < length (position i)"
      using k parse_string_shrinks[of "[]" k "the str" l'] q by auto
    have num: "number_token_ok s \<Longrightarrow> length (position l) < length (position i)"
    proof -
      assume "number_token_ok s"
      then have "s \<noteq> []" by (auto simp: number_token_ok_def)
      moreover have u: "position (ungetc k) = position (skip_ws i)" using g by (metis position_ungetc_getc snd_conv)
      moreover have "s = takeWhile number_char (position (ungetc k))" "position l = dropWhile number_char (position (ungetc k))"
        using parse_number_view[of "[]" "ungetc k"] n by auto
      moreover have "length (takeWhile number_char xs) + length (dropWhile number_char xs) = length xs" for xs
        by (metis length_append takeWhile_dropWhile_id)
      ultimately show ?thesis using length_dropWhile[of json_ws "position i"]
        by (metis add.commute length_greater_0_conv less_add_same_cancel1 order_less_le_trans position_skip_ws)
    qed
    have items: "ch \<noteq> None \<Longrightarrow> ends_below (length (position i)) (skip_items fuel e m)"
      and members: "ch \<noteq> None \<Longrightarrow> ends_below (length (position i)) (skip_members fuel e m')" for e
      using le 1 by (auto intro!: ends_below_mono[OF Suc.IH(2)] ends_below_mono[OF Suc.IH(3)])
    show ?case
    proof (cases ch)
      case (Some c)
      with k le items members str show ?thesis
        by (simp add: g n q a o num skip_literal_ends del: match.simps split: option.splits)
    qed (simp add: g)
  }
  {
    case 2
    have v: "ends_below (length (position i)) (skip_value fuel d i)" by (rule Suc.IH(1)) (use 2 in simp)
    show ?case
    proof (cases "skip_value fuel d i")
      case (Parsed e k)
      obtain b l where c: "expect (CHR '','') k = (b, l)" by fastforce
      obtain b' l' where o: "expect (CHR '']'') l = (b', l')" by fastforce
      have le: "length (position l) < length (position i)" "length (position l') < length (position i)"
        using expect_shrinks[OF c] expect_shrinks[OF o] v Parsed by auto
      then have "ends_below (length (position i)) (skip_items fuel e l)"
        using 2 by (intro ends_below_mono[OF Suc.IH(2)]) auto
      with le show ?thesis by (simp add: Parsed c o)
    qed (use v in simp_all)
  }
  {
    case 3
    obtain b1 j1 where q: "expect DQ i = (b1, j1)" by fastforce
    obtain key j2 where k: "parse_string [] j1 = (key, j2)" by fastforce
    obtain b3 j3 where c: "expect (CHR '':'') j2 = (b3, j3)" by fastforce
    show ?case
    proof (cases "b1 \<and> key \<noteq> None \<and> b3")
      case True
      then have less: "length (position j3) < length (position i)"
        using expect_shrinks[OF q] expect_shrinks[OF c] parse_string_shrinks[of "[]" j1 "the key" j2] k by auto
      then have v: "ends_below (length (position j3)) (skip_value fuel (Suc d) j3)" using 3 by (intro Suc.IH(1)) auto
      show ?thesis
      proof (cases "skip_value fuel (Suc d) j3")
        case (Parsed e j4)
        obtain b5 j5 where m: "expect (CHR '','') j4 = (b5, j5)" by fastforce
        obtain b6 j6 where o: "expect (CHR ''}'') j5 = (b6, j6)" by fastforce
        have le: "length (position j5) < length (position i)" "length (position j6) < length (position i)"
          using expect_shrinks[OF m] expect_shrinks[OF o] v Parsed less by auto
        then have "ends_below (length (position i)) (skip_members fuel e j5)"
          using 3 by (intro ends_below_mono[OF Suc.IH(3)]) auto
        with le True show ?thesis by (auto simp: q k c Parsed m o)
      qed (use v True in \<open>auto simp: q k c\<close>)
    qed (auto simp: q k c split: option.splits)
  }
qed

lemma null_parse_ends: "null_parse s \<noteq> No_fuel" "null_parse s \<noteq> Thrown x j"
  using skip_ends(1)[of "new_input s" "parse_fuel s" default_max_depths]
  by (auto simp: null_parse_def parse_fuel_def)

text \<open>the two contexts accept the same texts: with a counter as large as the text, the parser that
  builds nothing stops exactly where the one that builds a value stops, and it accepts no text that
  the other one rejects (a number that overflows throws there and passes here).\<close>

theorem null_context_agrees:
  assumes "length s \<le> e" and "parse_fuel s \<le> d"
  shows "(\<forall>v j. parse_value (parse_fuel s) d (new_input s) = Parsed v j \<longrightarrow>
      (\<exists>e'. skip_value (parse_fuel s) e (new_input s) = Parsed e' j)) \<and>
    (\<forall>e' j. skip_value (parse_fuel s) e (new_input s) = Parsed e' j \<longrightarrow>
      same_end j (parse_value (parse_fuel s) d (new_input s)))"
  using parse_then_skip(1)[of "parse_fuel s" d "new_input s"] skip_then_parse(1)[OF _ assms(2)] assms(1)
  by fastforce

lemma null_context_agrees_witness:
  "\<exists>e'. skip_value (parse_fuel ''[{}]'') 4 (new_input ''[{}]'') = Parsed e' \<lparr> cur = '']'', consumed = True, line = 1 \<rparr>"
proof -
  have "parse_value (parse_fuel ''[{}]'') 10 (new_input ''[{}]'') =
      Parsed (JArray [JObject []]) \<lparr> cur = '']'', consumed = True, line = 1 \<rparr>" by code_simp
  then show ?thesis using null_context_agrees[of "''[{}]''" 4 10] by (simp add: parse_fuel_def)
qed

section \<open>The counter is not restored\<close>

text \<open>\<^verbatim>\<open>parse_object_start\<close> takes one from the counter and nothing gives it back for an empty object.\<close>

lemma skip_empty_object:
  assumes "position i = ''{}'' @ r"
  shows "\<exists>j. skip_value (Suc fuel) d i = (if d = 0 then Rejected j else Parsed (d - 1) j) \<and>
    (0 < d \<longrightarrow> position j = r)"
proof -
  obtain j where j: "getc (skip_ws i) = (Some (CHR ''{''), j)" "position j = CHR ''}'' # r"
    using getc_value[of i "CHR ''{''"] assms by auto
  then obtain k where "expect (CHR ''}'') j = (True, k)" "position k = r" using expect_yes[of j "CHR ''}''"] by auto
  with j(1) show ?thesis by auto
qed

lemma skip_empty_objects:
  "position i = ''{}'' @ concat (replicate n '',{}'') @ r \<Longrightarrow> d \<le> n \<Longrightarrow> n + 2 \<le> fuel \<Longrightarrow>
   \<exists>j. skip_items fuel d i = Rejected j"
proof (induction n arbitrary: d i fuel)
  case 0
  then have "fuel = Suc (Suc (fuel - 2))" "d = 0" by simp_all
  moreover from 0 skip_empty_object[of i r "fuel - 2" 0] obtain j where
    "skip_value (Suc (fuel - 2)) 0 i = Rejected j" by auto
  ultimately show ?case by (metis (no_types, lifting) parsed.case(2) skip_items.simps(2))
next
  case (Suc n)
  define f where "f = fuel - 2"
  with Suc.prems(3) have f: "fuel = Suc (Suc f)" by simp
  show ?case
  proof (cases d)
    case 0
    from Suc.prems(1) skip_empty_object[of i "CHR '','' # ''{}'' @ concat (replicate n '',{}'') @ r" f 0] obtain j where
      "skip_value (Suc f) 0 i = Rejected j" by auto
    with 0 f show ?thesis by (auto simp del: skip_value.simps)
  next
    case (Suc d')
    with Suc.prems(1) obtain j where j: "skip_value (Suc f) d i = Parsed d' j"
      "position j = CHR '','' # ''{}'' @ concat (replicate n '',{}'') @ r"
      using skip_empty_object[of i "CHR '','' # ''{}'' @ concat (replicate n '',{}'') @ r" f d] by auto
    then obtain k where k: "expect (CHR '','') j = (True, k)" "position k = ''{}'' @ concat (replicate n '',{}'') @ r"
      using expect_yes[OF j(2)] by auto
    have "\<exists>q. skip_items (Suc f) d' k = Rejected q"
      by (rule Suc.IH[OF k(2)]) (use Suc.prems Suc f in simp_all)
    with j(1) k(1) show ?thesis by (auto simp: f simp del: skip_value.simps)
  qed
qed

lemma serialize_empties:
  "serialize False (JArray (replicate (Suc n) (JObject []))) = ''['' @ ''{}'' @ concat (replicate n '',{}'') @ '']''"
proof -
  have "serialize_items None False (replicate n (JObject [])) = concat (replicate n '',{}'')"
    by (induction n) (simp_all add: indent_str_def newline_at_top_def)
  then show ?thesis by (simp add: serialize_def indent_str_def newline_at_top_def)
qed

text \<open>with the default depth the parser that builds nothing rejects every array of a hundred or more
  empty objects, a text of nesting 2 that the other parser reads.\<close>

theorem null_context_loses_depth:
  assumes "99 \<le> n"
  shows "(\<exists>j. null_parse (serialize False (JArray (replicate (Suc n) (JObject [])))) = Rejected j) \<and>
    parse (serialize False (JArray (replicate (Suc n) (JObject [])))) = Inr (Inr (JArray (replicate (Suc n) (JObject []))))"
proof
  let ?v = "JArray (replicate (Suc n) (JObject []))" and ?r = "''{}'' @ concat (replicate n '',{}'') @ '']''"
  define s where "s = serialize False ?v"
  have s: "s = ''['' @ ?r" by (simp only: s_def serialize_empties append_assoc)
  obtain f where f: "parse_fuel s = Suc f" "n + 2 \<le> f"
    by (simp add: s parse_fuel_def length_concat sum_list_replicate)
  obtain j where j: "getc (skip_ws (new_input s)) = (Some (CHR ''[''), j)" "position j = ?r"
    using getc_value[of "new_input s" "CHR ''[''" ?r] by (auto simp: s)
  then obtain k where k: "expect (CHR '']'') j = (False, k)" "position k = ?r"
    using expect_no[of j "CHR ''{''" _ "CHR '']''"] by auto
  from skip_empty_objects[OF k(2) _ f(2), of 99] assms obtain q where "skip_items f 99 k = Rejected q" by auto
  then show "\<exists>j. null_parse (serialize False ?v) = Rejected j"
    using j(1) k(1) by (simp add: null_parse_def f(1) default_max_depths_def s_def[symmetric] del: skip_items.simps replicate_Suc)
  have "plain_items (replicate m (JObject []))" "fits_items 99 (replicate m (JObject []))" for m
    by (induction m) (simp_all add: smap_ok_def)
  then have "plain ?v" "fits 100 ?v" by (simp_all add: smap_ok_def)
  then show "parse (serialize False ?v) = Inr (Inr ?v)"
    using parse_reads[OF reads_all(1), of ?v "[]"] by (simp add: serialize_def is_int64_def)
qed

lemma null_context_loses_depth_witness:
  "\<exists>j. null_parse (serialize False (JArray (replicate 100 (JObject [])))) = Rejected j"
  using null_context_loses_depth[of 99] by (simp add: numeral_eq_Suc)

end
