(* ===== verification/Picojson_Stream.thy ===== *)
theory Picojson_Stream
  imports Picojson_Null
begin

text \<open>
  The parts of \<^verbatim>\<open>picojson.h\<close> around the parser: \<^verbatim>\<open>operator>>\<close> and \<^verbatim>\<open>operator<<\<close> on streams with the
  last error, which is a global variable, and the context that refuses everything. A stream is what is
  left to read in its buffer and its fail bit; \<^verbatim>\<open>operator>>\<close> looks at the buffer only.
\<close>

section \<open>Streams\<close>

record pj_stream =
  ps_rest :: string
  ps_fail :: bool
  ps_last_error :: string

text \<open>\<^verbatim>\<open>parse(value &out, std::istream &is)\<close>: the result and what it leaves in the buffer. The text of a
  syntax error is read up to and with the end of its line.\<close>

definition parse_stream :: "string \<Rightarrow> (pj_exn + (string + json)) \<times> string" where
  "parse_stream s =
     (case parse_text s of
        Parsed v i \<Rightarrow> (Inr (Inr v), position i)
      | Rejected i \<Rightarrow> (Inr (Inl (syntax_error i)), tl (dropWhile (\<lambda>c. c \<noteq> LF) (position i)))
      | Thrown e i \<Rightarrow> (Inl e, cur i)
      | No_fuel \<Rightarrow> (Inr (Inl ''no fuel''), s))"

definition set_last_error :: "string \<Rightarrow> pj_stream \<Rightarrow> pj_stream" where
  "set_last_error err s = s\<lparr> ps_last_error := err \<rparr>"

definition get_last_error :: "pj_stream \<Rightarrow> string" where
  "get_last_error s = ps_last_error s"

text \<open>\<^verbatim>\<open>operator>>\<close>: the value if the text is one.\<close>

definition extract_value :: "pj_stream \<Rightarrow> (pj_exn + json option) \<times> pj_stream" where
  "extract_value s =
     (let s0 = set_last_error [] s;
          (r, rest) = parse_stream (ps_rest s0);
          s1 = s0\<lparr> ps_rest := rest \<rparr>
      in case r of
           Inl e \<Rightarrow> (Inl e, s1)
         | Inr (Inl err) \<Rightarrow> (Inr None, (set_last_error err s1)\<lparr> ps_fail := True \<rparr>)
         | Inr (Inr v) \<Rightarrow> (Inr (Some v), s1))"

text \<open>\<^verbatim>\<open>operator<<\<close> onto what has been written.\<close>

definition insert_value :: "string \<Rightarrow> json \<Rightarrow> string" where
  "insert_value written v = written @ serialize False v"

text \<open>Reading \<open>n\<close> values one after another.\<close>

fun extract_many :: "nat \<Rightarrow> pj_stream \<Rightarrow> (pj_exn + json option) list \<times> pj_stream" where
  "extract_many 0 s = ([], s)"
| "extract_many (Suc n) s =
     (let (r, s1) = extract_value s; (rs, s2) = extract_many n s1 in (r # rs, s2))"

lemma parse_stream_serialize:
  assumes "plain v" "fits 100 v" "is_int64 v \<longrightarrow> no_number r"
  shows "parse_stream (serialize False v @ r) = (Inr (Inr v), r)"
proof -
  let ?s = "serialize_at None v @ r"
  have "position (new_input ?s) = ?s" "2 * length (position (new_input ?s)) + 1 \<le> parse_fuel ?s"
    by (simp_all add: parse_fuel_def)
  with assms reads_all(1)[of v] obtain j where "parse_value (parse_fuel ?s) 100 (new_input ?s) = Parsed v j" "position j = r"
    unfolding reads_value_def by blast
  then show ?thesis by (simp add: parse_stream_def parse_text_def default_max_depths_def serialize_def)
qed

lemma extract_serialize:
  assumes "plain v" "fits 100 v" "is_int64 v \<longrightarrow> no_number r" "ps_rest s = serialize False v @ r"
  shows "extract_value s = (Inr (Some v), s\<lparr> ps_rest := r, ps_last_error := [] \<rparr>)"
  using parse_stream_serialize[OF assms(1-3)] assms(4) by (cases s) (simp add: extract_value_def set_last_error_def Let_def)

text \<open>values written to a stream one after another are read back one after another, each leaving
  exactly what was written behind it, with no error and the fail bit as it was.\<close>

theorem stream_roundtrip:
  assumes "\<forall>v \<in> set vs. plain v \<and> fits 100 v \<and> \<not> is_int64 v"
    and "ps_rest s = foldl insert_value [] vs @ r" and "vs \<noteq> []"
  shows "extract_many (length vs) s = (map (\<lambda>v. Inr (Some v)) vs, s\<lparr> ps_rest := r, ps_last_error := [] \<rparr>)"
proof -
  have written: "foldl insert_value w vs = w @ concat (map (serialize False) vs)" for w
    by (induction vs arbitrary: w) (simp_all add: insert_value_def)
  have "extract_many (length us) t = (map (\<lambda>v. Inr (Some v)) us, t\<lparr> ps_rest := r, ps_last_error := [] \<rparr>)"
    if "set us \<subseteq> set vs" "ps_rest t = concat (map (serialize False) us) @ r" "us \<noteq> []" for us t
    using that
  proof (induction us arbitrary: t)
    case (Cons u us)
    let ?r = "concat (map (serialize False) us) @ r"
    have e: "extract_value t = (Inr (Some u), t\<lparr> ps_rest := ?r, ps_last_error := [] \<rparr>)"
      using Cons.prems assms(1) by (intro extract_serialize) auto
    show ?case
    proof (cases "us = []")
      case False
      then show ?thesis using Cons.IH[of "t\<lparr> ps_rest := ?r, ps_last_error := [] \<rparr>"] Cons.prems e by simp
    qed (simp add: e)
  qed simp
  from this[of vs s] show ?thesis using assms(2,3) written[of "[]"] by simp
qed

lemma stream_roundtrip_witness:
  "extract_many 2 \<lparr> ps_rest = ''{\"a\":1}[null]}'', ps_fail = False, ps_last_error = ''old'' \<rparr> =
   ([Inr (Some (JObject [(''a'', JInt 1)])), Inr (Some (JArray [JNull]))],
    \<lparr> ps_rest = ''}'', ps_fail = False, ps_last_error = [] \<rparr>)"
proof -
  have "foldl insert_value [] [JObject [(''a'', JInt 1)], JArray [JNull]] @ ''}'' = ''{\"a\":1}[null]}''"
    by code_simp
  then show ?thesis
    using stream_roundtrip[of "[JObject [(''a'', JInt 1)], JArray [JNull]]"
        "\<lparr> ps_rest = ''{\"a\":1}[null]}'', ps_fail = False, ps_last_error = ''old'' \<rparr>" "''}''"]
    by (simp add: smap_ok_def is_int64_def numeral_2_eq_2)
qed

section \<open>The context that refuses everything\<close>

text \<open>\<^verbatim>\<open>_parse\<close> with a \<^verbatim>\<open>deny_parse_context\<close>: whether it accepts. It ignores what \<^verbatim>\<open>set_int64\<close> and
  \<^verbatim>\<open>set_number\<close> answer.\<close>

definition deny_value :: "input \<Rightarrow> bool \<times> input" where
  "deny_value i =
     (let (ch, j) = getc (skip_ws i)
      in if ch = Some (CHR ''n'') then (False, snd (match ''ull'' j))
         else if ch = Some (CHR ''f'') then (False, snd (match ''alse'' j))
         else if ch = Some (CHR ''t'') then (False, snd (match ''rue'' j))
         else if ch = Some DQ \<or> ch = Some (CHR ''['') \<or> ch = Some (CHR ''{'') then (False, j)
         else if (case ch of Some c \<Rightarrow> is_digit c \<or> c = CHR ''-'' | None \<Rightarrow> False) then
           (let (s, k) = parse_number [] (ungetc j) in (number_token_ok s, k))
         else (False, ungetc j))"

text \<open>the context that is meant to refuse everything accepts numbers, and nothing else.\<close>

theorem deny_accepts_numbers:
  "fst (deny_value (new_input s)) \<longleftrightarrow>
     (\<exists>c r. dropWhile json_ws s = c # r \<and> (is_digit c \<or> c = CHR ''-'') \<and>
        number_token_ok (takeWhile number_char (c # r)))"
proof (cases "dropWhile json_ws s")
  case Nil
  then have "position (skip_ws (new_input s)) = []" by simp
  then obtain j where "getc (skip_ws (new_input s)) = (None, j)" by (rule getc_Nil)
  with Nil show ?thesis by (simp add: deny_value_def del: dropWhile_eq_Nil_conv)
next
  case (Cons c r)
  then have "position (skip_ws (new_input s)) = c # r" by simp
  then obtain j where j: "getc (skip_ws (new_input s)) = (Some c, j)" "position (ungetc j) = c # r"
    by (rule getc_Cons)
  obtain l where "parse_number [] (ungetc j) = (takeWhile number_char (c # r), l)"
    using parse_number_view[of "[]" "ungetc j"] j(2) by auto
  with j(1) Cons show ?thesis
    by (auto simp: deny_value_def is_digit_def byte_def simp del: takeWhile.simps match.simps)
qed

end
