(* ===== verification/Jwt_Error.thy ===== *)
theory Jwt_Error
  imports Prelude Picojson_Value
begin

text \<open>
  The error codes, categories and exceptions of the token library (\<^verbatim>\<open>jwt.h\<close>, \<^verbatim>\<open>jwt::error\<close>).
  An enumeration is a datatype with its numeric values; an error code is a number in a category;
  an exception is a value of \<^verbatim>\<open>exn\<close> with its \<^verbatim>\<open>what()\<close>.
\<close>

section \<open>Enumerations\<close>

datatype rsa_error =
    Rsa_ok | Cert_load_failed | Rsa_get_key_failed | Write_key_failed | Write_cert_failed
  | Convert_to_pem_failed | Rsa_load_key_bio_write | Rsa_load_key_bio_read
  | Rsa_create_mem_bio_failed | Rsa_no_key_provided

fun rsa_value :: "rsa_error \<Rightarrow> int" where
  "rsa_value Rsa_ok = 0"
| "rsa_value Cert_load_failed = 10"
| "rsa_value Rsa_get_key_failed = 11"
| "rsa_value Write_key_failed = 12"
| "rsa_value Write_cert_failed = 13"
| "rsa_value Convert_to_pem_failed = 14"
| "rsa_value Rsa_load_key_bio_write = 15"
| "rsa_value Rsa_load_key_bio_read = 16"
| "rsa_value Rsa_create_mem_bio_failed = 17"
| "rsa_value Rsa_no_key_provided = 18"

datatype ecdsa_error =
    Ecdsa_ok | Ecdsa_load_key_bio_write | Ecdsa_load_key_bio_read | Ecdsa_create_mem_bio_failed
  | Ecdsa_no_key_provided | Invalid_key_size | Invalid_key | Ecdsa_create_context_failed

fun ecdsa_value :: "ecdsa_error \<Rightarrow> int" where
  "ecdsa_value Ecdsa_ok = 0"
| "ecdsa_value Ecdsa_load_key_bio_write = 10"
| "ecdsa_value Ecdsa_load_key_bio_read = 11"
| "ecdsa_value Ecdsa_create_mem_bio_failed = 12"
| "ecdsa_value Ecdsa_no_key_provided = 13"
| "ecdsa_value Invalid_key_size = 14"
| "ecdsa_value Invalid_key = 15"
| "ecdsa_value Ecdsa_create_context_failed = 16"

datatype signature_verification_error =
    Verify_ok | Invalid_signature | Verify_create_context_failed | Verifyinit_failed
  | Verifyupdate_failed | Verifyfinal_failed | Verify_get_key_failed
  | Verify_set_rsa_pss_saltlen_failed | Signature_encoding_failed

fun verify_value :: "signature_verification_error \<Rightarrow> int" where
  "verify_value Verify_ok = 0"
| "verify_value Invalid_signature = 10"
| "verify_value Verify_create_context_failed = 11"
| "verify_value Verifyinit_failed = 12"
| "verify_value Verifyupdate_failed = 13"
| "verify_value Verifyfinal_failed = 14"
| "verify_value Verify_get_key_failed = 15"
| "verify_value Verify_set_rsa_pss_saltlen_failed = 16"
| "verify_value Signature_encoding_failed = 17"

datatype signature_generation_error =
    Sign_ok | Hmac_failed | Sign_create_context_failed | Signinit_failed | Signupdate_failed
  | Signfinal_failed | Ecdsa_do_sign_failed | Digestinit_failed | Digestupdate_failed
  | Digestfinal_failed | Rsa_padding_failed | Rsa_private_encrypt_failed | Sign_get_key_failed
  | Sign_set_rsa_pss_saltlen_failed | Signature_decoding_failed

fun sign_value :: "signature_generation_error \<Rightarrow> int" where
  "sign_value Sign_ok = 0"
| "sign_value Hmac_failed = 10"
| "sign_value Sign_create_context_failed = 11"
| "sign_value Signinit_failed = 12"
| "sign_value Signupdate_failed = 13"
| "sign_value Signfinal_failed = 14"
| "sign_value Ecdsa_do_sign_failed = 15"
| "sign_value Digestinit_failed = 16"
| "sign_value Digestupdate_failed = 17"
| "sign_value Digestfinal_failed = 18"
| "sign_value Rsa_padding_failed = 19"
| "sign_value Rsa_private_encrypt_failed = 20"
| "sign_value Sign_get_key_failed = 21"
| "sign_value Sign_set_rsa_pss_saltlen_failed = 22"
| "sign_value Signature_decoding_failed = 23"

datatype token_verification_error =
    Token_ok | Wrong_algorithm | Missing_claim | Claim_type_missmatch | Claim_value_missmatch
  | Token_expired | Audience_missmatch

fun token_value :: "token_verification_error \<Rightarrow> int" where
  "token_value Token_ok = 0"
| "token_value Wrong_algorithm = 10"
| "token_value Missing_claim = 11"
| "token_value Claim_type_missmatch = 12"
| "token_value Claim_value_missmatch = 13"
| "token_value Token_expired = 14"
| "token_value Audience_missmatch = 15"

section \<open>Messages\<close>

definition rsa_message :: "int \<Rightarrow> string" where
  "rsa_message ev =
     (if ev = rsa_value Rsa_ok then ''no error''
      else if ev = rsa_value Cert_load_failed then ''error loading cert into memory''
      else if ev = rsa_value Rsa_get_key_failed then ''error getting key from certificate''
      else if ev = rsa_value Write_key_failed then ''error writing key data in PEM format''
      else if ev = rsa_value Write_cert_failed then ''error writing cert data in PEM format''
      else if ev = rsa_value Convert_to_pem_failed then ''failed to convert key to pem''
      else if ev = rsa_value Rsa_load_key_bio_write then ''failed to load key: bio write failed''
      else if ev = rsa_value Rsa_load_key_bio_read then ''failed to load key: bio read failed''
      else if ev = rsa_value Rsa_create_mem_bio_failed then ''failed to create memory bio''
      else if ev = rsa_value Rsa_no_key_provided then
        ''at least one of public or private key need to be present''
      else ''unknown RSA error'')"

definition ecdsa_message :: "int \<Rightarrow> string" where
  "ecdsa_message ev =
     (if ev = ecdsa_value Ecdsa_ok then ''no error''
      else if ev = ecdsa_value Ecdsa_load_key_bio_write then ''failed to load key: bio write failed''
      else if ev = ecdsa_value Ecdsa_load_key_bio_read then ''failed to load key: bio read failed''
      else if ev = ecdsa_value Ecdsa_create_mem_bio_failed then ''failed to create memory bio''
      else if ev = ecdsa_value Ecdsa_no_key_provided then
        ''at least one of public or private key need to be present''
      else if ev = ecdsa_value Invalid_key_size then ''invalid key size''
      else if ev = ecdsa_value Invalid_key then ''invalid key''
      else if ev = ecdsa_value Ecdsa_create_context_failed then ''failed to create context''
      else ''unknown ECDSA error'')"

definition verify_message :: "int \<Rightarrow> string" where
  "verify_message ev =
     (if ev = verify_value Verify_ok then ''no error''
      else if ev = verify_value Invalid_signature then ''invalid signature''
      else if ev = verify_value Verify_create_context_failed then
        ''failed to verify signature: could not create context''
      else if ev = verify_value Verifyinit_failed then ''failed to verify signature: VerifyInit failed''
      else if ev = verify_value Verifyupdate_failed then ''failed to verify signature: VerifyUpdate failed''
      else if ev = verify_value Verifyfinal_failed then ''failed to verify signature: VerifyFinal failed''
      else if ev = verify_value Verify_get_key_failed then ''failed to verify signature: Could not get key''
      else if ev = verify_value Verify_set_rsa_pss_saltlen_failed then
        ''failed to verify signature: EVP_PKEY_CTX_set_rsa_pss_saltlen failed''
      else if ev = verify_value Signature_encoding_failed then
        ''failed to verify signature: i2d_ECDSA_SIG failed''
      else ''unknown signature verification error'')"

definition sign_message :: "int \<Rightarrow> string" where
  "sign_message ev =
     (if ev = sign_value Sign_ok then ''no error''
      else if ev = sign_value Hmac_failed then ''hmac failed''
      else if ev = sign_value Sign_create_context_failed then
        ''failed to create signature: could not create context''
      else if ev = sign_value Signinit_failed then ''failed to create signature: SignInit failed''
      else if ev = sign_value Signupdate_failed then ''failed to create signature: SignUpdate failed''
      else if ev = sign_value Signfinal_failed then ''failed to create signature: SignFinal failed''
      else if ev = sign_value Ecdsa_do_sign_failed then ''failed to generate ecdsa signature''
      else if ev = sign_value Digestinit_failed then ''failed to create signature: DigestInit failed''
      else if ev = sign_value Digestupdate_failed then ''failed to create signature: DigestUpdate failed''
      else if ev = sign_value Digestfinal_failed then ''failed to create signature: DigestFinal failed''
      else if ev = sign_value Rsa_padding_failed then
        ''failed to create signature: EVP_PKEY_CTX_set_rsa_padding failed''
      else if ev = sign_value Rsa_private_encrypt_failed then
        ''failed to create signature: RSA_private_encrypt failed''
      else if ev = sign_value Sign_get_key_failed then ''failed to generate signature: Could not get key''
      else if ev = sign_value Sign_set_rsa_pss_saltlen_failed then
        ''failed to create signature: EVP_PKEY_CTX_set_rsa_pss_saltlen failed''
      else if ev = sign_value Signature_decoding_failed then
        ''failed to create signature: d2i_ECDSA_SIG failed''
      else ''unknown signature generation error'')"

definition token_message :: "int \<Rightarrow> string" where
  "token_message ev =
     (if ev = token_value Token_ok then ''no error''
      else if ev = token_value Wrong_algorithm then ''wrong algorithm''
      else if ev = token_value Missing_claim then ''decoded JWT is missing required claim(s)''
      else if ev = token_value Claim_type_missmatch then ''claim type does not match expected type''
      else if ev = token_value Claim_value_missmatch then ''claim value does not match expected value''
      else if ev = token_value Token_expired then ''token expired''
      else if ev = token_value Audience_missmatch then ''token doesn't contain the required audience''
      else ''unknown token verification error'')"

section \<open>Error codes\<close>

text \<open>\<^verbatim>\<open>std::error_code\<close>; a cleared one has value 0 in the system category.\<close>

datatype error_category =
    System_category | Rsa_category | Ecdsa_category | Signature_verification_category
  | Signature_generation_category | Token_verification_category

fun category_name :: "error_category \<Rightarrow> string" where
  "category_name System_category = ''system''"
| "category_name Rsa_category = ''rsa_error''"
| "category_name Ecdsa_category = ''ecdsa_error''"
| "category_name Signature_verification_category = ''signature_verification_error''"
| "category_name Signature_generation_category = ''signature_generation_error''"
| "category_name Token_verification_category = ''token_verification_error''"

record error_code =
  ec_value :: int
  ec_category :: error_category

definition no_ec :: error_code where
  "no_ec = \<lparr> ec_value = 0, ec_category = System_category \<rparr>"

definition ec_failed :: "error_code \<Rightarrow> bool" where
  "ec_failed ec \<longleftrightarrow> ec_value ec \<noteq> 0"

definition rsa_ec :: "rsa_error \<Rightarrow> error_code" where
  "rsa_ec e = \<lparr> ec_value = rsa_value e, ec_category = Rsa_category \<rparr>"

definition ecdsa_ec :: "ecdsa_error \<Rightarrow> error_code" where
  "ecdsa_ec e = \<lparr> ec_value = ecdsa_value e, ec_category = Ecdsa_category \<rparr>"

definition verify_ec :: "signature_verification_error \<Rightarrow> error_code" where
  "verify_ec e = \<lparr> ec_value = verify_value e, ec_category = Signature_verification_category \<rparr>"

definition sign_ec :: "signature_generation_error \<Rightarrow> error_code" where
  "sign_ec e = \<lparr> ec_value = sign_value e, ec_category = Signature_generation_category \<rparr>"

definition token_ec :: "token_verification_error \<Rightarrow> error_code" where
  "token_ec e = \<lparr> ec_value = token_value e, ec_category = Token_verification_category \<rparr>"

text \<open>The text of the system category is the platform's; only its value 0 occurs here.\<close>

fun category_message :: "error_category \<Rightarrow> int \<Rightarrow> string" where
  "category_message System_category ev = ''Success''"
| "category_message Rsa_category ev = rsa_message ev"
| "category_message Ecdsa_category ev = ecdsa_message ev"
| "category_message Signature_verification_category ev = verify_message ev"
| "category_message Signature_generation_category ev = sign_message ev"
| "category_message Token_verification_category ev = token_message ev"

definition ec_message :: "error_code \<Rightarrow> string" where
  "ec_message ec = category_message (ec_category ec) (ec_value ec)"

section \<open>Exceptions\<close>

datatype exn =
    Invalid_argument string
  | Runtime_error string
  | Out_of_range string
  | Logic_error string
  | Bad_cast
  | Json_exn pj_exn
  | Rsa_exception error_code
  | Ecdsa_exception error_code
  | Signature_verification_exception error_code
  | Signature_generation_exception error_code
  | Token_verification_exception error_code

text \<open>\<^verbatim>\<open>what()\<close>, which a \<^verbatim>\<open>system_error\<close> takes from its code.\<close>

fun pj_what :: "pj_exn \<Rightarrow> string" where
  "pj_what (Assert_failed m) = m"
| "pj_what Overflow_error = []"

fun what :: "exn \<Rightarrow> string" where
  "what (Invalid_argument m) = m"
| "what (Runtime_error m) = m"
| "what (Out_of_range m) = m"
| "what (Logic_error m) = m"
| "what Bad_cast = ''std::bad_cast''"
| "what (Json_exn e) = pj_what e"
| "what (Rsa_exception ec) = ec_message ec"
| "what (Ecdsa_exception ec) = ec_message ec"
| "what (Signature_verification_exception ec) = ec_message ec"
| "what (Signature_generation_exception ec) = ec_message ec"
| "what (Token_verification_exception ec) = ec_message ec"

fun category_exception :: "error_category \<Rightarrow> error_code \<Rightarrow> exn option" where
  "category_exception System_category ec = None"
| "category_exception Rsa_category ec = Some (Rsa_exception ec)"
| "category_exception Ecdsa_category ec = Some (Ecdsa_exception ec)"
| "category_exception Signature_verification_category ec = Some (Signature_verification_exception ec)"
| "category_exception Signature_generation_category ec = Some (Signature_generation_exception ec)"
| "category_exception Token_verification_category ec = Some (Token_verification_exception ec)"

definition throw_if_error :: "error_code \<Rightarrow> exn option" where
  "throw_if_error ec = (if ec_failed ec then category_exception (ec_category ec) ec else None)"

text \<open>A result that the caller keeps unless the code makes it throw.\<close>

definition or_throw :: "error_code \<Rightarrow> 'a \<Rightarrow> exn + 'a" where
  "or_throw ec x = (case throw_if_error ec of Some e \<Rightarrow> Inl e | None \<Rightarrow> Inr x)"

lemma throw_if_error_no_ec [simp]: "throw_if_error no_ec = None"
  by (simp add: throw_if_error_def no_ec_def ec_failed_def)

lemma or_throw_no_ec [simp]: "or_throw no_ec x = Inr x"
  by (simp add: or_throw_def)

lemma value_ok [simp]:
  "rsa_value e1 = 0 \<longleftrightarrow> e1 = Rsa_ok" "ecdsa_value e2 = 0 \<longleftrightarrow> e2 = Ecdsa_ok"
  "verify_value e3 = 0 \<longleftrightarrow> e3 = Verify_ok" "sign_value e4 = 0 \<longleftrightarrow> e4 = Sign_ok"
  "token_value e5 = 0 \<longleftrightarrow> e5 = Token_ok"
  subgoal by (cases e1) simp_all
  subgoal by (cases e2) simp_all
  subgoal by (cases e3) simp_all
  subgoal by (cases e4) simp_all
  by (cases e5) simp_all

lemma ec_failed_simps [simp]:
  "\<not> ec_failed no_ec"
  "ec_failed (rsa_ec e1) \<longleftrightarrow> e1 \<noteq> Rsa_ok"
  "ec_failed (ecdsa_ec e2) \<longleftrightarrow> e2 \<noteq> Ecdsa_ok"
  "ec_failed (verify_ec e3) \<longleftrightarrow> e3 \<noteq> Verify_ok"
  "ec_failed (sign_ec e4) \<longleftrightarrow> e4 \<noteq> Sign_ok"
  "ec_failed (token_ec e5) \<longleftrightarrow> e5 \<noteq> Token_ok"
  by (simp_all add: ec_failed_def no_ec_def rsa_ec_def ecdsa_ec_def verify_ec_def sign_ec_def token_ec_def)

lemma throw_if_error_simps [simp]:
  "throw_if_error (rsa_ec e1) = (if e1 = Rsa_ok then None else Some (Rsa_exception (rsa_ec e1)))"
  "throw_if_error (ecdsa_ec e2) = (if e2 = Ecdsa_ok then None else Some (Ecdsa_exception (ecdsa_ec e2)))"
  "throw_if_error (verify_ec e3) =
     (if e3 = Verify_ok then None else Some (Signature_verification_exception (verify_ec e3)))"
  "throw_if_error (sign_ec e4) =
     (if e4 = Sign_ok then None else Some (Signature_generation_exception (sign_ec e4)))"
  "throw_if_error (token_ec e5) =
     (if e5 = Token_ok then None else Some (Token_verification_exception (token_ec e5)))"
  unfolding throw_if_error_def ec_failed_simps
  by (simp_all add: rsa_ec_def ecdsa_ec_def verify_ec_def sign_ec_def token_ec_def)

end
