(* ===== verification/Base64.thy ===== *)
theory Base64
  imports Jwt_Error "HOL-Library.Word"
begin

unbundle bit_operations_syntax

text \<open>
  The base64 family of \<^verbatim>\<open>jwt-cpp/base.h\<close>: encoding and decoding over an alphabet and a fill
  string, in 24 bit groups held in 32 bit words, and the padding that base64url drops.
\<close>

section \<open>Alphabets\<close>

record alphabet =
  al_data :: string
  al_fill :: string

definition letters :: string where
  "letters = ''ABCDEFGHIJKLMNOPQRSTUVWXYZabcdefghijklmnopqrstuvwxyz0123456789''"

definition base64 :: alphabet where
  "base64 = \<lparr> al_data = letters @ ''+/'', al_fill = ''='' \<rparr>"

definition base64url :: alphabet where
  "base64url = \<lparr> al_data = letters @ ''-_'', al_fill = ''%3d'' \<rparr>"

section \<open>Encoding\<close>

definition octet :: "char \<Rightarrow> 32 word" where
  "octet c = of_nat (byte c)"

definition triple :: "32 word \<Rightarrow> 32 word \<Rightarrow> 32 word \<Rightarrow> 32 word" where
  "triple a b c = push_bit 16 a + push_bit 8 b + c"

text \<open>\<open>alphabet[(triple >> k * 6) & 0x3F]\<close>\<close>

definition sextet_char :: "string \<Rightarrow> 32 word \<Rightarrow> nat \<Rightarrow> char" where
  "sextet_char al t k = al ! unat (drop_bit (k * 6) t AND 0x3F)"

fun encode_bytes :: "string \<Rightarrow> string \<Rightarrow> string \<Rightarrow> string" where
  "encode_bytes al fl (a # b # c # bin) =
     (let t = triple (octet a) (octet b) (octet c)
      in sextet_char al t 3 # sextet_char al t 2 # sextet_char al t 1 # sextet_char al t 0
         # encode_bytes al fl bin)"
| "encode_bytes al fl [] = []"
| "encode_bytes al fl [a] =
     (let t = triple (octet a) 0 0 in [sextet_char al t 3, sextet_char al t 2] @ fl @ fl)"
| "encode_bytes al fl [a, b] =
     (let t = triple (octet a) (octet b) 0
      in [sextet_char al t 3, sextet_char al t 2, sextet_char al t 1] @ fl)"

definition encode :: "alphabet \<Rightarrow> string \<Rightarrow> string" where
  "encode al bin = encode_bytes (al_data al) (al_fill al) bin"

section \<open>Decoding\<close>

text \<open>The trailing fills: their number and what is left of the size; a third one is an error.\<close>

function strip_fill :: "string \<Rightarrow> string \<Rightarrow> nat \<Rightarrow> nat \<Rightarrow> exn + nat \<times> nat" where
  "strip_fill fl base sz cnt =
     (if length fl < sz \<and> substr base (sz - length fl) (length fl) = fl then
        (if 2 < cnt + 1 then Inl (Runtime_error ''Invalid input: too much fill'')
         else strip_fill fl base (sz - length fl) (cnt + 1))
      else Inr (sz, cnt))"
  by pat_completeness auto
termination by (relation "measure (\<lambda>(_, _, _, cnt). 3 - cnt)") auto

declare strip_fill.simps [simp del]

text \<open>The position of the first alphabet character that equals the given one.\<close>

definition get_sextet :: "string \<Rightarrow> char \<Rightarrow> exn + 32 word" where
  "get_sextet al c =
     (case find_char c al of
        Some i \<Rightarrow> Inr (of_nat i)
      | None \<Rightarrow> Inl (Runtime_error ''Invalid input: not within alphabet''))"

definition out_byte :: "32 word \<Rightarrow> nat \<Rightarrow> char" where
  "out_byte t k = char_of (unat (drop_bit (k * 8) t AND 0xFF))"

definition sextets :: "32 word \<Rightarrow> 32 word \<Rightarrow> 32 word \<Rightarrow> 32 word \<Rightarrow> 32 word" where
  "sextets a b c d = push_bit 18 a + push_bit 12 b + push_bit 6 c + d"

text \<open>The sextets of some characters, the first that is not in the alphabet raising.\<close>

fun get_sextets :: "string \<Rightarrow> string \<Rightarrow> exn + 32 word list" where
  "get_sextets al [] = Inr []"
| "get_sextets al (c # cs) =
     (case get_sextet al c of
        Inl e \<Rightarrow> Inl e
      | Inr w \<Rightarrow> (case get_sextets al cs of Inl e \<Rightarrow> Inl e | Inr ws \<Rightarrow> Inr (w # ws)))"

fun decode_groups :: "string \<Rightarrow> string \<Rightarrow> exn + string" where
  "decode_groups al (p # q # r # s # base) =
     (case get_sextets al [p, q, r, s] of
        Inr [a, b, c, d] \<Rightarrow>
          (let t = sextets a b c d
           in (case decode_groups al base of
                 Inl e \<Rightarrow> Inl e
               | Inr res \<Rightarrow> Inr (out_byte t 2 # out_byte t 1 # out_byte t 0 # res)))
      | Inr _ \<Rightarrow> Inr []
      | Inl e \<Rightarrow> Inl e)"
| "decode_groups al _ = Inr []"

text \<open>The incomplete last group: three characters and one fill, or two and two fills.\<close>

definition decode_rest :: "string \<Rightarrow> nat \<Rightarrow> string \<Rightarrow> exn + string" where
  "decode_rest al fill_cnt rest =
     (if fill_cnt = 0 then Inr []
      else
        (case get_sextets al (take 2 rest) of
           Inr [a, b] \<Rightarrow>
             (let t = push_bit 18 a + push_bit 12 b
              in if fill_cnt = 1 then
                   (case get_sextet al (rest ! 2) of
                      Inl e \<Rightarrow> Inl e
                    | Inr c \<Rightarrow>
                        (let u = t OR push_bit 6 c in Inr [out_byte u 2, out_byte u 1]))
                 else if fill_cnt = 2 then Inr [out_byte t 2]
                 else Inr [])
         | Inr _ \<Rightarrow> Inr []
         | Inl e \<Rightarrow> Inl e))"

definition decode_string :: "string \<Rightarrow> string \<Rightarrow> string \<Rightarrow> exn + string" where
  "decode_string al fl base =
     (case strip_fill fl base (length base) 0 of
        Inl e \<Rightarrow> Inl e
      | Inr (sz, fill_cnt) \<Rightarrow>
          if (sz + fill_cnt) mod 4 \<noteq> 0 then
            Inl (Runtime_error ''Invalid input: incorrect total size'')
          else
            (let fast_size = sz - sz mod 4
             in case decode_groups al (take fast_size base) of
                  Inl e \<Rightarrow> Inl e
                | Inr res \<Rightarrow>
                    (case decode_rest al fill_cnt (drop fast_size base) of
                       Inl e \<Rightarrow> Inl e
                     | Inr out \<Rightarrow> Inr (res @ out))))"

definition decode :: "alphabet \<Rightarrow> string \<Rightarrow> exn + string" where
  "decode al base = decode_string (al_data al) (al_fill al) base"

section \<open>Padding\<close>

text \<open>A remainder of 1 adds three fills, a remainder of 3 one.\<close>

definition pad :: "alphabet \<Rightarrow> string \<Rightarrow> string" where
  "pad al base =
     base @ (let r = length base mod 4
             in if r = 1 then al_fill al @ al_fill al @ al_fill al
                else if r = 2 then al_fill al @ al_fill al
                else if r = 3 then al_fill al
                else [])"

definition trim :: "alphabet \<Rightarrow> string \<Rightarrow> string" where
  "trim al base =
     (case find_str (al_fill al) base of Some pos \<Rightarrow> substr base 0 pos | None \<Rightarrow> base)"

section \<open>Groups as numbers\<close>

lemma unat_octet [simp]: "unat (octet c) = byte c"
  by (simp add: octet_def unat_of_nat take_bit_nat_eq_self less_trans[OF byte_less])

lemma unat_push_bit:
  "unat (w :: 32 word) * 2 ^ k < 2 ^ 32 \<Longrightarrow> unat (push_bit k w) = unat w * 2 ^ k"
  by (subst unsigned_push_bit_eq) (simp add: push_bit_eq_mult take_bit_nat_eq_self)

lemma unat_add: "unat (v :: 32 word) + unat w < 2 ^ 32 \<Longrightarrow> unat (v + w) = unat v + unat w"
  by (simp add: unat_plus_if')

lemma unat_triple:
  assumes "unat a < 256" "unat b < 256" "unat c < 256"
  shows "unat (triple a b c) = unat a * 65536 + unat b * 256 + unat c"
  using assms by (simp add: triple_def unat_push_bit unat_add)

lemma unat_field:
  "unat (drop_bit k (w :: 32 word) AND 0x3F) = unat w div 2 ^ k mod 64"
  "unat (drop_bit k (w :: 32 word) AND 0xFF) = unat w div 2 ^ k mod 256"
proof -
  have m: "unat w mod 4294967296 = unat w" using unsigned_less[of w, where 'a = nat] by simp
  have "(0x3F :: 32 word) = mask 6" "(0xFF :: 32 word) = mask 8" by (simp_all add: mask_eq_exp_minus_1)
  then show "unat (drop_bit k w AND 0x3F) = unat w div 2 ^ k mod 64"
    "unat (drop_bit k w AND 0xFF) = unat w div 2 ^ k mod 256"
    by (simp_all only: flip: take_bit_eq_mask,
        simp_all only: unsigned_take_bit_eq unsigned_drop_bit_eq,
        simp_all add: take_bit_eq_mod drop_bit_eq_div m)
qed

lemma unat_sextets:
  assumes "unat a < 64" "unat b < 64" "unat c < 64" "unat d < 64"
  shows "unat (sextets a b c d) = unat a * 2 ^ 18 + unat b * 2 ^ 12 + unat c * 2 ^ 6 + unat d"
  using assms by (simp add: sextets_def unat_push_bit unat_add)

section \<open>Alphabets that decode\<close>

text \<open>
  What the proofs need of an alphabet: 64 distinct characters, and a fill that starts with
  none of them.
\<close>

definition alphabet_ok :: "alphabet \<Rightarrow> bool" where
  "alphabet_ok al \<longleftrightarrow>
     length (al_data al) = 64 \<and> distinct (al_data al) \<and> al_fill al \<noteq> [] \<and> hd (al_fill al) \<notin> set (al_data al)"

lemma alphabets_ok [simp]: "alphabet_ok base64" "alphabet_ok base64url"
  by (simp_all add: alphabet_ok_def base64_def base64url_def letters_def)

lemma find_char_nth: "distinct al \<Longrightarrow> i < length al \<Longrightarrow> find_char (al ! i) al = Some i"
proof (induction al arbitrary: i)
  case (Cons c al)
  then show ?case by (cases i) auto
qed simp

lemma unat_sextet: "unat (drop_bit k (t :: 32 word) AND 0x3F) < 64"
  by (simp add: unat_field)

lemma sextet_char_in: "length al = 64 \<Longrightarrow> sextet_char al t k \<in> set al"
  using unat_sextet[of "k * 6" t] by (simp add: sextet_char_def)

lemma get_sextet_char:
  "length al = 64 \<Longrightarrow> distinct al \<Longrightarrow>
   get_sextet al (sextet_char al t k) = Inr (drop_bit (k * 6) t AND 0x3F)"
  using unat_sextet[of "k * 6" t] by (simp add: get_sextet_def sextet_char_def find_char_nth)

lemma div_mod_sum:
  "t < 2 ^ 24 \<Longrightarrow> (t :: nat) div 2 ^ 18 mod 64 * 2 ^ 18 + t div 2 ^ 12 mod 64 * 2 ^ 12 +
     t div 2 ^ 6 mod 64 * 2 ^ 6 + t mod 64 = t"
  using mod_mult2_eq[of t 64 64] mod_mult2_eq[of t 4096 64] mod_mult2_eq[of t 262144 64] by simp

lemma sextets_of_triple:
  assumes "unat t < 2 ^ 24"
  shows "sextets (drop_bit 18 t AND 0x3F) (drop_bit 12 t AND 0x3F) (drop_bit 6 t AND 0x3F) (t AND 0x3F) = t"
proof -
  have "t AND 0x3F = drop_bit 0 t AND 0x3F" by simp
  then have "unat (t AND 0x3F) = unat t mod 64" using unat_field(1)[of 0 t] by simp
  with div_mod_sum[OF assms] unat_sextets[of "drop_bit 18 t AND 0x3F" "drop_bit 12 t AND 0x3F"
      "drop_bit 6 t AND 0x3F" "t AND 0x3F"]
  have "unat (sextets (drop_bit 18 t AND 0x3F) (drop_bit 12 t AND 0x3F) (drop_bit 6 t AND 0x3F) (t AND 0x3F)) = unat t"
    by (simp only: unat_field(1) mod_less_divisor zero_less_numeral)
  then show ?thesis by (simp add: word_unat_eq_iff)
qed

lemma out_byte_triple:
  assumes "unat t = byte a * 65536 + byte b * 256 + byte c"
  shows "out_byte t 2 = a" "out_byte t 1 = b" "out_byte t 0 = c"
proof -
  have l: "byte b * 256 + byte c < 65536" using byte_less[of b] byte_less[of c] by linarith
  have "(byte a * 65536 + (byte b * 256 + byte c)) div 65536 = byte a"
    using l by (subst div_mult_self3) simp_all
  moreover have "((byte a * 256 + byte b) * 256 + byte c) div 256 = byte a * 256 + byte b"
    using byte_less[of c] by (subst div_mult_self3) simp_all
  ultimately have "(byte a * 65536 + byte b * 256 + byte c) div 65536 = byte a"
    "(byte a * 65536 + byte b * 256 + byte c) div 256 mod 256 = byte b"
    "(byte a * 65536 + byte b * 256 + byte c) mod 256 = byte c"
    using mod_mult_self3[of "byte a * 256 + byte b" 256 "byte c"]
    by (simp_all add: algebra_simps)
  with unat_field(2)[of 16 t] unat_field(2)[of 8 t] unat_field(2)[of 0 t] assms
  show "out_byte t 2 = a" "out_byte t 1 = b" "out_byte t 0 = c"
    by (simp_all add: out_byte_def)
qed

section \<open>Encoding and decoding\<close>

text \<open>What one encoding is: a body of alphabet characters and at most two fills that decode.\<close>

definition decodes_to :: "string \<Rightarrow> string \<Rightarrow> nat \<Rightarrow> string \<Rightarrow> bool" where
  "decodes_to al body k bin \<longleftrightarrow>
     k \<le> 2 \<and> (length body + k) mod 4 = 0 \<and> set body \<subseteq> set al \<and>
     (let fast = length body - length body mod 4
      in \<exists>x y. decode_groups al (take fast body) = Inr x \<and>
           decode_rest al k (drop fast body) = Inr y \<and> x @ y = bin)"

lemma decodes_to_group:
  assumes "decodes_to al body k bin" and al: "length al = 64" "distinct al"
    and t: "t = triple (octet a) (octet b) (octet c)"
  shows "decodes_to al (sextet_char al t 3 # sextet_char al t 2 # sextet_char al t 1 # sextet_char al t 0 # body)
    k (a # b # c # bin)"
proof -
  have u: "unat t = byte a * 65536 + byte b * 256 + byte c"
    unfolding t by (subst unat_triple) simp_all
  have "unat t < 16777216" unfolding u using byte_less[of a] byte_less[of b] byte_less[of c] by linarith
  then have "unat t < 2 ^ 24" by simp
  from sextets_of_triple[OF this] out_byte_triple[OF u] get_sextet_char[OF al]
  have "decode_groups al (sextet_char al t 3 # sextet_char al t 2 # sextet_char al t 1 # sextet_char al t 0 # r) =
      (case decode_groups al r of Inl e \<Rightarrow> Inl e | Inr res \<Rightarrow> Inr (a # b # c # res))" for r
    by (cases "decode_groups al r") (simp_all add: Let_def)
  moreover have "Suc (Suc (Suc (Suc (length body)))) - Suc (Suc (Suc (Suc (length body)))) mod 4 =
      Suc (Suc (Suc (Suc (length body - length body mod 4))))"
  proof -
    have "(4 + length body) mod 4 = length body mod 4" "length body mod 4 \<le> length body" by simp_all
    then show ?thesis by simp
  qed
  ultimately show ?thesis
    using assms(1) sextet_char_in[OF al(1)]
    unfolding decodes_to_def by (auto simp: Let_def mod_Suc)
qed

lemma field_zero: "unat t div 2 ^ k mod 64 = 0 \<Longrightarrow> drop_bit k (t :: 32 word) AND 0x3F = 0"
  by (simp add: word_unat_eq_iff unat_field)

lemma or_field:
  fixes w v :: "32 word"
  shows "push_bit 12 w OR push_bit 6 (v AND 0x3F) = push_bit 12 w + push_bit 6 (v AND 0x3F)"
proof (rule disjunctive_add_eq_or[symmetric])
  have m: "v AND 0x3F = take_bit 6 v" by (simp add: take_bit_eq_mask mask_eq_exp_minus_1)
  show "push_bit 12 w AND push_bit 6 (v AND 0x3F) = 0"
    unfolding m by (auto simp: bit_eq_iff bit_simps)
qed

lemma decodes_to_last:
  assumes al: "length al = 64" "distinct al"
  shows "t = triple (octet a) 0 0 \<Longrightarrow> decodes_to al [sextet_char al t 3, sextet_char al t 2] 2 [a]"
    and "u = triple (octet a) (octet b) 0 \<Longrightarrow>
      decodes_to al [sextet_char al u 3, sextet_char al u 2, sextet_char al u 1] 1 [a, b]"
proof -
  assume t: "t = triple (octet a) 0 0"
  have "unat t = byte a * 65536" unfolding t by (subst unat_triple) simp_all
  then have u: "unat t = byte a * 65536 + byte (char_of (0 :: nat)) * 256 + byte (char_of (0 :: nat))"
    by (simp add: byte_char_of)
  then have "unat t < 2 ^ 24" using byte_less[of a] by (simp add: byte_char_of; linarith)
  moreover have e: "byte a * 65536 = 64 * (64 * (byte a * 16))" by simp
  have "byte a * 65536 div 64 mod 64 = 0" "byte a * 65536 mod 64 = 0"
    unfolding e by (simp_all only: nonzero_mult_div_cancel_left mod_mult_self1_is_0 numeral_neq_zero not_False_eq_True)
  then have "drop_bit 6 t AND 0x3F = 0" "t AND 0x3F = 0"
    using field_zero[of t 6] field_zero[of t 0] u by (simp_all add: byte_char_of)
  ultimately have "push_bit 18 (drop_bit 18 t AND 0x3F) + push_bit 12 (drop_bit 12 t AND 0x3F) = t"
    using sextets_of_triple[of t] by (simp add: sextets_def)
  with out_byte_triple(1)[OF u] get_sextet_char[OF al] sextet_char_in[OF al(1)]
  show "decodes_to al [sextet_char al t 3, sextet_char al t 2] 2 [a]"
    by (simp add: decodes_to_def decode_rest_def Let_def)
next
  assume t: "u = triple (octet a) (octet b) 0"
  have "unat u = byte a * 65536 + byte b * 256" unfolding t by (subst unat_triple) simp_all
  then have v: "unat u = byte a * 65536 + byte b * 256 + byte (char_of (0 :: nat))"
    by (simp add: byte_char_of)
  then have "unat u < 2 ^ 24" using byte_less[of a] byte_less[of b] by (simp add: byte_char_of; linarith)
  moreover have e: "byte a * 65536 + byte b * 256 = 64 * (byte a * 1024 + byte b * 4)" by simp
  have "(byte a * 65536 + byte b * 256) mod 64 = 0" unfolding e by (rule mod_mult_self1_is_0)
  then have "u AND 0x3F = 0"
    using field_zero[of u 0] v by (simp add: byte_char_of)
  ultimately have s: "push_bit 18 (drop_bit 18 u AND 0x3F) + push_bit 12 (drop_bit 12 u AND 0x3F)
      + push_bit 6 (drop_bit 6 u AND 0x3F) = u"
    using sextets_of_triple[of u] by (simp add: sextets_def)
  have "push_bit 18 (drop_bit 18 u AND 0x3F) + push_bit 12 (drop_bit 12 u AND 0x3F) =
      push_bit 12 (push_bit 6 (drop_bit 18 u AND 0x3F) + (drop_bit 12 u AND 0x3F))"
    by (simp add: push_bit_add)
  with or_field s have "(push_bit 18 (drop_bit 18 u AND 0x3F) + push_bit 12 (drop_bit 12 u AND 0x3F))
      OR push_bit 6 (drop_bit 6 u AND 0x3F) = u"
    by metis
  with out_byte_triple(1,2)[OF v] get_sextet_char[OF al] sextet_char_in[OF al(1)]
  show "decodes_to al [sextet_char al u 3, sextet_char al u 2, sextet_char al u 1] 1 [a, b]"
    by (simp add: decodes_to_def decode_rest_def Let_def)
qed

lemma encode_bytes_decodes:
  "length al = 64 \<Longrightarrow> distinct al \<Longrightarrow>
   \<exists>body k. encode_bytes al fl bin = body @ concat (replicate k fl) \<and> decodes_to al body k bin"
proof (induction al fl bin rule: encode_bytes.induct)
  case (1 al fl a b c bin)
  let ?t = "triple (octet a) (octet b) (octet c)"
  from 1 obtain body k where "encode_bytes al fl bin = body @ concat (replicate k fl)"
    "decodes_to al body k bin" by auto
  with decodes_to_group[OF _ 1(2,3) refl]
  have "encode_bytes al fl (a # b # c # bin) =
      (sextet_char al ?t 3 # sextet_char al ?t 2 # sextet_char al ?t 1 # sextet_char al ?t 0 # body)
      @ concat (replicate k fl) \<and>
    decodes_to al (sextet_char al ?t 3 # sextet_char al ?t 2 # sextet_char al ?t 1 # sextet_char al ?t 0 # body)
      k (a # b # c # bin)"
    by (simp add: Let_def)
  then show ?case by blast
next
  case (2 al fl)
  then show ?case
    by (intro exI[of _ "[]"] exI[of _ 0]) (simp add: decodes_to_def decode_rest_def)
next
  case (3 al fl a)
  then show ?case
    using decodes_to_last(1)[OF 3 refl, of a]
    by (intro exI[of _ "[sextet_char al (triple (octet a) 0 0) 3, sextet_char al (triple (octet a) 0 0) 2]"]
        exI[of _ 2]) (simp add: Let_def numeral_2_eq_2)
next
  case (4 al fl a b)
  then show ?case
    using decodes_to_last(2)[OF 4 refl, of a b]
    by (intro exI[of _ "[sextet_char al (triple (octet a) (octet b) 0) 3,
          sextet_char al (triple (octet a) (octet b) 0) 2, sextet_char al (triple (octet a) (octet b) 0) 1]"]
        exI[of _ 1]) (simp add: Let_def)
qed

section \<open>Fills\<close>

lemma strip_body:
  assumes "set body \<subseteq> set al" "fl \<noteq> []" "hd fl \<notin> set al"
  shows "strip_fill fl (body @ r) (length body) k = Inr (length body, k)"
proof -
  have "substr (body @ r) (length body - length fl) (length fl) \<noteq> fl" if "length fl < length body"
  proof
    assume "substr (body @ r) (length body - length fl) (length fl) = fl"
    moreover have lt: "length body - length fl < length body" using that assms(2) by (cases fl) auto
    then have "hd (substr (body @ r) (length body - length fl) (length fl)) = body ! (length body - length fl)"
      using assms(2) by (simp add: substr_def hd_append hd_drop_conv_nth)
    ultimately show False using assms(1,3) nth_mem[OF lt] by auto
  qed
  then show ?thesis by (subst strip_fill.simps) auto
qed

lemma strip_fills:
  assumes "set body \<subseteq> set al" "fl \<noteq> []" "hd fl \<notin> set al" "j \<le> k" "body = [] \<longrightarrow> k = 0"
  shows "i + j \<le> 2 \<Longrightarrow> strip_fill fl (body @ concat (replicate k fl)) (length body + j * length fl) i = Inr (length body, i + j)"
  using assms(4)
proof (induction j arbitrary: i)
  case 0
  then show ?case using strip_body[OF assms(1-3)] by simp
next
  case (Suc j)
  have "concat (replicate k fl) = concat (replicate j fl) @ fl @ concat (replicate (k - Suc j) fl)"
    using replicate_add[of j "Suc (k - Suc j)" fl] Suc.prems(2) by simp
  moreover have "length (concat (replicate j fl)) = j * length fl" by (induction j) auto
  ultimately have "substr (body @ concat (replicate k fl)) (length body + j * length fl) (length fl) = fl"
    by (simp add: substr_def)
  moreover have "body \<noteq> []" using assms(5) Suc.prems by auto
  ultimately show ?case
    using Suc by (subst strip_fill.simps) simp
qed

section \<open>Round trips\<close>

lemma encode_shape:
  assumes "alphabet_ok al"
  obtains body k where "encode al bin = body @ concat (replicate k (al_fill al))"
    "decodes_to (al_data al) body k bin" "set body \<subseteq> set (al_data al)" "k \<le> 2"
    "(length body + k) mod 4 = 0" "body = [] \<longrightarrow> k = 0"
proof -
  obtain body k where b: "encode al bin = body @ concat (replicate k (al_fill al))"
    "decodes_to (al_data al) body k bin"
    using encode_bytes_decodes[of "al_data al"] assms unfolding encode_def alphabet_ok_def by blast
  from b(2) have c: "set body \<subseteq> set (al_data al)" "k \<le> 2" "(length body + k) mod 4 = 0"
    by (simp_all add: decodes_to_def)
  then have "body = [] \<longrightarrow> k = 0" by auto
  then show thesis by (rule that[OF b c])
qed

lemma decode_rest_append:
  assumes "(length rest + k) mod 4 = 0" "length rest < 4" "k \<le> 2"
  shows "decode_rest al k (rest @ z) = decode_rest al k rest"
proof -
  have "k = 0 \<or> k = 1 \<and> length rest = 3 \<or> k = 2 \<and> length rest = 2"
    using assms by presburger
  then show ?thesis
    by (elim disjE conjE) (auto simp: decode_rest_def numeral_2_eq_2 numeral_3_eq_3 length_Suc_conv cong: sum.case_cong list.case_cong)
qed

lemma decode_encode:
  assumes "alphabet_ok al"
  shows "decode al (encode al bin) = Inr bin"
proof -
  from encode_shape[OF assms] obtain body k where
    e: "encode al bin = body @ concat (replicate k (al_fill al))" "decodes_to (al_data al) body k bin"
    and b: "set body \<subseteq> set (al_data al)" "k \<le> 2" "(length body + k) mod 4 = 0" "body = [] \<longrightarrow> k = 0" .
  have "length (concat (replicate k (al_fill al))) = k * length (al_fill al)" by (induction k) auto
  then have "strip_fill (al_fill al) (encode al bin) (length (encode al bin)) 0 = Inr (length body, k)"
    using strip_fills[OF b(1), of "al_fill al" k k 0] b(2,4) assms unfolding e alphabet_ok_def by simp
  moreover have "decode_rest (al_data al) k (drop (length body - length body mod 4) body @ concat (replicate k (al_fill al))) =
      decode_rest (al_data al) k (drop (length body - length body mod 4) body)"
    using b(2,3) by (intro decode_rest_append) (simp_all add: mod_add_left_eq)
  moreover obtain x y where "decode_groups (al_data al) (take (length body - length body mod 4) body) = Inr x"
    "decode_rest (al_data al) k (drop (length body - length body mod 4) body) = Inr y" "x @ y = bin"
    using e(2) unfolding decodes_to_def Let_def by blast
  ultimately show ?thesis
    using b(3) by (simp add: decode_def decode_string_def Let_def e(1))
qed

lemma trim_encode:
  assumes "alphabet_ok al"
  shows "set (trim al (encode al bin)) \<subseteq> set (al_data al)"
    and "pad al (trim al (encode al bin)) = encode al bin"
proof -
  from encode_shape[OF assms] obtain body k where
    e: "encode al bin = body @ concat (replicate k (al_fill al))"
    and b: "set body \<subseteq> set (al_data al)" "k \<le> 2" "(length body + k) mod 4 = 0" .
  let ?f = "al_fill al"
  have f: "?f \<noteq> []" "hd ?f \<notin> set (al_data al)" using assms by (simp_all add: alphabet_ok_def)
  have no: "\<not> prefix ?f (drop j (body @ r))" if "j < length body" for j r
  proof
    assume "prefix ?f (drop j (body @ r))"
    then have "hd ?f = body ! j"
      using that f(1) by (cases ?f) (auto simp: prefix_def simp flip: Cons_nth_drop_Suc)
    with f(2) b(1) that show False using nth_mem by force
  qed
  have "find_str ?f (encode al bin) = (if k = 0 then None else Some (length body))"
  proof (cases k)
    case 0
    have "find_str ?f body = Some i \<Longrightarrow> False" for i
      using find_str_Some[of ?f body i] find_str_length[of ?f body i] no[of i "[]"] f(1) by (cases ?f) auto
    with 0 show ?thesis by (cases "find_str ?f body") (auto simp: e)
  next
    case (Suc m)
    then show ?thesis
      using find_str_append_notin[of body ?f "concat (replicate m ?f)"] no by (simp add: e)
  qed
  then have t: "trim al (encode al bin) = body"
    by (cases "k = 0") (simp_all add: trim_def e substr_def)
  with b show "set (trim al (encode al bin)) \<subseteq> set (al_data al)" by simp
  have "k = 0 \<or> k = 1 \<or> k = 2" using b(2) by auto
  then show "pad al (trim al (encode al bin)) = encode al bin"
    unfolding t using b(3)
    by (elim disjE) (auto simp: pad_def e Let_def numeral_2_eq_2 mod_Suc split: if_splits)
qed

interpretation b64: codec "encode base64" "decode base64" "\<lambda>s. True"
  by unfold_locales (simp add: decode_encode)

text \<open>C25:
  Decoding gives back every byte string that was encoded: for base64, and for base64url also
  through the trimming and padding of the fills that tokens are written with.
\<close>

theorem base64_roundtrip:
  "decode base64 (encode base64 bin) = Inr bin \<and>
   decode base64url (pad base64url (trim base64url (encode base64url bin))) = Inr bin"
  by (simp add: b64.dec_enc decode_encode trim_encode)

end
