(* ===== verification/Jwt_Claims.thy ===== *)
theory Jwt_Claims
  imports Base64 Picojson_Parse
begin

text \<open>
  Claims of \<^verbatim>\<open>jwt.h\<close> over the JSON traits of \<^verbatim>\<open>traits/kazuho-picojson/traits.h\<close>: a claim is a JSON
  value, a map of claims is a JSON object. A decoded token is a record with both maps, the
  three parts of the text and their decoded forms.
\<close>

section \<open>The JSON traits\<close>

datatype json_type = Boolean | Integer | Number | String | Array | Object

definition get_type :: "json \<Rightarrow> exn + json_type" where
  "get_type v =
     (if is_bool v then Inr Boolean
      else if is_int64 v then Inr Integer
      else if is_double v then Inr Number
      else if is_string v then Inr String
      else if is_array v then Inr Array
      else if is_object v then Inr Object
      else Inl (Logic_error ''invalid type''))"

text \<open>An exception of the JSON library seen by its caller.\<close>

fun lift_pj :: "pj_exn + 'a \<Rightarrow> exn + 'a" where
  "lift_pj (Inl e) = Inl (Json_exn e)"
| "lift_pj (Inr x) = Inr x"

definition as_object :: "json \<Rightarrow> exn + (string, json) smap" where
  "as_object v = (if is_object v then lift_pj (get_object v) else Inl Bad_cast)"

definition as_string :: "json \<Rightarrow> exn + string" where
  "as_string v = (if is_string v then lift_pj (get_string v) else Inl Bad_cast)"

definition as_array :: "json \<Rightarrow> exn + json list" where
  "as_array v = (if is_array v then lift_pj (get_array v) else Inl Bad_cast)"

definition as_int :: "json \<Rightarrow> exn + 64 word" where
  "as_int v = (if is_int64 v then lift_pj (get_int64 v) else Inl Bad_cast)"

definition as_bool :: "json \<Rightarrow> exn + bool" where
  "as_bool v = (if is_bool v then lift_pj (get_bool v) else Inl Bad_cast)"

text \<open>Reading a number out of an integer converts the stored value; the caller holds a copy.\<close>

definition as_number :: "json \<Rightarrow> exn + double" where
  "as_number v = (if is_double v then sbind (lift_pj (get_double v)) (\<lambda>(d, _). Inr d) else Inl Bad_cast)"

text \<open>\<^verbatim>\<open>traits::parse\<close>: the value, or \<open>None\<close> where it returns false and the value is not read.\<close>

definition traits_parse :: "string \<Rightarrow> exn + json option" where
  "traits_parse s = sbind (lift_pj (parse s)) (\<lambda>r. Inr (case r of Inl err \<Rightarrow> None | Inr v \<Rightarrow> Some v))"

definition traits_serialize :: "json \<Rightarrow> string" where
  "traits_serialize v = serialize False v"

section \<open>Dates\<close>

text \<open>
  \<^verbatim>\<open>system_clock::time_point\<close> counts nanoseconds in 64 bits; \<^verbatim>\<open>from_time_t\<close> multiplies seconds
  by 10^9 in that width.
\<close>

type_synonym date = "64 word"

definition nanos :: "64 word" where
  "nanos = 1000000000"

definition from_time_t :: "64 word \<Rightarrow> date" where
  "from_time_t t = t * nanos"

definition to_time_t :: "date \<Rightarrow> 64 word" where
  "to_time_t d = (let s = sint d in word_of_int (if 0 \<le> s then s div 1000000000 else - ((- s) div 1000000000)))"

section \<open>Claims\<close>

type_synonym claim = json
type_synonym claims = "(string, json) smap"

definition claim_of_string :: "string \<Rightarrow> claim" where
  "claim_of_string s = JString s"

definition claim_of_date :: "date \<Rightarrow> claim" where
  "claim_of_date d = JInt (to_time_t d)"

definition claim_of_set :: "string list \<Rightarrow> claim" where
  "claim_of_set s = JArray (map JString s)"

definition as_date :: "claim \<Rightarrow> exn + date" where
  "as_date c = sbind (as_int c) (\<lambda>t. Inr (from_time_t t))"

definition as_set :: "claim \<Rightarrow> exn + string list" where
  "as_set c =
     sbind (as_array c) (\<lambda>a.
     sbind (smap_list as_string a) (\<lambda>ss. Inr (fold sset_insert ss [])))"

section \<open>Maps of claims\<close>

definition parse_claims :: "string \<Rightarrow> exn + claims" where
  "parse_claims str =
     sbind (traits_parse str) (\<lambda>r.
       case r of None \<Rightarrow> Inl (Runtime_error ''invalid json'') | Some v \<Rightarrow> as_object v)"

definition has_claim :: "claims \<Rightarrow> string \<Rightarrow> bool" where
  "has_claim m name \<longleftrightarrow> map_of m name \<noteq> None"

definition get_claim :: "claims \<Rightarrow> string \<Rightarrow> exn + claim" where
  "get_claim m name =
     (case map_of m name of None \<Rightarrow> Inl (Out_of_range ''claim not found'') | Some c \<Rightarrow> Inr c)"

text \<open>The unordered copy of all claims, filled in key order.\<close>

definition get_claims :: "claims \<Rightarrow> (string, claim) umap" where
  "get_claims m = fold (\<lambda>(k, v) u. if map_of u k = None then (k, v) # u else u) m []"

section \<open>Decoded tokens\<close>

record decoded_jwt =
  header_claims :: claims
  payload_claims :: claims
  jwt_token :: string
  header_text :: string
  header_base64 :: string
  payload_text :: string
  payload_base64 :: string
  jwt_signature :: string
  signature_base64 :: string

definition decode_jwt_with :: "(string \<Rightarrow> exn + string) \<Rightarrow> string \<Rightarrow> exn + decoded_jwt" where
  "decode_jwt_with dec tok =
     (case find_char (CHR ''.'') tok of
        None \<Rightarrow> Inl (Invalid_argument ''invalid token supplied'')
      | Some hdr_end \<Rightarrow>
          (case find_from ''.'' tok (hdr_end + 1) of
             None \<Rightarrow> Inl (Invalid_argument ''invalid token supplied'')
           | Some payload_end \<Rightarrow>
               (let h64 = substr tok 0 hdr_end;
                    p64 = substr tok (hdr_end + 1) (payload_end - hdr_end - 1);
                    s64 = drop (payload_end + 1) tok
                in sbind (dec h64) (\<lambda>h.
                   sbind (dec p64) (\<lambda>p.
                   sbind (dec s64) (\<lambda>s.
                   sbind (parse_claims h) (\<lambda>hc.
                   sbind (parse_claims p) (\<lambda>pc.
                     Inr \<lparr> header_claims = hc, payload_claims = pc, jwt_token = tok,
                           header_text = h, header_base64 = h64,
                           payload_text = p, payload_base64 = p64,
                           jwt_signature = s, signature_base64 = s64 \<rparr>))))))))"

text \<open>\<^verbatim>\<open>jwt::decode(token)\<close>, with base64url after padding.\<close>

definition base64url_decode :: "string \<Rightarrow> exn + string" where
  "base64url_decode s = decode base64url (pad base64url s)"

definition decode_jwt :: "string \<Rightarrow> exn + decoded_jwt" where
  "decode_jwt tok = decode_jwt_with base64url_decode tok"

subsection \<open>The payload\<close>

definition has_payload_claim :: "decoded_jwt \<Rightarrow> string \<Rightarrow> bool" where
  "has_payload_claim j name = has_claim (payload_claims j) name"

definition get_payload_claim :: "decoded_jwt \<Rightarrow> string \<Rightarrow> exn + claim" where
  "get_payload_claim j name = get_claim (payload_claims j) name"

definition has_issuer :: "decoded_jwt \<Rightarrow> bool" where
  "has_issuer j = has_payload_claim j ''iss''"

definition has_subject :: "decoded_jwt \<Rightarrow> bool" where
  "has_subject j = has_payload_claim j ''sub''"

definition has_audience :: "decoded_jwt \<Rightarrow> bool" where
  "has_audience j = has_payload_claim j ''aud''"

definition has_expires_at :: "decoded_jwt \<Rightarrow> bool" where
  "has_expires_at j = has_payload_claim j ''exp''"

definition has_not_before :: "decoded_jwt \<Rightarrow> bool" where
  "has_not_before j = has_payload_claim j ''nbf''"

definition has_issued_at :: "decoded_jwt \<Rightarrow> bool" where
  "has_issued_at j = has_payload_claim j ''iat''"

definition has_id :: "decoded_jwt \<Rightarrow> bool" where
  "has_id j = has_payload_claim j ''jti''"

definition get_issuer :: "decoded_jwt \<Rightarrow> exn + string" where
  "get_issuer j = sbind (get_payload_claim j ''iss'') as_string"

definition get_subject :: "decoded_jwt \<Rightarrow> exn + string" where
  "get_subject j = sbind (get_payload_claim j ''sub'') as_string"

definition get_audience :: "decoded_jwt \<Rightarrow> exn + string list" where
  "get_audience j =
     sbind (get_payload_claim j ''aud'') (\<lambda>aud.
     sbind (get_type aud) (\<lambda>t.
       if t = String then sbind (as_string aud) (\<lambda>s. Inr [s]) else as_set aud))"

definition get_expires_at :: "decoded_jwt \<Rightarrow> exn + date" where
  "get_expires_at j = sbind (get_payload_claim j ''exp'') as_date"

definition get_not_before :: "decoded_jwt \<Rightarrow> exn + date" where
  "get_not_before j = sbind (get_payload_claim j ''nbf'') as_date"

definition get_issued_at :: "decoded_jwt \<Rightarrow> exn + date" where
  "get_issued_at j = sbind (get_payload_claim j ''iat'') as_date"

definition get_id :: "decoded_jwt \<Rightarrow> exn + string" where
  "get_id j = sbind (get_payload_claim j ''jti'') as_string"

subsection \<open>The header\<close>

definition has_header_claim :: "decoded_jwt \<Rightarrow> string \<Rightarrow> bool" where
  "has_header_claim j name = has_claim (header_claims j) name"

definition get_header_claim :: "decoded_jwt \<Rightarrow> string \<Rightarrow> exn + claim" where
  "get_header_claim j name = get_claim (header_claims j) name"

definition has_algorithm :: "decoded_jwt \<Rightarrow> bool" where
  "has_algorithm j = has_header_claim j ''alg''"

definition has_type :: "decoded_jwt \<Rightarrow> bool" where
  "has_type j = has_header_claim j ''typ''"

definition has_content_type :: "decoded_jwt \<Rightarrow> bool" where
  "has_content_type j = has_header_claim j ''cty''"

definition has_key_id :: "decoded_jwt \<Rightarrow> bool" where
  "has_key_id j = has_header_claim j ''kid''"

definition get_algorithm :: "decoded_jwt \<Rightarrow> exn + string" where
  "get_algorithm j = sbind (get_header_claim j ''alg'') as_string"

definition get_header_type :: "decoded_jwt \<Rightarrow> exn + string" where
  "get_header_type j = sbind (get_header_claim j ''typ'') as_string"

definition get_content_type :: "decoded_jwt \<Rightarrow> exn + string" where
  "get_content_type j = sbind (get_header_claim j ''cty'') as_string"

definition get_key_id :: "decoded_jwt \<Rightarrow> exn + string" where
  "get_key_id j = sbind (get_header_claim j ''kid'') as_string"

section \<open>Reading values\<close>

lemma as_Inr_iff [simp]:
  "as_string v = Inr s \<longleftrightarrow> v = JString s" "as_array v = Inr a \<longleftrightarrow> v = JArray a"
  "as_int v = Inr i \<longleftrightarrow> v = JInt i" "as_object v = Inr m \<longleftrightarrow> v = JObject m"
  "as_bool v = Inr b \<longleftrightarrow> v = JBool b"
  by (cases v; auto simp: as_string_def as_array_def as_int_def as_object_def as_bool_def
      is_string_def is_array_def is_int64_def is_object_def is_bool_def)+

lemma as_simps [simp]:
  "as_string (JString s) = Inr s" "as_array (JArray a) = Inr a" "as_int (JInt i) = Inr i"
  "as_object (JObject m) = Inr m" "as_bool (JBool b) = Inr b"
  by simp_all

lemma as_Inl:
  "as_string v = Inl e \<Longrightarrow> e = Bad_cast" "as_array v = Inl e \<Longrightarrow> e = Bad_cast"
  "as_int v = Inl e \<Longrightarrow> e = Bad_cast" "as_object v = Inl e \<Longrightarrow> e = Bad_cast"
  by (cases v; auto simp: as_string_def as_array_def as_int_def as_object_def
      is_string_def is_array_def is_int64_def is_object_def)+

lemma get_type_simps [simp]:
  "get_type (JString s) = Inr String" "get_type (JInt i) = Inr Integer" "get_type (JBool b) = Inr Boolean"
  "get_type (JArray a) = Inr Array" "get_type (JObject m) = Inr Object" "get_type (JNumber n) = Inr Number"
  "get_type JNull = Inl (Logic_error ''invalid type'')"
  by (simp_all add: get_type_def is_string_def is_array_def is_int64_def is_object_def is_bool_def
      is_double_def)

section \<open>What decoding gives\<close>

lemma find_from_char:
  "find_from [c] s pos = Some i \<Longrightarrow> pos \<le> i \<and> i < length s \<and> s ! i = c \<and> c \<notin> set (drop pos (take i s))"
proof -
  assume a: "find_from [c] s pos = Some i"
  then obtain j where j: "find_char c (drop pos s) = Some j" "i = pos + j"
    by (auto simp: find_from_def find_char_def split: if_splits)
  from find_char_Some[OF j(1)] show ?thesis
    by (auto simp: j(2) drop_take add.commute)
qed

text \<open>The shape of a token that decodes.\<close>

lemma decode_jwt_with_Inr:
  assumes "decode_jwt_with dec tok = Inr j"
  shows "tok = header_base64 j @ ''.'' @ payload_base64 j @ ''.'' @ signature_base64 j"
    and "CHR ''.'' \<notin> set (header_base64 j)" "CHR ''.'' \<notin> set (payload_base64 j)"
    and "jwt_token j = tok"
    and "dec (header_base64 j) = Inr (header_text j)" "dec (payload_base64 j) = Inr (payload_text j)"
      "dec (signature_base64 j) = Inr (jwt_signature j)"
    and "parse_claims (header_text j) = Inr (header_claims j)"
      "parse_claims (payload_text j) = Inr (payload_claims j)"
proof -
  from assms obtain a b where a: "find_char (CHR ''.'') tok = Some a"
    and b: "find_from ''.'' tok (a + 1) = Some b"
    by (auto simp: decode_jwt_with_def split: option.splits)
  have h: "a < length tok" "tok ! a = CHR ''.''" "CHR ''.'' \<notin> set (take a tok)"
    using find_char_Some[OF a] by auto
  have p: "a < b" "b < length tok" "tok ! b = CHR ''.''" "CHR ''.'' \<notin> set (drop (a + 1) (take b tok))"
    using find_from_char[OF b] by auto
  have f: "header_base64 j = take a tok" "payload_base64 j = drop (a + 1) (take b tok)"
    "signature_base64 j = drop (b + 1) tok"
    using assms by (auto simp: decode_jwt_with_def a b[simplified] Let_def sbind_Inr_iff substr_def drop_take)
  have "tok = take a tok @ tok ! a # drop (Suc a) tok" using h(1) by (rule id_take_nth_drop)
  moreover have "drop (Suc a) tok = drop (Suc a) (take b tok) @ drop b tok"
    using p(1) by (metis Suc_leI append_take_drop_id drop_append drop_0 length_take min.absorb1 min.absorb2 diff_is_0_eq linorder_le_cases p(2) less_imp_le)
  moreover have "drop b tok = tok ! b # drop (Suc b) tok" using p(2) by (rule Cons_nth_drop_Suc[symmetric])
  ultimately show "tok = header_base64 j @ ''.'' @ payload_base64 j @ ''.'' @ signature_base64 j"
    using h(2) p(3) by (simp add: f)
  show "CHR ''.'' \<notin> set (header_base64 j)" "CHR ''.'' \<notin> set (payload_base64 j)"
    using h(3) p(4) by (simp_all add: f)
  show "jwt_token j = tok" "dec (header_base64 j) = Inr (header_text j)"
    "dec (payload_base64 j) = Inr (payload_text j)" "dec (signature_base64 j) = Inr (jwt_signature j)"
    "parse_claims (header_text j) = Inr (header_claims j)"
    "parse_claims (payload_text j) = Inr (payload_claims j)"
    using assms by (auto simp: decode_jwt_with_def a b[simplified] Let_def sbind_Inr_iff)
qed

lemma find_from_append_notin:
  assumes "length u = pos" "c \<notin> set v"
  shows "find_from [c] (u @ v @ c # w) pos = Some (pos + length v)"
  using find_char_append_notin[OF assms(2), of w] assms(1) by (simp add: find_from_def find_char_def)

text \<open>A token put together from three parts without dots, which decode to JSON objects.\<close>

lemma decode_jwt_with_parts:
  assumes "CHR ''.'' \<notin> set h" "CHR ''.'' \<notin> set p"
    and "dec h = Inr ht" "dec p = Inr pt" "dec s = Inr sg"
    and "parse_claims ht = Inr hc" "parse_claims pt = Inr pc"
  shows "decode_jwt_with dec (h @ CHR ''.'' # p @ CHR ''.'' # s) =
    Inr \<lparr> header_claims = hc, payload_claims = pc, jwt_token = h @ CHR ''.'' # p @ CHR ''.'' # s,
          header_text = ht, header_base64 = h, payload_text = pt, payload_base64 = p,
          jwt_signature = sg, signature_base64 = s \<rparr>"
proof -
  let ?t = "h @ CHR ''.'' # p @ CHR ''.'' # s"
  have "find_char (CHR ''.'') ?t = Some (length h)"
    using assms(1) by (rule find_char_append_notin)
  moreover have "find_from ''.'' ?t (length h + 1) = Some (length h + 1 + length p)"
    using find_from_append_notin[of "h @ ''.''" "length h + 1" "CHR ''.''" p s] assms(2) by simp
  ultimately show ?thesis
    using assms by (simp add: decode_jwt_with_def Let_def substr_def)
qed

section \<open>The errors of decoding\<close>

lemma token_Thrown:
  "literal t v i \<noteq> Thrown e j"
  "number_of_token t i = Thrown e j \<Longrightarrow> e = Overflow_error"
  by (auto simp: literal_def number_of_token_def number_value_def Let_def
      split: prod.splits if_splits option.splits sum.splits list.splits)

lemma parse_value_Thrown:
  "parse_value fuel d i = Thrown e j \<Longrightarrow> e = Overflow_error"
  "parse_items fuel d vs i = Thrown e j \<Longrightarrow> e = Overflow_error"
  "parse_members fuel d m i = Thrown e j \<Longrightarrow> e = Overflow_error"
proof (induction fuel arbitrary: d i j vs m)
  case 0
  { case 1 then show ?case by simp }
  { case 2 then show ?case by simp }
  { case 3 then show ?case by simp }
next
  case (Suc fuel)
  {
    case 1
    then show ?case
      using Suc.IH(2) Suc.IH(3)
      by (auto simp: Let_def token_Thrown split: if_splits prod.splits option.splits)
  }
  {
    case 2
    then show ?case
      using Suc.IH(1) Suc.IH(2)
      by (auto simp: Let_def split: if_splits prod.splits parsed.splits)
  }
  {
    case 3
    then show ?case
      using Suc.IH(1) Suc.IH(3)
      by (auto simp: Let_def split: if_splits prod.splits option.splits parsed.splits)
  }
qed

text \<open>Everything that decoding a token can throw.\<close>

definition decode_error :: "exn \<Rightarrow> bool" where
  "decode_error e \<longleftrightarrow>
     e = Invalid_argument ''invalid token supplied'' \<or>
     e = Runtime_error ''Invalid input: too much fill'' \<or>
     e = Runtime_error ''Invalid input: incorrect total size'' \<or>
     e = Runtime_error ''Invalid input: not within alphabet'' \<or>
     e = Runtime_error ''invalid json'' \<or> e = Bad_cast \<or> e = Json_exn Overflow_error"

lemma parse_claims_error:
  assumes "parse_claims s = Inl e"
  shows "decode_error e"
proof -
  have "parse s = Inl x \<Longrightarrow> x = Overflow_error" for x
    by (auto simp: parse_def parse_text_def dest!: parse_value_Thrown split: parsed.splits)
  with assms show ?thesis
    by (cases "parse s") (auto simp: parse_claims_def traits_parse_def decode_error_def
        dest: as_Inl split: sum.splits)
qed

lemma strip_fill_error:
  "strip_fill fl b n k = Inl e \<Longrightarrow> e = Runtime_error ''Invalid input: too much fill''"
proof (induction fl b n k rule: strip_fill.induct)
  case (1 fl b n k)
  then show ?case by (subst (asm) (2) strip_fill.simps) (auto split: if_splits)
qed

lemma get_sextets_error:
  "get_sextet al c = Inl e \<Longrightarrow> e = Runtime_error ''Invalid input: not within alphabet''"
  "get_sextets al cs = Inl e \<Longrightarrow> e = Runtime_error ''Invalid input: not within alphabet''"
  by (auto simp: get_sextet_def split: option.splits)
    (induction cs, auto simp: get_sextet_def split: option.splits sum.splits)

lemma decode_groups_error:
  "decode_groups al s = Inl e \<Longrightarrow> e = Runtime_error ''Invalid input: not within alphabet''"
  by (induction al s rule: decode_groups.induct)
    (auto simp: Let_def simp del: get_sextets.simps dest: get_sextets_error split: sum.splits list.splits)

lemma decode_rest_error:
  "decode_rest al k s = Inl e \<Longrightarrow> e = Runtime_error ''Invalid input: not within alphabet''"
  by (auto simp: decode_rest_def Let_def dest: get_sextets_error split: sum.splits list.splits if_splits)

lemma base64url_decode_error: "base64url_decode s = Inl e \<Longrightarrow> decode_error e"
  by (auto simp: base64url_decode_def decode_def decode_string_def Let_def decode_error_def
      dest: strip_fill_error decode_groups_error decode_rest_error split: sum.splits if_splits prod.splits)

text \<open>
  Decoding a token fails only in documented ways: the text lacks one of its two dots, a part is not
  base64url, a part is not JSON or overflows a number, or it is JSON but not an object; in the last
  case the exception is \<^verbatim>\<open>std::bad_cast\<close>, which the documentation of \<^verbatim>\<open>decoded_jwt\<close> does not name.
\<close>

theorem decode_jwt_errors: "decode_jwt tok = Inl e \<Longrightarrow> decode_error e"
  by (auto simp: decode_jwt_def decode_jwt_with_def Let_def sbind_Inl_iff
      intro: base64url_decode_error parse_claims_error split: option.splits)
    (simp_all add: decode_error_def)

lemma decode_jwt_errors_witness:
  "decode_jwt ''e30'' = Inl (Invalid_argument ''invalid token supplied'') \<and>
   decode_error (Invalid_argument ''invalid token supplied'')"
proof -
  have "decode_jwt ''e30'' = Inl (Invalid_argument ''invalid token supplied'')"
    by (simp add: decode_jwt_def decode_jwt_with_def)
  with decode_jwt_errors[OF this] show ?thesis by simp
qed

text \<open>
  A decoded token is the text it was made from: header, payload and signature joined by dots, the
  first two without a dot; each part is the base64url form of the text kept beside it, and the claims
  are what the JSON parser read in the header and the payload.
\<close>

theorem decode_jwt_parts:
  assumes "decode_jwt tok = Inr j"
  shows "tok = header_base64 j @ ''.'' @ payload_base64 j @ ''.'' @ signature_base64 j \<and>
    CHR ''.'' \<notin> set (header_base64 j @ payload_base64 j) \<and>
    base64url_decode (header_base64 j) = Inr (header_text j) \<and>
    base64url_decode (payload_base64 j) = Inr (payload_text j) \<and>
    base64url_decode (signature_base64 j) = Inr (jwt_signature j) \<and>
    parse (header_text j) = Inr (Inr (JObject (header_claims j))) \<and>
    parse (payload_text j) = Inr (Inr (JObject (payload_claims j)))"
proof -
  have p: "parse s = Inr (Inr (JObject m))" if "parse_claims s = Inr m" for s m
    using that by (cases "parse s") (auto simp: parse_claims_def traits_parse_def split: sum.splits)
  show ?thesis
    using decode_jwt_with_Inr[OF assms[unfolded decode_jwt_def]] p by simp
qed

lemma decode_jwt_parts_witness:
  "base64url_decode ''e30'' = Inr ''{}'' \<and>
   parse ''{}'' = Inr (Inr (JObject []))"
proof -
  have "decode_jwt ''e30.e30.'' = Inr \<lparr> header_claims = [], payload_claims = [], jwt_token = ''e30.e30.'',
      header_text = ''{}'', header_base64 = ''e30'', payload_text = ''{}'', payload_base64 = ''e30'',
      jwt_signature = [], signature_base64 = [] \<rparr>"
    by code_simp
  from decode_jwt_parts[OF this] show ?thesis by simp
qed

end
