(* ===== verification/Jwt_Traits.thy ===== *)
theory Jwt_Traits
  imports Jwt_Claims
begin

text \<open>
  The trait classes that let \<^verbatim>\<open>jwt.h\<close> run on other JSON libraries (\<^verbatim>\<open>traits/nlohmann-json\<close>,
  \<^verbatim>\<open>traits/boost-json\<close>, \<^verbatim>\<open>traits/danielaparker-jsoncons\<close>). The libraries are not in the repository: what
  the classes call of one is a record of functions, an argument of the definitions. The contract that
  \<^verbatim>\<open>jwt.h\<close> documents for its accessors is the locale \<open>json_traits\<close>; the picojson traits are an instance of
  it, the three others of the stricter one.
\<close>

section \<open>The contract of the accessors\<close>

text \<open>A value that has a type is read as that type, and any other accessor reports a bad cast; a value
  without a type is never read.\<close>

definition guarded :: "('v \<Rightarrow> 'e + json_type) \<Rightarrow> 'e \<Rightarrow> json_type \<Rightarrow> ('v \<Rightarrow> 'e + 'r) \<Rightarrow> bool" where
  "guarded typing bad t accessor \<longleftrightarrow>
     (\<forall>v. (case typing v of Inr t' \<Rightarrow> (accessor v = Inl bad) = (t' \<noteq> t) | Inl e \<Rightarrow> \<exists>e'. accessor v = Inl e'))"

lemma guardedI:
  assumes "\<And>v t'. typing v = Inr t' \<Longrightarrow> accessor v = Inl bad \<longleftrightarrow> t' \<noteq> t"
    and "\<And>v e. typing v = Inl e \<Longrightarrow> \<exists>e'. accessor v = Inl e'"
  shows "guarded typing bad t accessor"
  using assms by (simp add: guarded_def split: sum.splits)

lemma guardedD: "guarded typing bad t accessor \<Longrightarrow> accessor v = Inr x \<Longrightarrow> typing v = Inr t"
  unfolding guarded_def by (drule spec[of _ v]) (auto split: sum.splits)

lemma guarded_other: "guarded typing bad t accessor \<Longrightarrow> typing v = Inr t' \<Longrightarrow> t' \<noteq> t \<Longrightarrow> accessor v = Inl bad"
  unfolding guarded_def by (drule spec[of _ v]) auto

locale json_traits =
  fixes typing :: "'v \<Rightarrow> 'e + json_type" and bad :: 'e
    and read_object :: "'v \<Rightarrow> 'e + 'o" and read_array :: "'v \<Rightarrow> 'e + 'a"
    and read_string :: "'v \<Rightarrow> 'e + string" and read_int :: "'v \<Rightarrow> 'e + 64 word" and read_bool :: "'v \<Rightarrow> 'e + bool"
  assumes object: "guarded typing bad Object read_object"
    and array: "guarded typing bad Array read_array"
    and string: "guarded typing bad String read_string"
    and int: "guarded typing bad Integer read_int"
    and bool: "guarded typing bad Boolean read_bool"
begin

text \<open>No value can be taken for two kinds: what the library accepts as a list of strings, a date or a
  string is nothing else.\<close>

lemma one_kind:
  "read_array v = Inr a \<Longrightarrow> read_string v = Inl bad \<and> read_int v = Inl bad \<and> read_object v = Inl bad"
  "read_string v = Inr s \<Longrightarrow> read_array v = Inl bad \<and> read_int v = Inl bad \<and> read_object v = Inl bad"
  "read_int v = Inr i \<Longrightarrow> read_array v = Inl bad \<and> read_string v = Inl bad \<and> read_bool v = Inl bad"
  using object array string int bool by (auto dest: guardedD intro: guarded_other)

end

locale strict_json_traits = json_traits +
  fixes read_number :: "'a \<Rightarrow> 'b + double"
  assumes number: "guarded typing bad Number read_number"
begin

lemma number_not_int:
  "read_int v = Inr i \<Longrightarrow> read_number v = Inl bad"
  "read_number v = Inr d \<Longrightarrow> read_int v = Inl bad"
  using int number by (auto dest: guardedD intro: guarded_other)

end

lemma lift_pj_not_bad_cast [simp]: "lift_pj r \<noteq> Inl Bad_cast"
  by (cases r) auto

interpretation picojson_traits: json_traits get_type Bad_cast as_object as_array as_string as_int Jwt_Claims.as_bool
  by unfold_locales (rule guardedI; case_tac v; auto simp: get_type_def as_object_def as_array_def as_string_def
      as_int_def Jwt_Claims.as_bool_def is_bool_def is_int64_def is_double_def is_string_def is_array_def is_object_def split: if_splits)+

section \<open>What the classes call of a library\<close>

text \<open>An exception is one the class throws or one of the library; the values of a library are its own,
  and so are its kinds, of which the source names some.\<close>

datatype 'x traits_exn = Own exn | Library 'x

record ('k, 'v, 'o, 'a, 'x) json_library =
  jl_kind :: "'v \<Rightarrow> 'k"
  jl_object :: "'v \<Rightarrow> 'x + 'o"
  jl_array :: "'v \<Rightarrow> 'x + 'a"
  jl_string :: "'v \<Rightarrow> 'x + string"
  jl_int64 :: "'v \<Rightarrow> 'x + 64 word"
  jl_uint64 :: "'v \<Rightarrow> 'x + 64 word"
  jl_bool :: "'v \<Rightarrow> 'x + bool"
  jl_double :: "'v \<Rightarrow> 'x + double"
  jl_parse :: "string \<Rightarrow> 'x + 'v"
  jl_print :: "'v \<Rightarrow> 'x + string"

definition library :: "'x + 'r \<Rightarrow> 'x traits_exn + 'r" where
  "library r = (case r of Inl e \<Rightarrow> Inl (Library e) | Inr x \<Rightarrow> Inr x)"

lemma library_not_own [simp]: "library r \<noteq> Inl (Own e)"
  by (simp add: library_def split: sum.splits)

definition invalid_type :: "'x traits_exn + json_type" where
  "invalid_type = Inl (Own (Logic_error ''invalid type''))"

definition bad_cast :: "'x traits_exn + 'r" where
  "bad_cast = Inl (Own Bad_cast)"

text \<open>\<^verbatim>\<open>parse\<close> of all three: what the library throws, or true and the value.\<close>

definition library_parse :: "('k, 'v, 'o, 'a, 'x) json_library \<Rightarrow> string \<Rightarrow> 'x traits_exn + (bool \<times> 'v)" where
  "library_parse jl str = sbind (library (jl_parse jl str)) (\<lambda>v. Inr (True, v))"

section \<open>nlohmann-json\<close>

datatype nl_kind = NBoolean | NInteger | NUnsigned | NFloat | NString | NArray | NObject | NOther

definition nlohmann_get_type :: "(nl_kind, 'v, 'o, 'a, 'x) json_library \<Rightarrow> 'v \<Rightarrow> 'x traits_exn + json_type" where
  "nlohmann_get_type jl v =
     (if jl_kind jl v = NBoolean then Inr Boolean
      else if jl_kind jl v = NInteger then Inr Integer
      else if jl_kind jl v = NUnsigned then Inr Integer
      else if jl_kind jl v = NFloat then Inr Number
      else if jl_kind jl v = NString then Inr String
      else if jl_kind jl v = NArray then Inr Array
      else if jl_kind jl v = NObject then Inr Object
      else invalid_type)"

definition nlohmann_as_object :: "(nl_kind, 'v, 'o, 'a, 'x) json_library \<Rightarrow> 'v \<Rightarrow> 'x traits_exn + 'o" where
  "nlohmann_as_object jl v = (if jl_kind jl v \<noteq> NObject then bad_cast else library (jl_object jl v))"

definition nlohmann_as_string :: "(nl_kind, 'v, 'o, 'a, 'x) json_library \<Rightarrow> 'v \<Rightarrow> 'x traits_exn + string" where
  "nlohmann_as_string jl v = (if jl_kind jl v \<noteq> NString then bad_cast else library (jl_string jl v))"

definition nlohmann_as_array :: "(nl_kind, 'v, 'o, 'a, 'x) json_library \<Rightarrow> 'v \<Rightarrow> 'x traits_exn + 'a" where
  "nlohmann_as_array jl v = (if jl_kind jl v \<noteq> NArray then bad_cast else library (jl_array jl v))"

text \<open>\<^verbatim>\<open>get<int64_t>\<close>, whichever integer kind the value has.\<close>

definition nlohmann_as_int :: "(nl_kind, 'v, 'o, 'a, 'x) json_library \<Rightarrow> 'v \<Rightarrow> 'x traits_exn + 64 word" where
  "nlohmann_as_int jl v =
     (case jl_kind jl v of
        NInteger \<Rightarrow> library (jl_int64 jl v)
      | NUnsigned \<Rightarrow> library (jl_int64 jl v)
      | _ \<Rightarrow> bad_cast)"

definition nlohmann_as_bool :: "(nl_kind, 'v, 'o, 'a, 'x) json_library \<Rightarrow> 'v \<Rightarrow> 'x traits_exn + bool" where
  "nlohmann_as_bool jl v = (if jl_kind jl v \<noteq> NBoolean then bad_cast else library (jl_bool jl v))"

definition nlohmann_as_number :: "(nl_kind, 'v, 'o, 'a, 'x) json_library \<Rightarrow> 'v \<Rightarrow> 'x traits_exn + double" where
  "nlohmann_as_number jl v = (if jl_kind jl v \<noteq> NFloat then bad_cast else library (jl_double jl v))"

definition nlohmann_parse :: "(nl_kind, 'v, 'o, 'a, 'x) json_library \<Rightarrow> string \<Rightarrow> 'x traits_exn + (bool \<times> 'v)" where
  "nlohmann_parse jl str = library_parse jl str"

definition nlohmann_serialize :: "(nl_kind, 'v, 'o, 'a, 'x) json_library \<Rightarrow> 'v \<Rightarrow> 'x traits_exn + string" where
  "nlohmann_serialize jl v = library (jl_print jl v)"

interpretation nlohmann: strict_json_traits "nlohmann_get_type jl" "Own Bad_cast" "nlohmann_as_object jl"
  "nlohmann_as_array jl" "nlohmann_as_string jl" "nlohmann_as_int jl" "nlohmann_as_bool jl" "nlohmann_as_number jl"
  for jl :: "(nl_kind, 'v, 'o, 'a, 'x) json_library"
  by unfold_locales (auto intro!: guardedI simp: nlohmann_get_type_def nlohmann_as_object_def nlohmann_as_array_def
      nlohmann_as_string_def nlohmann_as_int_def nlohmann_as_bool_def nlohmann_as_number_def bad_cast_def
      invalid_type_def split: nl_kind.splits if_splits)

section \<open>Boost.JSON\<close>

datatype bo_kind = BBool | BInt64 | BUint64 | BDouble | BString | BArray | BObject | BOther

definition boost_get_type :: "(bo_kind, 'v, 'o, 'a, 'x) json_library \<Rightarrow> 'v \<Rightarrow> 'x traits_exn + json_type" where
  "boost_get_type jl v =
     (if jl_kind jl v = BBool then Inr Boolean
      else if jl_kind jl v = BInt64 then Inr Integer
      else if jl_kind jl v = BUint64 then Inr Integer
      else if jl_kind jl v = BDouble then Inr Number
      else if jl_kind jl v = BString then Inr String
      else if jl_kind jl v = BArray then Inr Array
      else if jl_kind jl v = BObject then Inr Object
      else invalid_type)"

definition boost_as_object :: "(bo_kind, 'v, 'o, 'a, 'x) json_library \<Rightarrow> 'v \<Rightarrow> 'x traits_exn + 'o" where
  "boost_as_object jl v = (if jl_kind jl v \<noteq> BObject then bad_cast else library (jl_object jl v))"

definition boost_as_array :: "(bo_kind, 'v, 'o, 'a, 'x) json_library \<Rightarrow> 'v \<Rightarrow> 'x traits_exn + 'a" where
  "boost_as_array jl v = (if jl_kind jl v \<noteq> BArray then bad_cast else library (jl_array jl v))"

definition boost_as_string :: "(bo_kind, 'v, 'o, 'a, 'x) json_library \<Rightarrow> 'v \<Rightarrow> 'x traits_exn + string" where
  "boost_as_string jl v = (if jl_kind jl v \<noteq> BString then bad_cast else library (jl_string jl v))"

text \<open>The cast of an unsigned integer to a signed one keeps its bits.\<close>

definition boost_as_int :: "(bo_kind, 'v, 'o, 'a, 'x) json_library \<Rightarrow> 'v \<Rightarrow> 'x traits_exn + 64 word" where
  "boost_as_int jl v =
     (case jl_kind jl v of
        BInt64 \<Rightarrow> library (jl_int64 jl v)
      | BUint64 \<Rightarrow> sbind (library (jl_uint64 jl v)) (\<lambda>u. Inr (word_of_int (uint u)))
      | _ \<Rightarrow> bad_cast)"

definition boost_as_bool :: "(bo_kind, 'v, 'o, 'a, 'x) json_library \<Rightarrow> 'v \<Rightarrow> 'x traits_exn + bool" where
  "boost_as_bool jl v = (if jl_kind jl v \<noteq> BBool then bad_cast else library (jl_bool jl v))"

definition boost_as_number :: "(bo_kind, 'v, 'o, 'a, 'x) json_library \<Rightarrow> 'v \<Rightarrow> 'x traits_exn + double" where
  "boost_as_number jl v = (if jl_kind jl v \<noteq> BDouble then bad_cast else library (jl_double jl v))"

definition boost_parse :: "(bo_kind, 'v, 'o, 'a, 'x) json_library \<Rightarrow> string \<Rightarrow> 'x traits_exn + (bool \<times> 'v)" where
  "boost_parse jl str = library_parse jl str"

definition boost_serialize :: "(bo_kind, 'v, 'o, 'a, 'x) json_library \<Rightarrow> 'v \<Rightarrow> 'x traits_exn + string" where
  "boost_serialize jl v = library (jl_print jl v)"

lemma sbind_library_not_own [simp]: "sbind (library r) (\<lambda>u. Inr (f u)) \<noteq> Inl (Own e)"
  by (cases r) (simp_all add: library_def)

interpretation boost: strict_json_traits "boost_get_type jl" "Own Bad_cast" "boost_as_object jl"
  "boost_as_array jl" "boost_as_string jl" "boost_as_int jl" "boost_as_bool jl" "boost_as_number jl"
  for jl :: "(bo_kind, 'v, 'o, 'a, 'x) json_library"
  by unfold_locales (auto intro!: guardedI simp: boost_get_type_def boost_as_object_def boost_as_array_def
      boost_as_string_def boost_as_int_def boost_as_bool_def boost_as_number_def bad_cast_def
      invalid_type_def split: bo_kind.splits if_splits)

section \<open>jsoncons\<close>

datatype jc_kind = CBool | CInt64 | CUint64 | CHalf | CDouble | CString | CArray | CObject | COther

definition jsoncons_get_type :: "(jc_kind, 'v, 'o, 'a, 'x) json_library \<Rightarrow> 'v \<Rightarrow> 'x traits_exn + json_type" where
  "jsoncons_get_type jl v =
     (if jl_kind jl v = CBool then Inr Boolean
      else if jl_kind jl v = CInt64 then Inr Integer
      else if jl_kind jl v = CUint64 then Inr Integer
      else if jl_kind jl v = CHalf then Inr Number
      else if jl_kind jl v = CDouble then Inr Number
      else if jl_kind jl v = CString then Inr String
      else if jl_kind jl v = CArray then Inr Array
      else if jl_kind jl v = CObject then Inr Object
      else invalid_type)"

definition jsoncons_as_object :: "(jc_kind, 'v, 'o, 'a, 'x) json_library \<Rightarrow> 'v \<Rightarrow> 'x traits_exn + 'o" where
  "jsoncons_as_object jl v = (if jl_kind jl v \<noteq> CObject then bad_cast else library (jl_object jl v))"

definition jsoncons_as_array :: "(jc_kind, 'v, 'o, 'a, 'x) json_library \<Rightarrow> 'v \<Rightarrow> 'x traits_exn + 'a" where
  "jsoncons_as_array jl v = (if jl_kind jl v \<noteq> CArray then bad_cast else library (jl_array jl v))"

definition jsoncons_as_string :: "(jc_kind, 'v, 'o, 'a, 'x) json_library \<Rightarrow> 'v \<Rightarrow> 'x traits_exn + string" where
  "jsoncons_as_string jl v = (if jl_kind jl v \<noteq> CString then bad_cast else library (jl_string jl v))"

text \<open>Numbers and integers go by \<open>get_type\<close>, whose exception comes first.\<close>

definition jsoncons_as_number :: "(jc_kind, 'v, 'o, 'a, 'x) json_library \<Rightarrow> 'v \<Rightarrow> 'x traits_exn + double" where
  "jsoncons_as_number jl v =
     sbind (jsoncons_get_type jl v) (\<lambda>t. if t \<noteq> Number then bad_cast else library (jl_double jl v))"

definition jsoncons_as_int :: "(jc_kind, 'v, 'o, 'a, 'x) json_library \<Rightarrow> 'v \<Rightarrow> 'x traits_exn + 64 word" where
  "jsoncons_as_int jl v =
     sbind (jsoncons_get_type jl v) (\<lambda>t. if t \<noteq> Integer then bad_cast else library (jl_int64 jl v))"

definition jsoncons_as_bool :: "(jc_kind, 'v, 'o, 'a, 'x) json_library \<Rightarrow> 'v \<Rightarrow> 'x traits_exn + bool" where
  "jsoncons_as_bool jl v = (if jl_kind jl v \<noteq> CBool then bad_cast else library (jl_bool jl v))"

definition jsoncons_parse :: "(jc_kind, 'v, 'o, 'a, 'x) json_library \<Rightarrow> string \<Rightarrow> 'x traits_exn + (bool \<times> 'v)" where
  "jsoncons_parse jl str = library_parse jl str"

definition jsoncons_serialize :: "(jc_kind, 'v, 'o, 'a, 'x) json_library \<Rightarrow> 'v \<Rightarrow> 'x traits_exn + string" where
  "jsoncons_serialize jl v = library (jl_print jl v)"

interpretation jsoncons: strict_json_traits "jsoncons_get_type jl" "Own Bad_cast" "jsoncons_as_object jl"
  "jsoncons_as_array jl" "jsoncons_as_string jl" "jsoncons_as_int jl" "jsoncons_as_bool jl" "jsoncons_as_number jl"
  for jl :: "(jc_kind, 'v, 'o, 'a, 'x) json_library"
  by unfold_locales (auto intro!: guardedI simp: jsoncons_get_type_def jsoncons_as_object_def jsoncons_as_array_def
      jsoncons_as_string_def jsoncons_as_int_def jsoncons_as_bool_def jsoncons_as_number_def bad_cast_def
      invalid_type_def if_distrib[of "\<lambda>r. sbind r f" for f] split: if_splits)

text \<open>
  What the class adds to an object, a sorted sequence of members: \<open>at\<close> goes by the library's \<^verbatim>\<open>find\<close>,
  whose answer for the end is \<open>None\<close>; \<open>count\<close> is a \<^verbatim>\<open>std::binary_search\<close>, which halves the range down to
  the first member that is not below the key.
\<close>

definition jsoncons_at :: "('o \<Rightarrow> string \<Rightarrow> 'v option) \<Rightarrow> 'o \<Rightarrow> string \<Rightarrow> exn + 'v" where
  "jsoncons_at find_member ob key =
     (case find_member ob key of Some v \<Rightarrow> Inr v | None \<Rightarrow> Inl (Out_of_range ''invalid key''))"

text \<open>\<^verbatim>\<open>operator[]\<close>: the position of the member that the library's \<^verbatim>\<open>try_emplace\<close> found or made, and
  the object afterwards.\<close>

definition jsoncons_subscript :: "(string \<Rightarrow> 'o \<Rightarrow> (nat \<times> bool) \<times> 'o) \<Rightarrow> 'o \<Rightarrow> string \<Rightarrow> nat \<times> 'o" where
  "jsoncons_subscript try_emplace ob key = (let (r, ob') = try_emplace key ob in (fst r, ob'))"

function lower_bound :: "('m \<Rightarrow> bool) \<Rightarrow> 'm list \<Rightarrow> nat \<Rightarrow> nat \<Rightarrow> nat" where
  "lower_bound below xs first len =
     (if len = 0 then first
      else if below (xs ! (first + len div 2))
           then lower_bound below xs (first + len div 2 + 1) (len - len div 2 - 1)
           else lower_bound below xs first (len div 2))"
  by pat_completeness auto

termination
  by (relation "measure (\<lambda>(below, xs, first, len). len)") auto

declare lower_bound.simps [simp del]

definition jsoncons_count :: "('o \<Rightarrow> (string \<times> 'v) list) \<Rightarrow> 'o \<Rightarrow> string \<Rightarrow> nat" where
  "jsoncons_count members ob key =
     (let ms = members ob; i = lower_bound (\<lambda>m. fst m < key) ms 0 (length ms)
      in if i < length ms \<and> \<not> key < fst (ms ! i) then 1 else 0)"

text \<open>The search ends at the boundary between the members below the key and the others.\<close>

definition boundary :: "('m \<Rightarrow> bool) \<Rightarrow> 'm list \<Rightarrow> nat \<Rightarrow> bool" where
  "boundary below xs i \<longleftrightarrow>
     i \<le> length xs \<and> (\<forall>j < i. below (xs ! j)) \<and> (\<forall>j. i \<le> j \<and> j < length xs \<longrightarrow> \<not> below (xs ! j))"

lemma lower_bound_boundary:
  assumes "\<And>i j. i < j \<Longrightarrow> j < length xs \<Longrightarrow> below (xs ! j) \<Longrightarrow> below (xs ! i)" and "first + len \<le> length xs"
    and "\<forall>j < first. below (xs ! j)" and "\<forall>j. first + len \<le> j \<and> j < length xs \<longrightarrow> \<not> below (xs ! j)"
  shows "boundary below xs (lower_bound below xs first len)"
  using assms(2-)
proof (induction len arbitrary: first rule: less_induct)
  case (less len)
  let ?m = "first + len div 2"
  show ?case
  proof (cases "len = 0")
    case True
    then show ?thesis using less.prems by (simp add: lower_bound.simps boundary_def)
  next
    case False
    then have m: "?m < length xs" using less.prems(1) by simp
    show ?thesis
    proof (cases "below (xs ! ?m)")
      case True
      then have "\<forall>j < ?m + 1. below (xs ! j)" using assms(1)[OF _ m] by (auto simp: less_Suc_eq)
      moreover have "?m + 1 + (len - len div 2 - 1) = first + len" using False by linarith
      ultimately have "boundary below xs (lower_bound below xs (?m + 1) (len - len div 2 - 1))"
        using False less.prems by (intro less.IH) auto
      then show ?thesis using True False by (subst lower_bound.simps) simp
    next
      case above: False
      have "\<not> below (xs ! j)" if "?m \<le> j" "j < length xs" for j
        using above assms(1)[of ?m j] that by (cases "j = ?m") auto
      then have "boundary below xs (lower_bound below xs first (len div 2))"
        using False less.prems m by (intro less.IH) auto
      then show ?thesis using above False by (subst lower_bound.simps) simp
    qed
  qed
qed

section \<open>What the classes promise\<close>

text \<open>The accessor throws a bad cast exactly for a value that is not of its type, as \<^verbatim>\<open>jwt.h\<close> documents.\<close>

definition documented :: "('v \<Rightarrow> 'x traits_exn + json_type) \<Rightarrow> json_type \<Rightarrow> ('v \<Rightarrow> 'x traits_exn + 'r) \<Rightarrow> bool" where
  "documented typing t accessor \<longleftrightarrow> (\<forall>v. accessor v = Inl (Own Bad_cast) \<longleftrightarrow> typing v \<noteq> Inr t)"

lemma documentedI: "(\<And>v. accessor v = Inl (Own Bad_cast) \<longleftrightarrow> typing v \<noteq> Inr t) \<Longrightarrow> documented typing t accessor"
  by (simp add: documented_def)

lemma nlohmann_documented:
  "documented (nlohmann_get_type jl) Object (nlohmann_as_object jl)"
  "documented (nlohmann_get_type jl) Array (nlohmann_as_array jl)"
  "documented (nlohmann_get_type jl) String (nlohmann_as_string jl)"
  "documented (nlohmann_get_type jl) Integer (nlohmann_as_int jl)"
  "documented (nlohmann_get_type jl) Boolean (nlohmann_as_bool jl)"
  "documented (nlohmann_get_type jl) Number (nlohmann_as_number jl)"
  by (rule documentedI; simp add: nlohmann_get_type_def nlohmann_as_object_def nlohmann_as_array_def
      nlohmann_as_string_def nlohmann_as_int_def nlohmann_as_bool_def nlohmann_as_number_def bad_cast_def
      invalid_type_def split: nl_kind.splits)+

lemma boost_documented:
  "documented (boost_get_type jl) Object (boost_as_object jl)"
  "documented (boost_get_type jl) Array (boost_as_array jl)"
  "documented (boost_get_type jl) String (boost_as_string jl)"
  "documented (boost_get_type jl) Integer (boost_as_int jl)"
  "documented (boost_get_type jl) Boolean (boost_as_bool jl)"
  "documented (boost_get_type jl) Number (boost_as_number jl)"
  by (rule documentedI; simp add: boost_get_type_def boost_as_object_def boost_as_array_def
      boost_as_string_def boost_as_int_def boost_as_bool_def boost_as_number_def bad_cast_def
      invalid_type_def split: bo_kind.splits)+

lemma jsoncons_untyped:
  "jsoncons_as_int jl v = Inl (Own (Logic_error ''invalid type'')) \<longleftrightarrow> jl_kind jl v = COther"
  "jsoncons_as_number jl v = Inl (Own (Logic_error ''invalid type'')) \<longleftrightarrow> jl_kind jl v = COther"
  by (cases "jl_kind jl v"; simp add: jsoncons_get_type_def jsoncons_as_int_def jsoncons_as_number_def
      bad_cast_def invalid_type_def)+

lemma jsoncons_documented:
  "documented (jsoncons_get_type jl) String (jsoncons_as_string jl)"
  "documented (jsoncons_get_type jl) Array (jsoncons_as_array jl)"
  "documented (jsoncons_get_type jl) Object (jsoncons_as_object jl)"
  "documented (jsoncons_get_type jl) Boolean (jsoncons_as_bool jl)"
  by (rule documentedI; simp add: jsoncons_get_type_def jsoncons_as_object_def jsoncons_as_array_def
      jsoncons_as_string_def jsoncons_as_bool_def bad_cast_def invalid_type_def split: if_splits)+

text \<open>with jsoncons the accessors of integers and numbers do not keep that contract: exactly for a value
  without a type, such as null, they throw the logic error of \<open>get_type\<close>; the other accessors keep it, as
  all accessors of the other two libraries do (\<open>nlohmann_documented\<close>, \<open>boost_documented\<close>).\<close>

theorem jsoncons_null_is_logic_error:
  "(jsoncons_as_int jl v = Inl (Own (Logic_error ''invalid type'')) \<longleftrightarrow> jl_kind jl v = COther) \<and>
   (jsoncons_as_number jl v = Inl (Own (Logic_error ''invalid type'')) \<longleftrightarrow> jl_kind jl v = COther) \<and>
   documented (jsoncons_get_type jl) String (jsoncons_as_string jl) \<and>
   documented (jsoncons_get_type jl) Array (jsoncons_as_array jl) \<and>
   documented (jsoncons_get_type jl) Object (jsoncons_as_object jl) \<and>
   documented (jsoncons_get_type jl) Boolean (jsoncons_as_bool jl)"
  using jsoncons_untyped[of jl v] jsoncons_documented[of jl] by simp

text \<open>looking up a member of a jsoncons object: on the sorted members of an object the binary search
  finds a key exactly if it is there, and never reads outside.\<close>

theorem jsoncons_count_member:
  assumes "sorted (map fst (members ob))"
  shows "jsoncons_count members ob key = (if key \<in> fst ` set (members ob) then 1 else 0)"
proof -
  let ?ms = "members ob" and ?below = "\<lambda>m. fst m < key"
  let ?i = "lower_bound ?below ?ms 0 (length ?ms)"
  have nth: "fst (?ms ! i) \<le> fst (?ms ! j)" if "i \<le> j" "j < length ?ms" for i j
    using sorted_nth_mono[OF assms, of i j] that by simp
  have "boundary ?below ?ms ?i"
    using nth by (intro lower_bound_boundary) (auto intro: le_less_trans less_imp_le_nat)
  then have i: "\<forall>j < ?i. fst (?ms ! j) < key" "\<forall>j. ?i \<le> j \<and> j < length ?ms \<longrightarrow> key \<le> fst (?ms ! j)"
    by (simp_all add: boundary_def not_less)
  have "key \<in> fst ` set ?ms \<longleftrightarrow> ?i < length ?ms \<and> \<not> key < fst (?ms ! ?i)"
  proof
    assume "key \<in> fst ` set ?ms"
    then obtain j where j: "j < length ?ms" "fst (?ms ! j) = key" by (auto simp: in_set_conv_nth)
    then have "\<not> j < ?i" using i(1) by auto
    then have "?i \<le> j" by simp
    with nth[OF this] j show "?i < length ?ms \<and> \<not> key < fst (?ms ! ?i)" by auto
  next
    assume "?i < length ?ms \<and> \<not> key < fst (?ms ! ?i)"
    with i(2) have "fst (?ms ! ?i) = key" "?i < length ?ms" by (auto intro: antisym simp: not_less)
    then show "key \<in> fst ` set ?ms" using nth_mem by (metis image_eqI)
  qed
  then show ?thesis by (simp add: jsoncons_count_def Let_def)
qed

lemma jsoncons_count_member_witness:
  "jsoncons_count id [(''exp'', 1 :: nat), (''iss'', 2), (''sub'', 3)] ''iss'' = 1"
  using jsoncons_count_member[of id "[(''exp'', 1 :: nat), (''iss'', 2), (''sub'', 3)]" "''iss''"] by simp

end
