(* ===== verification/Jwt_Generic.thy ===== *)
theory Jwt_Generic
  imports Jwt_Traits
begin

text \<open>
  \<^verbatim>\<open>jwt.h\<close> is a template over the traits of a JSON library. Here are its claims, maps of claims, the
  payload accessors and the decoded token for any traits, a record of their functions; \<open>Jwt_Claims\<close> is
  the same code for the picojson traits, and the first theorem says so. The others are about the three
  trait classes of \<open>Jwt_Traits\<close>.
\<close>

section \<open>Traits\<close>

text \<open>The members \<^verbatim>\<open>jwt.h\<close> uses of a traits class and of its object and array types. \<open>t_parse\<close> gives
  \<open>None\<close> where the class returns false; \<open>t_throw\<close> is how an exception of \<^verbatim>\<open>jwt.h\<close> itself appears among
  those of the library.\<close>

record ('v, 'o, 'a, 'e) traits =
  t_type :: "'v \<Rightarrow> 'e + json_type"
  t_object :: "'v \<Rightarrow> 'e + 'o"
  t_array :: "'v \<Rightarrow> 'e + 'a"
  t_string :: "'v \<Rightarrow> 'e + string"
  t_int :: "'v \<Rightarrow> 'e + 64 word"
  t_bool :: "'v \<Rightarrow> 'e + bool"
  t_number :: "'v \<Rightarrow> 'e + double"
  t_parse :: "string \<Rightarrow> 'e + 'v option"
  t_count :: "'o \<Rightarrow> string \<Rightarrow> nat"
  t_at :: "'o \<Rightarrow> string \<Rightarrow> 'e + 'v"
  t_elements :: "'a \<Rightarrow> 'v list"
  t_throw :: "exn \<Rightarrow> 'e"

definition raise :: "('v, 'o, 'a, 'e) traits \<Rightarrow> exn \<Rightarrow> 'e + 'r" where
  "raise T e = Inl (t_throw T e)"

section \<open>Claims and maps of claims\<close>

definition claim_as_date :: "('v, 'o, 'a, 'e) traits \<Rightarrow> 'v \<Rightarrow> 'e + date" where
  "claim_as_date T c = sbind (t_int T c) (\<lambda>t. Inr (from_time_t t))"

definition claim_as_set :: "('v, 'o, 'a, 'e) traits \<Rightarrow> 'v \<Rightarrow> 'e + string list" where
  "claim_as_set T c =
     sbind (t_array T c) (\<lambda>a.
     sbind (smap_list (t_string T) (t_elements T a)) (\<lambda>ss. Inr (fold sset_insert ss [])))"

definition map_parse_claims :: "('v, 'o, 'a, 'e) traits \<Rightarrow> string \<Rightarrow> 'e + 'o" where
  "map_parse_claims T str =
     sbind (t_parse T str) (\<lambda>r.
       case r of None \<Rightarrow> raise T (Runtime_error ''invalid json'') | Some v \<Rightarrow> t_object T v)"

definition map_has_claim :: "('v, 'o, 'a, 'e) traits \<Rightarrow> 'o \<Rightarrow> string \<Rightarrow> bool" where
  "map_has_claim T m name \<longleftrightarrow> t_count T m name \<noteq> 0"

definition map_get_claim :: "('v, 'o, 'a, 'e) traits \<Rightarrow> 'o \<Rightarrow> string \<Rightarrow> 'e + 'v" where
  "map_get_claim T m name =
     (if \<not> map_has_claim T m name then raise T (Out_of_range ''claim not found'') else t_at T m name)"

section \<open>The decoded token\<close>

record 'o token =
  tk_header_claims :: 'o
  tk_payload_claims :: 'o
  tk_token :: string
  tk_header :: string
  tk_header_base64 :: string
  tk_payload :: string
  tk_payload_base64 :: string
  tk_signature :: string
  tk_signature_base64 :: string

definition token_decode ::
  "('v, 'o, 'a, 'e) traits \<Rightarrow> (string \<Rightarrow> 'e + string) \<Rightarrow> string \<Rightarrow> 'e + 'o token" where
  "token_decode T dec tok =
     (case find_char (CHR ''.'') tok of
        None \<Rightarrow> raise T (Invalid_argument ''invalid token supplied'')
      | Some hdr_end \<Rightarrow>
          (case find_from ''.'' tok (hdr_end + 1) of
             None \<Rightarrow> raise T (Invalid_argument ''invalid token supplied'')
           | Some payload_end \<Rightarrow>
               (let h64 = substr tok 0 hdr_end;
                    p64 = substr tok (hdr_end + 1) (payload_end - hdr_end - 1);
                    s64 = drop (payload_end + 1) tok
                in sbind (dec h64) (\<lambda>h.
                   sbind (dec p64) (\<lambda>p.
                   sbind (dec s64) (\<lambda>s.
                   sbind (map_parse_claims T h) (\<lambda>hc.
                   sbind (map_parse_claims T p) (\<lambda>pc.
                     Inr \<lparr> tk_header_claims = hc, tk_payload_claims = pc, tk_token = tok,
                           tk_header = h, tk_header_base64 = h64,
                           tk_payload = p, tk_payload_base64 = p64,
                           tk_signature = s, tk_signature_base64 = s64 \<rparr>))))))))"

text \<open>The default decoder; base64 is of \<^verbatim>\<open>jwt.h\<close> itself.\<close>

definition token_base64 :: "('v, 'o, 'a, 'e) traits \<Rightarrow> string \<Rightarrow> 'e + string" where
  "token_base64 T s = (case base64url_decode s of Inl e \<Rightarrow> raise T e | Inr x \<Rightarrow> Inr x)"

definition token_of :: "('v, 'o, 'a, 'e) traits \<Rightarrow> string \<Rightarrow> 'e + 'o token" where
  "token_of T tok = token_decode T (token_base64 T) tok"

definition token_payload_claim :: "('v, 'o, 'a, 'e) traits \<Rightarrow> 'o token \<Rightarrow> string \<Rightarrow> 'e + 'v" where
  "token_payload_claim T j name = map_get_claim T (tk_payload_claims j) name"

definition token_issuer :: "('v, 'o, 'a, 'e) traits \<Rightarrow> 'o token \<Rightarrow> 'e + string" where
  "token_issuer T j = sbind (token_payload_claim T j ''iss'') (t_string T)"

definition token_audience :: "('v, 'o, 'a, 'e) traits \<Rightarrow> 'o token \<Rightarrow> 'e + string list" where
  "token_audience T j =
     sbind (token_payload_claim T j ''aud'') (\<lambda>aud.
     sbind (t_type T aud) (\<lambda>t.
       if t = String then sbind (t_string T aud) (\<lambda>s. Inr [s]) else claim_as_set T aud))"

definition token_expires_at :: "('v, 'o, 'a, 'e) traits \<Rightarrow> 'o token \<Rightarrow> 'e + date" where
  "token_expires_at T j = sbind (token_payload_claim T j ''exp'') (claim_as_date T)"

section \<open>What holds for every traits class\<close>

text \<open>The accessors of claims over a class that keeps the contract of \<open>Jwt_Traits\<close>.\<close>

locale token_traits =
  json_traits "t_type T" "t_throw T Bad_cast" "t_object T" "t_array T" "t_string T" "t_int T" "t_bool T"
  for T :: "('v, 'o, 'a, 'e) traits"
begin

text \<open>The audience is a string or a list of strings, and anything else that has a type is a bad cast.\<close>

lemma audience_kinds:
  assumes "token_payload_claim T j ''aud'' = Inr c" and "t_type T c = Inr t"
  shows "token_audience T j =
    (if t = String then sbind (t_string T c) (\<lambda>s. Inr [s])
     else if t = Array then claim_as_set T c
     else raise T Bad_cast)"
  using assms guarded_other[OF array assms(2)] by (auto simp: token_audience_def claim_as_set_def raise_def)

text \<open>A claim that is read as a date cannot be read as a set, and the other way round.\<close>

lemma date_or_set: "claim_as_date T c = Inr d \<Longrightarrow> claim_as_set T c = raise T Bad_cast"
  by (auto simp: claim_as_date_def claim_as_set_def raise_def sbind_Inr_iff dest: one_kind(3))

end

section \<open>The picojson traits\<close>

definition picojson_class :: "(json, (string, json) smap, json list, exn) traits" where
  "picojson_class =
     \<lparr> t_type = get_type, t_object = as_object, t_array = as_array, t_string = as_string, t_int = as_int,
       t_bool = as_bool, t_number = as_number, t_parse = traits_parse,
       t_count = (\<lambda>m name. if map_of m name = None then 0 else 1),
       t_at = (\<lambda>m name. case map_of m name of None \<Rightarrow> Inl (Out_of_range ''map::at'') | Some v \<Rightarrow> Inr v),
       t_elements = (\<lambda>a. a), t_throw = (\<lambda>e. e) \<rparr>"

interpretation picojson_tokens: token_traits picojson_class
  unfolding token_traits_def picojson_class_def traits.simps by (rule picojson_traits.json_traits_axioms)

definition token_view :: "decoded_jwt \<Rightarrow> (string, json) smap token" where
  "token_view j =
     \<lparr> tk_header_claims = header_claims j, tk_payload_claims = payload_claims j, tk_token = jwt_token j,
       tk_header = header_text j, tk_header_base64 = header_base64 j, tk_payload = payload_text j,
       tk_payload_base64 = payload_base64 j, tk_signature = jwt_signature j,
       tk_signature_base64 = signature_base64 j \<rparr>"

lemma map_sum_sbind: "map_sum id f (sbind r g) = sbind r (\<lambda>x. map_sum id f (g x))"
  by (cases r) simp_all

lemma picojson_class_members:
  "t_type picojson_class = get_type" "t_object picojson_class = as_object" "t_array picojson_class = as_array"
  "t_string picojson_class = as_string" "t_int picojson_class = as_int" "t_parse picojson_class = traits_parse"
  "t_elements picojson_class a = a" "raise picojson_class = Inl"
  by (simp_all add: picojson_class_def raise_def fun_eq_iff)

lemma picojson_claims:
  "map_parse_claims picojson_class = parse_claims"
  "map_get_claim picojson_class = get_claim"
  "claim_as_date picojson_class = as_date" "claim_as_set picojson_class = as_set"
  "token_base64 picojson_class = base64url_decode"
  unfolding fun_eq_iff map_parse_claims_def parse_claims_def claim_as_date_def as_date_def claim_as_set_def as_set_def
    token_base64_def picojson_class_members map_get_claim_def map_has_claim_def get_claim_def
  by (auto simp: picojson_class_def split: option.splits sum.splits)

text \<open>over the picojson traits the generic token library is the one the program uses: decoding and the
  accessors give the same results and the same exceptions.\<close>

theorem generic_is_picojson:
  "token_of picojson_class tok = map_sum id token_view (decode_jwt tok) \<and>
   token_issuer picojson_class (token_view j) = get_issuer j \<and>
   token_audience picojson_class (token_view j) = get_audience j \<and>
   token_expires_at picojson_class (token_view j) = get_expires_at j"
proof (intro conjI)
  show "token_of picojson_class tok = map_sum id token_view (decode_jwt tok)"
    unfolding token_of_def token_decode_def decode_jwt_def decode_jwt_with_def picojson_claims Let_def
    unfolding picojson_class_members by (auto simp: map_sum_sbind token_view_def split: option.splits)
  have claim: "token_payload_claim picojson_class (token_view j) name = get_payload_claim j name" for name
    by (simp add: token_payload_claim_def picojson_claims token_view_def get_payload_claim_def)
  show "token_issuer picojson_class (token_view j) = get_issuer j"
    "token_audience picojson_class (token_view j) = get_audience j"
    "token_expires_at picojson_class (token_view j) = get_expires_at j"
    unfolding token_issuer_def token_audience_def token_expires_at_def get_issuer_def get_audience_def
      get_expires_at_def claim picojson_class_members picojson_claims by (rule refl)+
qed

section \<open>The other libraries\<close>

text \<open>The members of their object and array types are functions of the libraries; those of a jsoncons
  object are in \<open>Jwt_Traits\<close>.\<close>

definition parse_result :: "'x traits_exn + (bool \<times> 'v) \<Rightarrow> 'x traits_exn + 'v option" where
  "parse_result r = sbind r (\<lambda>(ok, v). Inr (if ok then Some v else None))"

definition nlohmann_class ::
  "(nl_kind, 'v, 'o, 'a, 'x) json_library \<Rightarrow> ('o \<Rightarrow> string \<Rightarrow> nat) \<Rightarrow> ('o \<Rightarrow> string \<Rightarrow> 'x traits_exn + 'v) \<Rightarrow>
   ('a \<Rightarrow> 'v list) \<Rightarrow> ('v, 'o, 'a, 'x traits_exn) traits" where
  "nlohmann_class jl count_of at_of elements =
     \<lparr> t_type = nlohmann_get_type jl, t_object = nlohmann_as_object jl, t_array = nlohmann_as_array jl,
       t_string = nlohmann_as_string jl, t_int = nlohmann_as_int jl, t_bool = nlohmann_as_bool jl,
       t_number = nlohmann_as_number jl, t_parse = (\<lambda>s. parse_result (nlohmann_parse jl s)),
       t_count = count_of, t_at = at_of, t_elements = elements, t_throw = Own \<rparr>"

definition boost_class ::
  "(bo_kind, 'v, 'o, 'a, 'x) json_library \<Rightarrow> ('o \<Rightarrow> string \<Rightarrow> nat) \<Rightarrow> ('o \<Rightarrow> string \<Rightarrow> 'x traits_exn + 'v) \<Rightarrow>
   ('a \<Rightarrow> 'v list) \<Rightarrow> ('v, 'o, 'a, 'x traits_exn) traits" where
  "boost_class jl count_of at_of elements =
     \<lparr> t_type = boost_get_type jl, t_object = boost_as_object jl, t_array = boost_as_array jl,
       t_string = boost_as_string jl, t_int = boost_as_int jl, t_bool = boost_as_bool jl,
       t_number = boost_as_number jl, t_parse = (\<lambda>s. parse_result (boost_parse jl s)),
       t_count = count_of, t_at = at_of, t_elements = elements, t_throw = Own \<rparr>"

definition jsoncons_class ::
  "(jc_kind, 'v, 'o, 'a, 'x) json_library \<Rightarrow> ('o \<Rightarrow> (string \<times> 'v) list) \<Rightarrow> ('o \<Rightarrow> string \<Rightarrow> 'v option) \<Rightarrow>
   ('a \<Rightarrow> 'v list) \<Rightarrow> ('v, 'o, 'a, 'x traits_exn) traits" where
  "jsoncons_class jl members find_member elements =
     \<lparr> t_type = jsoncons_get_type jl, t_object = jsoncons_as_object jl, t_array = jsoncons_as_array jl,
       t_string = jsoncons_as_string jl, t_int = jsoncons_as_int jl, t_bool = jsoncons_as_bool jl,
       t_number = jsoncons_as_number jl, t_parse = (\<lambda>s. parse_result (jsoncons_parse jl s)),
       t_count = jsoncons_count members,
       t_at = (\<lambda>m name. case jsoncons_at find_member m name of Inl e \<Rightarrow> Inl (Own e) | Inr v \<Rightarrow> Inr v),
       t_elements = elements, t_throw = Own \<rparr>"

interpretation nlohmann_tokens: token_traits "nlohmann_class jl count_of at_of elements"
  unfolding token_traits_def nlohmann_class_def traits.simps by (rule nlohmann.json_traits_axioms)

interpretation boost_tokens: token_traits "boost_class jl count_of at_of elements"
  unfolding token_traits_def boost_class_def traits.simps by (rule boost.json_traits_axioms)

interpretation jsoncons_tokens: token_traits "jsoncons_class jl members find_member elements"
  unfolding token_traits_def jsoncons_class_def traits.simps by (rule jsoncons.json_traits_axioms)

section \<open>What decoding throws over another library\<close>

text \<open>An exception of the library, or one of \<^verbatim>\<open>jwt.h\<close> for a token that is not three base64url parts or a part
  that is no object.\<close>

definition token_error :: "'x traits_exn \<Rightarrow> bool" where
  "token_error e \<longleftrightarrow>
     (\<exists>x. e = Library x) \<or> e = Own Bad_cast \<or> e = Own (Invalid_argument ''invalid token supplied'') \<or>
     e = Own (Runtime_error ''Invalid input: too much fill'') \<or>
     e = Own (Runtime_error ''Invalid input: incorrect total size'') \<or>
     e = Own (Runtime_error ''Invalid input: not within alphabet'')"

lemma token_base64_error:
  assumes "token_base64 T s = Inl e" and "t_throw T = Own"
  shows "token_error e"
proof -
  from assms obtain x where "base64url_decode s = Inl x" "e = Own x"
    by (auto simp: token_base64_def raise_def split: sum.splits)
  then show ?thesis
    by (auto simp: base64url_decode_def decode_def decode_string_def Let_def token_error_def
        dest: strip_fill_error decode_groups_error decode_rest_error split: sum.splits if_splits prod.splits)
qed

text \<open>A class that parses by its library and never returns false.\<close>

definition library_backed :: "('v, 'o, 'a, 'x traits_exn) traits \<Rightarrow> bool" where
  "library_backed T \<longleftrightarrow> t_throw T = Own \<and>
     (\<forall>s. case t_parse T s of Inl e \<Rightarrow> \<exists>x. e = Library x | Inr r \<Rightarrow> r \<noteq> None) \<and>
     (\<forall>v e. t_object T v = Inl e \<longrightarrow> e = Own Bad_cast \<or> (\<exists>x. e = Library x))"

lemma map_parse_claims_error: "library_backed T \<Longrightarrow> map_parse_claims T s = Inl e \<Longrightarrow> token_error e"
  by (auto simp: map_parse_claims_def library_backed_def token_error_def sbind_Inl_iff split: sum.splits option.splits)
    (metis option.exhaust sum.case)+

lemma token_error_cases:
  "token_error (Own (Invalid_argument ''invalid token supplied''))"
  "token_error e \<Longrightarrow> e \<noteq> Own (Runtime_error ''invalid json'')"
  by (auto simp: token_error_def)

lemma token_of_error:
  assumes "library_backed T" and "token_of T tok = Inl e"
  shows "token_error e \<and> e \<noteq> Own (Runtime_error ''invalid json'')"
proof -
  have own: "t_throw T = Own" using assms(1) by (simp add: library_backed_def)
  have "token_error e"
    using assms(2) own token_base64_error[OF _ own] map_parse_claims_error[OF assms(1)] token_error_cases(1)
    by (auto simp: token_of_def token_decode_def Let_def sbind_Inl_iff raise_def split: option.splits)
  then show ?thesis using token_error_cases(2) by blast
qed

lemma library_Inl: "library r = Inl e \<Longrightarrow> \<exists>x. e = Library x"
  by (auto simp: library_def split: sum.splits)

lemma library_parse_backed:
  "case parse_result (library_parse jl s) of Inl e \<Rightarrow> \<exists>x. e = Library x | Inr r \<Rightarrow> r \<noteq> None"
  by (cases "library (jl_parse jl s)") (auto simp: parse_result_def library_parse_def dest: library_Inl)

lemma classes_library_backed:
  "library_backed (nlohmann_class jl1 count1 at1 el1)"
  "library_backed (boost_class jl2 count2 at2 el2)"
  "library_backed (jsoncons_class jl3 members find_member el3)"
  using library_parse_backed
  by (auto simp: library_backed_def nlohmann_class_def boost_class_def jsoncons_class_def nlohmann_parse_def
      boost_parse_def jsoncons_parse_def nlohmann_as_object_def boost_as_object_def jsoncons_as_object_def
      bad_cast_def split: if_splits dest: library_Inl)

text \<open>C40: over the other libraries the exception that \<^verbatim>\<open>jwt.h\<close> has for a text that is not JSON is never
  thrown: decoding lets the exception of the library pass, and otherwise throws only for the format of the
  token, its base64 and parts that are no objects.\<close>

theorem library_decode_errors:
  "(token_of (nlohmann_class jl1 count1 at1 el1) tok = Inl e1 \<longrightarrow> token_error e1 \<and> e1 \<noteq> Own (Runtime_error ''invalid json'')) \<and>
   (token_of (boost_class jl2 count2 at2 el2) tok = Inl e2 \<longrightarrow> token_error e2 \<and> e2 \<noteq> Own (Runtime_error ''invalid json'')) \<and>
   (token_of (jsoncons_class jl3 members find_member el3) tok = Inl e3 \<longrightarrow>
      token_error e3 \<and> e3 \<noteq> Own (Runtime_error ''invalid json''))"
  using token_of_error[OF classes_library_backed(1)[of jl1 count1 at1 el1]]
    token_of_error[OF classes_library_backed(2)[of jl2 count2 at2 el2]]
    token_of_error[OF classes_library_backed(3)[of jl3 members find_member el3]] by blast

text \<open>A library that throws on every text, and a token whose header is not JSON.\<close>

definition refusing_library :: "'k \<Rightarrow> ('k, unit, unit, unit, string) json_library" where
  "refusing_library k =
     \<lparr> jl_kind = (\<lambda>v. k), jl_object = Inr, jl_array = Inr, jl_string = (\<lambda>v. Inr []), jl_int64 = (\<lambda>v. Inr 0),
       jl_uint64 = (\<lambda>v. Inr 0), jl_bool = (\<lambda>v. Inr False), jl_double = (\<lambda>v. Inr (Finite False 0 0)),
       jl_parse = (\<lambda>s. Inl ''parse error''), jl_print = (\<lambda>v. Inr []) \<rparr>"

lemma library_decode_errors_witness:
  "token_of (nlohmann_class (refusing_library NObject) (\<lambda>m n. 0) (\<lambda>m n. bad_cast) (\<lambda>a. [])) ''e30.e30.'' =
     Inl (Library ''parse error'') \<and> token_error (Library ''parse error'')"
proof -
  have b: "base64url_decode ''e30'' = Inr ''{}''" "base64url_decode [] = Inr []" by code_simp+
  have "token_of (nlohmann_class (refusing_library NObject) (\<lambda>m n. 0) (\<lambda>m n. bad_cast) (\<lambda>a. [])) ''e30.e30.'' =
     Inl (Library ''parse error'')"
    by (simp add: token_of_def token_decode_def token_base64_def b map_parse_claims_def nlohmann_class_def
        parse_result_def nlohmann_parse_def library_parse_def refusing_library_def library_def find_char_def
        find_from_def substr_def)
  with library_decode_errors[of "refusing_library NObject" "\<lambda>m n. 0" "\<lambda>m n. bad_cast" "\<lambda>a. []" "''e30.e30.''"]
  show ?thesis by blast
qed

end
