(* ===== verification/Jwt_Checks.thy ===== *)
theory Jwt_Checks
  imports Main
begin

text \<open>
  The checks of \<^verbatim>\<open>jwt::details\<close> that \<^verbatim>\<open>basic_claim\<close> makes of a JSON library when it is compiled. They are
  templates that compute booleans from types; here they are functions of a description of the traits
  class and of the language's answers about types. A template that names something that does not exist
  outside a detection, or whose \<^verbatim>\<open>static_assert\<close> fails, does not compile: that is \<open>None\<close>, and an operand of
  \<^verbatim>\<open>&&\<close> or \<^verbatim>\<open>||\<close> that does not compile is not skipped.
\<close>

section \<open>Types and what is asked of them\<close>

datatype cpp_type = Ty string | Const cpp_type | Ref cpp_type | Rref cpp_type | Pair cpp_type cpp_type

text \<open>What \<^verbatim>\<open>decltype\<close> of a static member of a class can be.\<close>

datatype member = Static_function cpp_type "cpp_type list" | Data_member cpp_type

text \<open>A traits class: its member types and its static members by name.\<close>

record traits_class =
  tc_value :: cpp_type
  tc_object :: cpp_type
  tc_array :: cpp_type
  tc_string :: cpp_type
  tc_number :: cpp_type
  tc_integer :: cpp_type
  tc_boolean :: cpp_type
  tc_static :: "string \<Rightarrow> member option"

text \<open>The answers of the compiler: the traits of \<^verbatim>\<open><type_traits>\<close>, a nested type, the type of a call of a
  member function on an object type with arguments, and of \<^verbatim>\<open>std::operator+\<close>; \<open>None\<close> where there is none.\<close>

record type_facts =
  is_constructible :: "cpp_type \<Rightarrow> cpp_type list \<Rightarrow> bool"
  is_assignable :: "cpp_type \<Rightarrow> cpp_type \<Rightarrow> bool"
  is_convertible :: "cpp_type \<Rightarrow> cpp_type \<Rightarrow> bool"
  is_floating_point :: "cpp_type \<Rightarrow> bool"
  is_signed :: "cpp_type \<Rightarrow> bool"
  is_integral :: "cpp_type \<Rightarrow> bool"
  nested_type :: "cpp_type \<Rightarrow> string \<Rightarrow> cpp_type option"
  call_type :: "cpp_type \<Rightarrow> string \<Rightarrow> cpp_type list \<Rightarrow> cpp_type option"
  std_plus :: "cpp_type \<Rightarrow> cpp_type \<Rightarrow> cpp_type option"

section \<open>Evaluating conditions\<close>

definition all_of :: "bool option list \<Rightarrow> bool option" where
  "all_of cs = (if None \<in> set cs then None else Some (list_all (\<lambda>c. c = Some True) cs))"

definition any_of :: "bool option list \<Rightarrow> bool option" where
  "any_of cs = (if None \<in> set cs then None else Some (list_ex (\<lambda>c. c = Some True) cs))"

text \<open>\<^verbatim>\<open>static_assert\<close> of each condition, then a value.\<close>

definition asserting :: "bool option list \<Rightarrow> bool option \<Rightarrow> bool option" where
  "asserting cs v = (if list_all (\<lambda>c. c = Some True) cs then v else None)"

text \<open>\<^verbatim>\<open>is_detected\<close> asks whether something exists and always compiles; \<^verbatim>\<open>is_same\<close> needs both types.\<close>

definition is_detected :: "'a option \<Rightarrow> bool option" where
  "is_detected r = Some (r \<noteq> None)"

definition is_same :: "cpp_type option \<Rightarrow> cpp_type option \<Rightarrow> bool option" where
  "is_same a b = (case (a, b) of (Some x, Some y) \<Rightarrow> Some (x = y) | _ \<Rightarrow> None)"

section \<open>The functions of a traits class\<close>

fun is_function :: "member \<Rightarrow> bool" where
  "is_function (Static_function r args) = True"
| "is_function (Data_member t) = False"

text \<open>\<^verbatim>\<open>std::is_same<decltype(traits::name), result(const value_type&)>\<close>.\<close>

definition is_signature :: "cpp_type \<Rightarrow> cpp_type \<Rightarrow> member \<Rightarrow> bool" where
  "is_signature result val m \<longleftrightarrow> m = Static_function result [Ref (Const val)]"

definition provides :: "traits_class \<Rightarrow> string \<Rightarrow> cpp_type \<Rightarrow> cpp_type \<Rightarrow> bool option list" where
  "provides T name val result =
     [is_detected (tc_static T name), map_option is_function (tc_static T name),
      map_option (is_signature result val) (tc_static T name)]"

definition supports_get_type :: "traits_class \<Rightarrow> cpp_type \<Rightarrow> bool option" where
  "supports_get_type T val = all_of (provides T ''get_type'' val (Ty ''jwt::json::type''))"

definition supports_as_object :: "type_facts \<Rightarrow> traits_class \<Rightarrow> cpp_type \<Rightarrow> cpp_type \<Rightarrow> bool option" where
  "supports_as_object E T val ob = all_of (Some (is_constructible E val [ob]) # provides T ''as_object'' val ob)"

definition supports_as_array :: "type_facts \<Rightarrow> traits_class \<Rightarrow> cpp_type \<Rightarrow> cpp_type \<Rightarrow> bool option" where
  "supports_as_array E T val ar = all_of (Some (is_constructible E val [ar]) # provides T ''as_array'' val ar)"

definition supports_as_string :: "type_facts \<Rightarrow> traits_class \<Rightarrow> cpp_type \<Rightarrow> cpp_type \<Rightarrow> bool option" where
  "supports_as_string E T val str = all_of (Some (is_constructible E val [str]) # provides T ''as_string'' val str)"

definition supports_as_number :: "type_facts \<Rightarrow> traits_class \<Rightarrow> cpp_type \<Rightarrow> cpp_type \<Rightarrow> bool option" where
  "supports_as_number E T val num =
     all_of (Some (is_floating_point E num) # Some (is_constructible E val [num]) # provides T ''as_number'' val num)"

definition supports_as_integer :: "type_facts \<Rightarrow> traits_class \<Rightarrow> cpp_type \<Rightarrow> cpp_type \<Rightarrow> bool option" where
  "supports_as_integer E T val i =
     all_of (Some (is_signed E i) # Some (\<not> is_floating_point E i) # Some (is_constructible E val [i])
       # provides T ''as_int'' val i)"

definition supports_as_boolean :: "type_facts \<Rightarrow> traits_class \<Rightarrow> cpp_type \<Rightarrow> cpp_type \<Rightarrow> bool option" where
  "supports_as_boolean E T val b =
     all_of (Some (is_convertible E b (Ty ''bool'')) # Some (is_constructible E val [b]) # provides T ''as_bool'' val b)"

definition traits_conditions :: "type_facts \<Rightarrow> traits_class \<Rightarrow> bool option list" where
  "traits_conditions E T =
     [supports_get_type T (tc_value T), supports_as_object E T (tc_value T) (tc_object T),
      supports_as_array E T (tc_value T) (tc_array T), supports_as_string E T (tc_value T) (tc_string T),
      supports_as_number E T (tc_value T) (tc_number T), supports_as_integer E T (tc_value T) (tc_integer T),
      supports_as_boolean E T (tc_value T) (tc_boolean T)]"

definition is_valid_traits :: "type_facts \<Rightarrow> traits_class \<Rightarrow> bool option" where
  "is_valid_traits E T = asserting (traits_conditions E T) (all_of (traits_conditions E T))"

section \<open>The types of a JSON library\<close>

definition is_valid_json_value :: "type_facts \<Rightarrow> cpp_type \<Rightarrow> bool option" where
  "is_valid_json_value E val =
     Some (is_constructible E val [] \<and> is_constructible E val [Ref (Const val)] \<and> is_constructible E val [Rref val]
       \<and> is_assignable E val val \<and> is_assignable E (Ref val) (Ref (Const val)) \<and> is_assignable E (Ref val) (Rref val))"

text \<open>A call of \<^verbatim>\<open>begin()\<close> or \<^verbatim>\<open>end()\<close> gives the iterator type, on a constant object the other one.\<close>

definition supports_begin :: "type_facts \<Rightarrow> cpp_type \<Rightarrow> bool option" where
  "supports_begin E ob =
     all_of [is_detected (nested_type E ob ''iterator''), is_detected (nested_type E ob ''const_iterator''),
       is_same (call_type E ob ''begin'' []) (nested_type E ob ''iterator''),
       is_same (call_type E (Const ob) ''begin'' []) (nested_type E ob ''const_iterator'')]"

definition supports_end :: "type_facts \<Rightarrow> cpp_type \<Rightarrow> bool option" where
  "supports_end E ob =
     all_of [is_detected (nested_type E ob ''iterator''), is_detected (nested_type E ob ''const_iterator''),
       is_same (call_type E ob ''end'' []) (nested_type E ob ''iterator''),
       is_same (call_type E (Const ob) ''end'' []) (nested_type E ob ''const_iterator'')]"

definition is_count_signature :: "type_facts \<Rightarrow> cpp_type \<Rightarrow> cpp_type \<Rightarrow> bool option" where
  "is_count_signature E ob str = map_option (is_integral E) (call_type E (Const ob) ''count'' [Const str])"

definition has_subscription_operator :: "type_facts \<Rightarrow> cpp_type \<Rightarrow> cpp_type \<Rightarrow> bool option" where
  "has_subscription_operator E ob str = is_detected (call_type E ob ''operator[]'' [str])"

definition is_subscription_operator_signature :: "type_facts \<Rightarrow> cpp_type \<Rightarrow> cpp_type \<Rightarrow> bool option" where
  "is_subscription_operator_signature E ob str =
     asserting [has_subscription_operator E ob str] (has_subscription_operator E ob str)"

definition is_at_const_signature :: "type_facts \<Rightarrow> cpp_type \<Rightarrow> cpp_type \<Rightarrow> cpp_type \<Rightarrow> bool option" where
  "is_at_const_signature E ob val str =
     is_same (call_type E (Const ob) ''at'' [Const str]) (Some (Ref (Const val)))"

definition is_valid_json_object :: "type_facts \<Rightarrow> cpp_type \<Rightarrow> cpp_type \<Rightarrow> cpp_type \<Rightarrow> bool option" where
  "is_valid_json_object E val str ob =
     all_of [is_detected (nested_type E ob ''mapped_type''),
       is_same (nested_type E ob ''mapped_type'') (Some val),
       is_detected (nested_type E ob ''key_type''),
       any_of [is_same (nested_type E ob ''key_type'') (Some str),
               map_option (\<lambda>k. is_constructible E k [str]) (nested_type E ob ''key_type'')],
       supports_begin E ob, supports_end E ob, is_count_signature E ob str,
       is_subscription_operator_signature E ob str, is_at_const_signature E ob val str]"

text \<open>What \<^verbatim>\<open>get_claims\<close> asserts.\<close>

definition supports_claims_transform :: "type_facts \<Rightarrow> cpp_type \<Rightarrow> cpp_type \<Rightarrow> cpp_type \<Rightarrow> bool option" where
  "supports_claims_transform E val str ob =
     all_of [is_valid_json_object E val str ob, is_detected (nested_type E ob ''value_type''),
       is_same (nested_type E ob ''value_type'') (Some (Pair (Const str) val))]"

definition is_valid_json_array :: "type_facts \<Rightarrow> cpp_type \<Rightarrow> cpp_type \<Rightarrow> bool option" where
  "is_valid_json_array E val ar = is_same (nested_type E ar ''value_type'') (Some val)"

definition is_substr_signature :: "type_facts \<Rightarrow> cpp_type \<Rightarrow> cpp_type \<Rightarrow> bool option" where
  "is_substr_signature E str i =
     all_of [is_same (call_type E str ''substr'' [i, i]) (Some str), is_same (call_type E str ''substr'' [i]) (Some str)]"

definition has_operate_plus_method :: "type_facts \<Rightarrow> cpp_type \<Rightarrow> bool option" where
  "has_operate_plus_method E str = is_detected (call_type E str ''operator+'' [str])"

definition is_std_operate_plus_signature :: "type_facts \<Rightarrow> cpp_type \<Rightarrow> bool option" where
  "is_std_operate_plus_signature E str = is_same (std_plus E str str) (Some str)"

definition is_valid_json_string :: "type_facts \<Rightarrow> cpp_type \<Rightarrow> cpp_type \<Rightarrow> bool option" where
  "is_valid_json_string E str i =
     (let substr = is_substr_signature E str i;
          operator_plus = any_of [has_operate_plus_method E str, is_std_operate_plus_signature E str]
      in asserting [substr, operator_plus] (all_of [substr, operator_plus]))"

definition is_valid_json_types ::
  "type_facts \<Rightarrow> cpp_type \<Rightarrow> cpp_type \<Rightarrow> cpp_type \<Rightarrow> cpp_type \<Rightarrow> cpp_type \<Rightarrow> bool option" where
  "is_valid_json_types E val str i ob ar =
     asserting [is_valid_json_value E val, is_valid_json_object E val str ob, is_valid_json_array E val ar]
       (all_of [is_valid_json_object E val str ob, is_valid_json_value E val, is_valid_json_array E val ar,
                is_valid_json_string E str i])"

text \<open>The assertions of \<^verbatim>\<open>basic_claim\<close>: whether the class compiles for the traits.\<close>

definition basic_claim_compiles :: "type_facts \<Rightarrow> traits_class \<Rightarrow> bool" where
  "basic_claim_compiles E T \<longleftrightarrow>
     (tc_string T = Ty ''std::string'' \<or> is_convertible E (tc_string T) (Ty ''std::string'')
       \<or> is_constructible E (tc_string T) [Ty ''std::string'']) \<and>
     is_valid_json_types E (tc_value T) (tc_string T) (tc_integer T) (tc_object T) (tc_array T) = Some True \<and>
     is_valid_traits E T = Some True"

section \<open>What passing means\<close>

lemma all_of_True: "all_of cs = Some True \<longleftrightarrow> (\<forall>c \<in> set cs. c = Some True)"
  by (auto simp: all_of_def list_all_iff)

lemma provides_iff:
  "(\<forall>c \<in> set (provides T name val result). c = Some True) \<longleftrightarrow>
     tc_static T name = Some (Static_function result [Ref (Const val)])"
  by (auto simp: provides_def is_detected_def is_signature_def)

definition exact_members :: "traits_class \<Rightarrow> bool" where
  "exact_members T \<longleftrightarrow>
     (\<forall>(name, result) \<in> set [(''get_type'', Ty ''jwt::json::type''), (''as_object'', tc_object T),
        (''as_array'', tc_array T), (''as_string'', tc_string T), (''as_number'', tc_number T),
        (''as_int'', tc_integer T), (''as_bool'', tc_boolean T)].
      tc_static T name = Some (Static_function result [Ref (Const (tc_value T))]))"

definition fitting_types :: "type_facts \<Rightarrow> traits_class \<Rightarrow> bool" where
  "fitting_types E T \<longleftrightarrow>
     (\<forall>t \<in> set [tc_object T, tc_array T, tc_string T, tc_number T, tc_integer T, tc_boolean T].
        is_constructible E (tc_value T) [t]) \<and>
     is_floating_point E (tc_number T) \<and> is_signed E (tc_integer T) \<and> \<not> is_floating_point E (tc_integer T) \<and>
     is_convertible E (tc_boolean T) (Ty ''bool'')"

text \<open>The check of a traits class either fails to compile or is true, and it is true exactly if each of
  the seven functions is a static function from a constant reference to the value type to the documented
  type, with that very signature, and the types fit; \<^verbatim>\<open>parse\<close> and \<^verbatim>\<open>serialize\<close> are not looked at.\<close>

lemma is_valid_traits_iff:
  "is_valid_traits E T = (if exact_members T \<and> fitting_types E T then Some True else None)"
proof -
  have "(\<forall>c \<in> set (traits_conditions E T). c = Some True) \<longleftrightarrow> exact_members T \<and> fitting_types E T"
    unfolding traits_conditions_def supports_get_type_def supports_as_object_def supports_as_array_def
      supports_as_string_def supports_as_number_def supports_as_integer_def supports_as_boolean_def
    by (simp add: all_of_True ball_Un provides_iff exact_members_def fitting_types_def) blast
  then show ?thesis
    using all_of_True[of "traits_conditions E T"] by (auto simp: is_valid_traits_def asserting_def list_all_iff)
qed

text \<open>A string type with its own operator does not pass without one in \<^verbatim>\<open>std\<close> as well: the alternative the
  condition offers does not compile.\<close>

lemma own_plus_not_enough: "std_plus E str str = None \<Longrightarrow> is_valid_json_string E str i = None"
  by (simp add: is_valid_json_string_def is_std_operate_plus_signature_def is_same_def any_of_def asserting_def Let_def)

section \<open>The four classes\<close>

text \<open>The static functions as \<^verbatim>\<open>traits.h\<close> of each library declares them; all take a constant reference to
  the value type, except \<^verbatim>\<open>parse\<close>, which writes to one and takes the text in the way given.\<close>

definition declares :: "cpp_type \<Rightarrow> cpp_type \<Rightarrow> (string \<times> cpp_type) list \<Rightarrow> string \<Rightarrow> member option" where
  "declares val str fs name =
     (if name = ''parse'' then Some (Static_function (Ty ''bool'') [Ref val, str])
      else map_option (\<lambda>r. Static_function r [Ref (Const val)]) (map_of fs name))"

definition kazuho_picojson :: traits_class where
  "kazuho_picojson =
     \<lparr> tc_value = Ty ''picojson::value'', tc_object = Ty ''picojson::object'', tc_array = Ty ''picojson::array'',
       tc_string = Ty ''std::string'', tc_number = Ty ''double'', tc_integer = Ty ''int64_t'', tc_boolean = Ty ''bool'',
       tc_static = declares (Ty ''picojson::value'') (Ref (Const (Ty ''std::string'')))
         [(''get_type'', Ty ''jwt::json::type''), (''as_object'', Ty ''picojson::object''),
          (''as_string'', Ty ''std::string''), (''as_array'', Ty ''picojson::array''), (''as_int'', Ty ''int64_t''),
          (''as_bool'', Ty ''bool''), (''as_number'', Ty ''double''),
          (''serialize'', Ty ''std::string'')] \<rparr>"

text \<open>In \<^verbatim>\<open>nlohmann_json\<close> the number types are the library's, the functions return the built-in ones.\<close>

definition nlohmann_json :: "cpp_type \<Rightarrow> cpp_type \<Rightarrow> cpp_type \<Rightarrow> traits_class" where
  "nlohmann_json number_float_t number_integer_t boolean_t =
     \<lparr> tc_value = Ty ''nlohmann::json'', tc_object = Ty ''nlohmann::json::object_t'', tc_array = Ty ''nlohmann::json::array_t'',
       tc_string = Ty ''std::string'', tc_number = number_float_t, tc_integer = number_integer_t, tc_boolean = boolean_t,
       tc_static = declares (Ty ''nlohmann::json'') (Ty ''std::string'')
         [(''get_type'', Ty ''jwt::json::type''), (''as_object'', Ty ''nlohmann::json::object_t''),
          (''as_string'', Ty ''std::string''), (''as_array'', Ty ''nlohmann::json::array_t''), (''as_int'', Ty ''int64_t''),
          (''as_bool'', Ty ''bool''), (''as_number'', Ty ''double''),
          (''serialize'', Ty ''std::string'')] \<rparr>"

definition boost_json :: traits_class where
  "boost_json =
     \<lparr> tc_value = Ty ''boost::json::value'', tc_object = Ty ''boost::json::object'', tc_array = Ty ''boost::json::array'',
       tc_string = Ty ''std::string'', tc_number = Ty ''double'', tc_integer = Ty ''int64_t'', tc_boolean = Ty ''bool'',
       tc_static = declares (Ty ''boost::json::value'') (Ty ''std::string'')
         [(''get_type'', Ty ''jwt::json::type''), (''as_object'', Ty ''boost::json::object''),
          (''as_array'', Ty ''boost::json::array''), (''as_string'', Ty ''std::string''), (''as_int'', Ty ''int64_t''),
          (''as_bool'', Ty ''bool''), (''as_number'', Ty ''double''),
          (''serialize'', Ty ''std::string'')] \<rparr>"

definition danielaparker_jsoncons :: traits_class where
  "danielaparker_jsoncons =
     \<lparr> tc_value = Ty ''jsoncons::json'', tc_object = Ty ''danielaparker_jsoncons::object_type'',
       tc_array = Ty ''jsoncons::json::array'', tc_string = Ty ''std::string'', tc_number = Ty ''double'',
       tc_integer = Ty ''int64_t'', tc_boolean = Ty ''bool'',
       tc_static = declares (Ty ''jsoncons::json'') (Ref (Const (Ty ''std::string'')))
         [(''get_type'', Ty ''jwt::json::type''), (''as_object'', Ty ''danielaparker_jsoncons::object_type''),
          (''as_array'', Ty ''jsoncons::json::array''), (''as_string'', Ty ''std::string''), (''as_number'', Ty ''double''),
          (''as_int'', Ty ''int64_t''), (''as_bool'', Ty ''bool''),
          (''serialize'', Ty ''std::string'')] \<rparr>"

lemma classes_exact:
  "exact_members kazuho_picojson" "exact_members boost_json" "exact_members danielaparker_jsoncons"
  "exact_members (nlohmann_json f i b) \<longleftrightarrow> f = Ty ''double'' \<and> i = Ty ''int64_t'' \<and> b = Ty ''bool''"
  by (auto simp: exact_members_def kazuho_picojson_def boost_json_def danielaparker_jsoncons_def nlohmann_json_def
      declares_def)

text \<open>What \<^verbatim>\<open>picojson.h\<close> and the standard library offer for the types of \<^verbatim>\<open>kazuho_picojson\<close>.\<close>

definition picojson_facts :: type_facts where
  "picojson_facts =
     (let val = Ty ''picojson::value''; ob = Ty ''picojson::object''; ar = Ty ''picojson::array''; str = Ty ''std::string''
      in \<lparr> is_constructible = (\<lambda>t args.
             if t = val then args \<in> set [[], [Ref (Const val)], [Rref val], [ob], [ar], [str], [Ty ''double''],
               [Ty ''int64_t''], [Ty ''bool'']]
             else t = str \<and> args \<in> set [[], [str]]),
           is_assignable = (\<lambda>t u. t \<in> set [val, Ref val] \<and> u \<in> set [val, Ref (Const val), Rref val]),
           is_convertible = (\<lambda>t u. t = u),
           is_floating_point = (\<lambda>t. t = Ty ''double''),
           is_signed = (\<lambda>t. t \<in> set [Ty ''double'', Ty ''int64_t'']),
           is_integral = (\<lambda>t. t \<in> set [Ty ''int64_t'', Ty ''size_t'', Ty ''bool'']),
           nested_type = (\<lambda>t name.
             if t = ob then map_of [(''mapped_type'', val), (''key_type'', str), (''value_type'', Pair (Const str) val),
               (''iterator'', Ty ''object::iterator''), (''const_iterator'', Ty ''object::const_iterator'')] name
             else if t = ar \<and> name = ''value_type'' then Some val else None),
           call_type = (\<lambda>t name args. map_of
             [((ob, ''begin'', []), Ty ''object::iterator''), ((Const ob, ''begin'', []), Ty ''object::const_iterator''),
              ((ob, ''end'', []), Ty ''object::iterator''), ((Const ob, ''end'', []), Ty ''object::const_iterator''),
              ((Const ob, ''count'', [Const str]), Ty ''size_t''), ((ob, ''operator[]'', [str]), Ref val),
              ((Const ob, ''at'', [Const str]), Ref (Const val)),
              ((str, ''substr'', [Ty ''int64_t'', Ty ''int64_t'']), str), ((str, ''substr'', [Ty ''int64_t'']), str)]
             (t, name, args)),
           std_plus = (\<lambda>t u. if t = str \<and> u = str then Some str else None) \<rparr>)"

text \<open>The picojson traits pass all checks of \<^verbatim>\<open>basic_claim\<close> and of \<^verbatim>\<open>get_claims\<close>.\<close>

lemma picojson_compiles:
  "basic_claim_compiles picojson_facts kazuho_picojson"
  "supports_claims_transform picojson_facts (Ty ''picojson::value'') (Ty ''std::string'') (Ty ''picojson::object'') = Some True"
  by code_simp+

text \<open>The members of a jsoncons object are no pairs, so \<^verbatim>\<open>get_claims\<close> does not compile for it.\<close>

lemma jsoncons_no_claims_transform:
  "nested_type E ob ''value_type'' = Some (Ty ''key_value_type'') \<Longrightarrow> supports_claims_transform E val str ob \<noteq> Some True"
  by (auto simp: supports_claims_transform_def all_of_True is_same_def)

end
