(* ===== verification/Jwt_Keys.thy ===== *)
theory Jwt_Keys
  imports Base64
begin

text \<open>
  The key helpers of \<^verbatim>\<open>jwt.h\<close> (\<^verbatim>\<open>jwt::helper\<close>) and the interface of OpenSSL they and the
  algorithms call. OpenSSL is not part of the repository: a record of functions stands for it,
  with the results the C functions return (a null pointer is \<open>None\<close>, a status an integer).
  An \<open>'c\<close> is a certificate, a \<open>'k\<close> a key, a \<open>'n\<close> a BIGNUM.
\<close>

section \<open>OpenSSL\<close>

datatype digest = Sha256 | Sha384 | Sha512

record ('c, 'k, 'n) openssl =
  ssl_hmac :: "digest \<Rightarrow> string \<Rightarrow> string \<Rightarrow> string option"  \<comment> \<open>\<^verbatim>\<open>HMAC(md, key, data)\<close>\<close>
  ssl_mem_bio :: bool  \<comment> \<open>\<^verbatim>\<open>BIO_new(BIO_s_mem())\<close>\<close>
  ssl_mem_buf :: "string \<Rightarrow> bool"  \<comment> \<open>\<^verbatim>\<open>BIO_new_mem_buf\<close>\<close>
  ssl_bio_write :: "string \<Rightarrow> int"  \<comment> \<open>\<^verbatim>\<open>BIO_write\<close>\<close>
  ssl_read_x509 :: "string \<Rightarrow> string \<Rightarrow> 'c option"  \<comment> \<open>\<^verbatim>\<open>PEM_read_bio_X509\<close>, with the password\<close>
  ssl_x509_pubkey :: "'c \<Rightarrow> 'k option"  \<comment> \<open>\<^verbatim>\<open>X509_get_pubkey\<close>\<close>
  ssl_write_pubkey :: "'k \<Rightarrow> int \<times> string"  \<comment> \<open>\<^verbatim>\<open>PEM_write_bio_PUBKEY\<close> and what it wrote\<close>
  ssl_d2i_x509 :: "string \<Rightarrow> 'c option"  \<comment> \<open>\<^verbatim>\<open>d2i_X509\<close>\<close>
  ssl_write_x509 :: "'c \<Rightarrow> int \<times> string"  \<comment> \<open>\<^verbatim>\<open>PEM_write_bio_X509\<close>\<close>
  ssl_read_pubkey :: "string \<Rightarrow> string \<Rightarrow> 'k option"  \<comment> \<open>\<^verbatim>\<open>PEM_read_bio_PUBKEY\<close>\<close>
  ssl_read_privkey :: "string \<Rightarrow> string \<Rightarrow> 'k option"  \<comment> \<open>\<^verbatim>\<open>PEM_read_bio_PrivateKey\<close>\<close>
  ssl_md_ctx :: bool  \<comment> \<open>\<^verbatim>\<open>EVP_MD_CTX_create\<close>\<close>
  ssl_sign_init :: "digest \<Rightarrow> int"
  ssl_sign_update :: "digest \<Rightarrow> string \<Rightarrow> int"
  ssl_sign_final :: "digest \<Rightarrow> string \<Rightarrow> 'k \<Rightarrow> int \<times> string"
  ssl_verify_init :: "digest \<Rightarrow> int"
  ssl_verify_update :: "digest \<Rightarrow> string \<Rightarrow> int"
  ssl_verify_final :: "digest \<Rightarrow> string \<Rightarrow> string \<Rightarrow> 'k \<Rightarrow> int"
  ssl_digest_sign_init :: "digest option \<Rightarrow> 'k \<Rightarrow> int"
  ssl_digest_verify_init :: "digest option \<Rightarrow> 'k \<Rightarrow> int"
  ssl_digest_update :: "digest \<Rightarrow> string \<Rightarrow> int"
  ssl_digest_sign_len :: "digest \<Rightarrow> string \<Rightarrow> 'k \<Rightarrow> int"  \<comment> \<open>\<^verbatim>\<open>EVP_DigestSignFinal\<close> asked for the length\<close>
  ssl_digest_sign_final :: "digest \<Rightarrow> string \<Rightarrow> 'k \<Rightarrow> int \<times> string"
  ssl_digest_verify_final :: "digest \<Rightarrow> string \<Rightarrow> string \<Rightarrow> 'k \<Rightarrow> int"
  ssl_digest_sign :: "string \<Rightarrow> 'k \<Rightarrow> int \<times> string"  \<comment> \<open>\<^verbatim>\<open>EVP_DigestSign\<close>\<close>
  ssl_digest_verify :: "string \<Rightarrow> string \<Rightarrow> 'k \<Rightarrow> int"  \<comment> \<open>\<^verbatim>\<open>EVP_DigestVerify\<close>\<close>
  ssl_rsa_padding :: int  \<comment> \<open>\<^verbatim>\<open>EVP_PKEY_CTX_set_rsa_padding\<close>\<close>
  ssl_pss_saltlen :: int  \<comment> \<open>\<^verbatim>\<open>EVP_PKEY_CTX_set_rsa_pss_saltlen\<close>\<close>
  ssl_pkey_size :: "'k \<Rightarrow> nat"
  ssl_pkey_bits :: "'k \<Rightarrow> nat"
  ssl_pkey_ctx :: "'k \<Rightarrow> bool"  \<comment> \<open>\<^verbatim>\<open>EVP_PKEY_CTX_new_from_pkey\<close>\<close>
  ssl_public_check :: "'k \<Rightarrow> int"
  ssl_private_check :: "'k \<Rightarrow> int"
  ssl_bn2bin :: "'n \<Rightarrow> string"
  ssl_bin2bn :: "string \<Rightarrow> 'n"
  ssl_d2i_sig :: "string \<Rightarrow> ('n \<times> 'n) option"
  ssl_sig_new :: bool
  ssl_i2d_sig :: "'n \<times> 'n \<Rightarrow> int \<times> string"

section \<open>Certificates\<close>

text \<open>A function with an error code returns its result beside the code.\<close>

definition extract_pubkey_from_cert_ec ::
  "('c, 'k, 'n) openssl \<Rightarrow> string \<Rightarrow> string \<Rightarrow> string \<times> error_code" where
  "extract_pubkey_from_cert_ec ssl certstr pw =
     (if \<not> ssl_mem_buf ssl certstr \<or> \<not> ssl_mem_bio ssl then ([], rsa_ec Rsa_create_mem_bio_failed)
      else
        (case ssl_read_x509 ssl certstr pw of
           None \<Rightarrow> ([], rsa_ec Cert_load_failed)
         | Some cert \<Rightarrow>
             (case ssl_x509_pubkey ssl cert of
                None \<Rightarrow> ([], rsa_ec Rsa_get_key_failed)
              | Some key \<Rightarrow>
                  (let (st, pem) = ssl_write_pubkey ssl key
                   in if st = 0 then ([], rsa_ec Write_key_failed)
                      else if length pem = 0 then ([], rsa_ec Convert_to_pem_failed)
                      else (pem, no_ec)))))"

definition extract_pubkey_from_cert ::
  "('c, 'k, 'n) openssl \<Rightarrow> string \<Rightarrow> string \<Rightarrow> exn + string" where
  "extract_pubkey_from_cert ssl certstr pw =
     (let (res, ec) = extract_pubkey_from_cert_ec ssl certstr pw in or_throw ec res)"

definition convert_base64_der_to_pem_with ::
  "('c, 'k, 'n) openssl \<Rightarrow> string \<Rightarrow> (string \<Rightarrow> exn + string) \<Rightarrow> exn + (string \<times> error_code)" where
  "convert_base64_der_to_pem_with ssl der64 dec =
     sbind (dec der64) (\<lambda>decoded.
       case ssl_d2i_x509 ssl decoded of
         None \<Rightarrow> Inr ([], rsa_ec Rsa_create_mem_bio_failed)
       | Some cert \<Rightarrow>
           if \<not> ssl_mem_bio ssl then Inr ([], rsa_ec Rsa_create_mem_bio_failed)
           else
             (let (st, pem) = ssl_write_x509 ssl cert
              in if st = 0 then Inr ([], rsa_ec Write_cert_failed)
                 else if length pem = 0 then Inr ([], rsa_ec Convert_to_pem_failed)
                 else Inr (pem, no_ec)))"

definition convert_base64_der_to_pem_throw ::
  "('c, 'k, 'n) openssl \<Rightarrow> string \<Rightarrow> (string \<Rightarrow> exn + string) \<Rightarrow> exn + string" where
  "convert_base64_der_to_pem_throw ssl der64 dec =
     sbind (convert_base64_der_to_pem_with ssl der64 dec) (\<lambda>(res, ec). or_throw ec res)"

definition convert_base64_der_to_pem_ec ::
  "('c, 'k, 'n) openssl \<Rightarrow> string \<Rightarrow> exn + (string \<times> error_code)" where
  "convert_base64_der_to_pem_ec ssl der64 =
     convert_base64_der_to_pem_with ssl der64 (\<lambda>tok. decode base64 (pad base64 tok))"

definition convert_base64_der_to_pem :: "('c, 'k, 'n) openssl \<Rightarrow> string \<Rightarrow> exn + string" where
  "convert_base64_der_to_pem ssl der64 =
     sbind (convert_base64_der_to_pem_ec ssl der64) (\<lambda>(res, ec). or_throw ec res)"

section \<open>Loading keys\<close>

definition begin_certificate :: string where
  "begin_certificate = ''-----BEGIN CERTIFICATE-----''"

text \<open>Write a text to the memory BIO, all of it or an error.\<close>

definition write_all :: "('c, 'k, 'n) openssl \<Rightarrow> string \<Rightarrow> bool" where
  "write_all ssl s \<longleftrightarrow> ssl_bio_write ssl s = int (length s)"

definition load_public_key_ec ::
  "('c, 'k, 'n) openssl \<Rightarrow> string \<Rightarrow> string \<Rightarrow> 'k option \<times> error_code" where
  "load_public_key_ec ssl key password =
     (if \<not> ssl_mem_bio ssl then (None, rsa_ec Rsa_create_mem_bio_failed)
      else if substr key 0 27 = begin_certificate then
        (let (epkey, ec) = extract_pubkey_from_cert_ec ssl key password
         in if ec_failed ec then (None, ec)
            else if \<not> write_all ssl epkey then (None, rsa_ec Rsa_load_key_bio_write)
            else (case ssl_read_pubkey ssl epkey password of
                    None \<Rightarrow> (None, rsa_ec Rsa_load_key_bio_read)
                  | Some k \<Rightarrow> (Some k, no_ec)))
      else if \<not> write_all ssl key then (None, rsa_ec Rsa_load_key_bio_write)
      else (case ssl_read_pubkey ssl key password of
              None \<Rightarrow> (None, rsa_ec Rsa_load_key_bio_read)
            | Some k \<Rightarrow> (Some k, no_ec)))"

definition load_public_key_from_string ::
  "('c, 'k, 'n) openssl \<Rightarrow> string \<Rightarrow> string \<Rightarrow> exn + 'k option" where
  "load_public_key_from_string ssl key password =
     (let (res, ec) = load_public_key_ec ssl key password in or_throw ec res)"

text \<open>The private key loaders do not clear the code they are given; it is the argument \<open>ec0\<close>.\<close>

definition load_private_key_ec ::
  "('c, 'k, 'n) openssl \<Rightarrow> string \<Rightarrow> string \<Rightarrow> error_code \<Rightarrow> 'k option \<times> error_code" where
  "load_private_key_ec ssl key password ec0 =
     (if \<not> ssl_mem_bio ssl then (None, rsa_ec Rsa_create_mem_bio_failed)
      else if \<not> write_all ssl key then (None, rsa_ec Rsa_load_key_bio_write)
      else (case ssl_read_privkey ssl key password of
              None \<Rightarrow> (None, rsa_ec Rsa_load_key_bio_read)
            | Some k \<Rightarrow> (Some k, ec0)))"

definition load_private_key_from_string ::
  "('c, 'k, 'n) openssl \<Rightarrow> string \<Rightarrow> string \<Rightarrow> exn + 'k option" where
  "load_private_key_from_string ssl key password =
     (let (res, ec) = load_private_key_ec ssl key password no_ec in or_throw ec res)"

definition load_public_ec_key_ec ::
  "('c, 'k, 'n) openssl \<Rightarrow> string \<Rightarrow> string \<Rightarrow> 'k option \<times> error_code" where
  "load_public_ec_key_ec ssl key password =
     (if \<not> ssl_mem_bio ssl then (None, ecdsa_ec Ecdsa_create_mem_bio_failed)
      else if substr key 0 27 = begin_certificate then
        (let (epkey, ec) = extract_pubkey_from_cert_ec ssl key password
         in if ec_failed ec then (None, ec)
            else if \<not> write_all ssl epkey then (None, ecdsa_ec Ecdsa_load_key_bio_write)
            else (case ssl_read_pubkey ssl epkey password of
                    None \<Rightarrow> (None, ecdsa_ec Ecdsa_load_key_bio_read)
                  | Some k \<Rightarrow> (Some k, no_ec)))
      else if \<not> write_all ssl key then (None, ecdsa_ec Ecdsa_load_key_bio_write)
      else (case ssl_read_pubkey ssl key password of
              None \<Rightarrow> (None, ecdsa_ec Ecdsa_load_key_bio_read)
            | Some k \<Rightarrow> (Some k, no_ec)))"

definition load_public_ec_key_from_string ::
  "('c, 'k, 'n) openssl \<Rightarrow> string \<Rightarrow> string \<Rightarrow> exn + 'k option" where
  "load_public_ec_key_from_string ssl key password =
     (let (res, ec) = load_public_ec_key_ec ssl key password in or_throw ec res)"

definition load_private_ec_key_ec ::
  "('c, 'k, 'n) openssl \<Rightarrow> string \<Rightarrow> string \<Rightarrow> error_code \<Rightarrow> 'k option \<times> error_code" where
  "load_private_ec_key_ec ssl key password ec0 =
     (if \<not> ssl_mem_bio ssl then (None, ecdsa_ec Ecdsa_create_mem_bio_failed)
      else if \<not> write_all ssl key then (None, ecdsa_ec Ecdsa_load_key_bio_write)
      else (case ssl_read_privkey ssl key password of
              None \<Rightarrow> (None, ecdsa_ec Ecdsa_load_key_bio_read)
            | Some k \<Rightarrow> (Some k, ec0)))"

definition load_private_ec_key_from_string ::
  "('c, 'k, 'n) openssl \<Rightarrow> string \<Rightarrow> string \<Rightarrow> exn + 'k option" where
  "load_private_ec_key_from_string ssl key password =
     (let (res, ec) = load_private_ec_key_ec ssl key password no_ec in or_throw ec res)"

definition bn2raw :: "('c, 'k, 'n) openssl \<Rightarrow> 'n \<Rightarrow> string" where
  "bn2raw ssl bn = ssl_bn2bin ssl bn"

definition raw2bn :: "('c, 'k, 'n) openssl \<Rightarrow> string \<Rightarrow> 'n" where
  "raw2bn ssl raw = ssl_bin2bn ssl raw"

text \<open>A loader that does not throw gives a key.\<close>

lemma or_throw_Inr: "or_throw ec x = Inr y \<longleftrightarrow> y = x \<and> throw_if_error ec = None"
  by (auto simp: or_throw_def split: option.splits)

lemma extract_pubkey_throws:
  "extract_pubkey_from_cert_ec ssl c p = (s, ec) \<Longrightarrow> throw_if_error ec = None \<Longrightarrow> \<not> ec_failed ec"
  by (auto simp: extract_pubkey_from_cert_ec_def Let_def split: if_splits option.splits prod.splits)

lemma load_key_Some:
  "load_public_key_from_string ssl key pw = Inr r \<Longrightarrow> \<exists>k. r = Some k"
  "load_private_key_from_string ssl key pw = Inr r \<Longrightarrow> \<exists>k. r = Some k"
  "load_public_ec_key_from_string ssl key pw = Inr r \<Longrightarrow> \<exists>k. r = Some k"
  "load_private_ec_key_from_string ssl key pw = Inr r \<Longrightarrow> \<exists>k. r = Some k"
  by (auto simp: load_public_key_from_string_def load_private_key_from_string_def
      load_public_ec_key_from_string_def load_private_ec_key_from_string_def load_public_key_ec_def
      load_private_key_ec_def load_public_ec_key_ec_def load_private_ec_key_ec_def or_throw_Inr Let_def
      dest: extract_pubkey_throws split: if_splits option.split_asm prod.splits) metis+

end
