(* ===== verification/Jwt_Algorithm.thy ===== *)
theory Jwt_Algorithm
  imports Jwt_Keys
begin

text \<open>
  The algorithms of \<^verbatim>\<open>jwt.h\<close> (\<^verbatim>\<open>jwt::algorithm\<close>): each is a name, a signing and a verifying
  function over OpenSSL. The interface of signing and verifying is the locale
  \<^verbatim>\<open>signature_scheme\<close>, which the HMAC family and \<^verbatim>\<open>none\<close> implement.
\<close>

section \<open>The interface\<close>

text \<open>Signing may throw; otherwise it gives the signature and a code. Verifying gives a code.\<close>

record algorithm =
  alg_name :: string
  alg_sign :: "string \<Rightarrow> exn + (string \<times> error_code)"
  alg_verify :: "string \<Rightarrow> string \<Rightarrow> error_code"

section \<open>none\<close>

definition none_sign :: "string \<Rightarrow> exn + (string \<times> error_code)" where
  "none_sign data = Inr ([], no_ec)"

definition none_verify :: "string \<Rightarrow> string \<Rightarrow> error_code" where
  "none_verify data sig = (if sig \<noteq> [] then verify_ec Invalid_signature else no_ec)"

definition none_alg :: algorithm where
  "none_alg = \<lparr> alg_name = ''none'', alg_sign = none_sign, alg_verify = none_verify \<rparr>"

section \<open>HMAC\<close>

definition hmac_sign ::
  "('c, 'k, 'n) openssl \<Rightarrow> string \<Rightarrow> digest \<Rightarrow> string \<Rightarrow> exn + (string \<times> error_code)" where
  "hmac_sign ssl secret md data =
     (case ssl_hmac ssl md secret data of
        None \<Rightarrow> Inr ([], sign_ec Hmac_failed)
      | Some res \<Rightarrow> Inr (res, no_ec))"

text \<open>The comparison runs over all common positions, then compares the sizes.\<close>

definition same_bytes :: "string \<Rightarrow> string \<Rightarrow> bool" where
  "same_bytes a b \<longleftrightarrow>
     fold (\<lambda>(x, y) matched. if x \<noteq> y then False else matched) (zip a b) True \<and> length a = length b"

definition hmac_verify ::
  "('c, 'k, 'n) openssl \<Rightarrow> string \<Rightarrow> digest \<Rightarrow> string \<Rightarrow> string \<Rightarrow> error_code" where
  "hmac_verify ssl secret md data sig =
     (case hmac_sign ssl secret md data of
        Inl e \<Rightarrow> no_ec
      | Inr (res, ec) \<Rightarrow>
          if ec_failed ec then ec
          else if \<not> same_bytes res sig then verify_ec Invalid_signature
          else ec)"

definition hmacsha :: "('c, 'k, 'n) openssl \<Rightarrow> string \<Rightarrow> digest \<Rightarrow> string \<Rightarrow> algorithm" where
  "hmacsha ssl key md name =
     \<lparr> alg_name = name, alg_sign = hmac_sign ssl key md, alg_verify = hmac_verify ssl key md \<rparr>"

definition hs256 :: "('c, 'k, 'n) openssl \<Rightarrow> string \<Rightarrow> algorithm" where
  "hs256 ssl key = hmacsha ssl key Sha256 ''HS256''"

definition hs384 :: "('c, 'k, 'n) openssl \<Rightarrow> string \<Rightarrow> algorithm" where
  "hs384 ssl key = hmacsha ssl key Sha384 ''HS384''"

definition hs512 :: "('c, 'k, 'n) openssl \<Rightarrow> string \<Rightarrow> algorithm" where
  "hs512 ssl key = hmacsha ssl key Sha512 ''HS512''"

section \<open>RSA\<close>

text \<open>The key of the RSA algorithms: the private one if given, else the public one.\<close>

definition rsa_key :: "('c, 'k, 'n) openssl \<Rightarrow> string \<Rightarrow> string \<Rightarrow> string \<Rightarrow> string \<Rightarrow> exn + 'k option" where
  "rsa_key ssl public_key private_key public_pw private_pw =
     (if private_key \<noteq> [] then load_private_key_from_string ssl private_key private_pw
      else if public_key \<noteq> [] then load_public_key_from_string ssl public_key public_pw
      else Inl (Rsa_exception (rsa_ec Rsa_no_key_provided)))"

definition rsa_sign ::
  "('c, 'k, 'n) openssl \<Rightarrow> 'k \<Rightarrow> digest \<Rightarrow> string \<Rightarrow> exn + (string \<times> error_code)" where
  "rsa_sign ssl pkey md data =
     (if \<not> ssl_md_ctx ssl then Inr ([], sign_ec Sign_create_context_failed)
      else if ssl_sign_init ssl md = 0 then Inr ([], sign_ec Signinit_failed)
      else if ssl_sign_update ssl md data = 0 then Inr ([], sign_ec Signupdate_failed)
      else
        (let (st, res) = ssl_sign_final ssl md data pkey
         in if st = 0 then Inr ([], sign_ec Signfinal_failed) else Inr (res, no_ec)))"

definition rsa_verify ::
  "('c, 'k, 'n) openssl \<Rightarrow> 'k \<Rightarrow> digest \<Rightarrow> string \<Rightarrow> string \<Rightarrow> error_code" where
  "rsa_verify ssl pkey md data sig =
     (if \<not> ssl_md_ctx ssl then verify_ec Verify_create_context_failed
      else if ssl_verify_init ssl md = 0 then verify_ec Verifyinit_failed
      else if ssl_verify_update ssl md data = 0 then verify_ec Verifyupdate_failed
      else if ssl_verify_final ssl md data sig pkey \<noteq> 1 then verify_ec Verifyfinal_failed
      else no_ec)"

text \<open>A loader that does not throw returned a key, so the member \<^verbatim>\<open>pkey\<close> is never null.\<close>

definition with_key :: "exn + 'k option \<Rightarrow> ('k \<Rightarrow> exn + algorithm) \<Rightarrow> exn + algorithm" where
  "with_key r f = sbind r (\<lambda>k. case k of Some pkey \<Rightarrow> f pkey | None \<Rightarrow> Inl (Ecdsa_exception (ecdsa_ec Invalid_key)))"

definition rsa :: "('c, 'k, 'n) openssl \<Rightarrow> string \<Rightarrow> string \<Rightarrow> string \<Rightarrow> string \<Rightarrow> digest \<Rightarrow> string \<Rightarrow> exn + algorithm" where
  "rsa ssl public_key private_key public_pw private_pw md name =
     with_key (rsa_key ssl public_key private_key public_pw private_pw) (\<lambda>pkey.
       Inr \<lparr> alg_name = name, alg_sign = rsa_sign ssl pkey md, alg_verify = rsa_verify ssl pkey md \<rparr>)"

definition rs256 :: "('c, 'k, 'n) openssl \<Rightarrow> string \<Rightarrow> string \<Rightarrow> string \<Rightarrow> string \<Rightarrow> exn + algorithm" where
  "rs256 ssl pub priv pub_pw priv_pw = rsa ssl pub priv pub_pw priv_pw Sha256 ''RS256''"

definition rs384 :: "('c, 'k, 'n) openssl \<Rightarrow> string \<Rightarrow> string \<Rightarrow> string \<Rightarrow> string \<Rightarrow> exn + algorithm" where
  "rs384 ssl pub priv pub_pw priv_pw = rsa ssl pub priv pub_pw priv_pw Sha384 ''RS384''"

definition rs512 :: "('c, 'k, 'n) openssl \<Rightarrow> string \<Rightarrow> string \<Rightarrow> string \<Rightarrow> string \<Rightarrow> exn + algorithm" where
  "rs512 ssl pub priv pub_pw priv_pw = rsa ssl pub priv pub_pw priv_pw Sha512 ''RS512''"

section \<open>ECDSA\<close>

text \<open>
  The DER form of a signature to the two numbers side by side, each left padded with zero bytes
  to half the signature length, and back.
\<close>

definition zero_pad :: "nat \<Rightarrow> string \<Rightarrow> string" where
  "zero_pad n s = replicate (n - length s) (CHR 0x00) @ s"

definition der_to_p1363_signature ::
  "('c, 'k, 'n) openssl \<Rightarrow> nat \<Rightarrow> string \<Rightarrow> exn + (string \<times> error_code)" where
  "der_to_p1363_signature ssl siglen der =
     (case ssl_d2i_sig ssl der of
        None \<Rightarrow> Inr ([], sign_ec Signature_decoding_failed)
      | Some (r, s) \<Rightarrow>
          (let rr = bn2raw ssl r; rs = bn2raw ssl s
           in if length rr > siglen div 2 \<or> length rs > siglen div 2 then
                Inl (Logic_error ''bignum size exceeded expected length'')
              else Inr (zero_pad (siglen div 2) rr @ zero_pad (siglen div 2) rs, no_ec)))"

definition p1363_to_der_signature ::
  "('c, 'k, 'n) openssl \<Rightarrow> string \<Rightarrow> string \<times> error_code" where
  "p1363_to_der_signature ssl sig =
     (let r = raw2bn ssl (take (length sig div 2) sig);
          s = raw2bn ssl (drop (length sig div 2) sig)
      in if \<not> ssl_sig_new ssl then ([], verify_ec Verify_create_context_failed)
         else
           (let (len, der) = ssl_i2d_sig ssl (r, s)
            in if len < 0 then ([], verify_ec Signature_encoding_failed) else (der, no_ec)))"

definition ecdsa_sign ::
  "('c, 'k, 'n) openssl \<Rightarrow> 'k \<Rightarrow> digest \<Rightarrow> nat \<Rightarrow> string \<Rightarrow> exn + (string \<times> error_code)" where
  "ecdsa_sign ssl pkey md siglen data =
     (if \<not> ssl_md_ctx ssl then Inr ([], sign_ec Sign_create_context_failed)
      else if ssl_digest_sign_init ssl (Some md) pkey = 0 then Inr ([], sign_ec Signinit_failed)
      else if ssl_digest_update ssl md data = 0 then Inr ([], sign_ec Digestupdate_failed)
      else if ssl_digest_sign_len ssl md data pkey = 0 then Inr ([], sign_ec Signfinal_failed)
      else
        (let (st, res) = ssl_digest_sign_final ssl md data pkey
         in if st = 0 then Inr ([], sign_ec Signfinal_failed)
            else der_to_p1363_signature ssl siglen res))"

definition ecdsa_verify ::
  "('c, 'k, 'n) openssl \<Rightarrow> 'k \<Rightarrow> digest \<Rightarrow> string \<Rightarrow> string \<Rightarrow> error_code" where
  "ecdsa_verify ssl pkey md data sig =
     (let (der, ec) = p1363_to_der_signature ssl sig
      in if ec_failed ec then ec
         else if \<not> ssl_md_ctx ssl then verify_ec Verify_create_context_failed
         else if ssl_digest_verify_init ssl (Some md) pkey = 0 then verify_ec Verifyinit_failed
         else if ssl_digest_update ssl md data = 0 then verify_ec Verifyupdate_failed
         else
           (let res = ssl_digest_verify_final ssl md data der pkey
            in if res = 0 then verify_ec Invalid_signature
               else if res = -1 then verify_ec Verifyfinal_failed
               else ec))"

definition check_public_key :: "('c, 'k, 'n) openssl \<Rightarrow> 'k \<Rightarrow> exn option" where
  "check_public_key ssl pkey =
     (if \<not> ssl_pkey_ctx ssl pkey then Some (Ecdsa_exception (ecdsa_ec Ecdsa_create_context_failed))
      else if ssl_public_check ssl pkey \<noteq> 1 then Some (Ecdsa_exception (ecdsa_ec Invalid_key))
      else None)"

definition check_private_key :: "('c, 'k, 'n) openssl \<Rightarrow> 'k \<Rightarrow> exn option" where
  "check_private_key ssl pkey =
     (if \<not> ssl_pkey_ctx ssl pkey then Some (Ecdsa_exception (ecdsa_ec Ecdsa_create_context_failed))
      else if ssl_private_check ssl pkey \<noteq> 1 then Some (Ecdsa_exception (ecdsa_ec Invalid_key))
      else None)"

definition check_keysize :: "nat \<Rightarrow> nat \<Rightarrow> bool" where
  "check_keysize siglen bits \<longleftrightarrow> \<not> (bits \<noteq> siglen * 4 \<and> (siglen \<noteq> 132 \<or> bits \<noteq> 521))"

definition ecdsa_checked ::
  "('c, 'k, 'n) openssl \<Rightarrow> 'k \<Rightarrow> exn option \<Rightarrow> digest \<Rightarrow> string \<Rightarrow> nat \<Rightarrow> exn + algorithm" where
  "ecdsa_checked ssl pkey check md name siglen =
     (case check of
        Some e \<Rightarrow> Inl e
      | None \<Rightarrow>
          if \<not> check_keysize siglen (ssl_pkey_bits ssl pkey) then
            Inl (Ecdsa_exception (ecdsa_ec Invalid_key_size))
          else
            Inr \<lparr> alg_name = name, alg_sign = ecdsa_sign ssl pkey md siglen,
                  alg_verify = ecdsa_verify ssl pkey md \<rparr>)"

definition ecdsa ::
  "('c, 'k, 'n) openssl \<Rightarrow> string \<Rightarrow> string \<Rightarrow> string \<Rightarrow> string \<Rightarrow> digest \<Rightarrow> string \<Rightarrow> nat \<Rightarrow> exn + algorithm" where
  "ecdsa ssl public_key private_key public_pw private_pw md name siglen =
     (if private_key \<noteq> [] then
        with_key (load_private_ec_key_from_string ssl private_key private_pw) (\<lambda>pkey.
          ecdsa_checked ssl pkey (check_private_key ssl pkey) md name siglen)
      else if public_key \<noteq> [] then
        with_key (load_public_ec_key_from_string ssl public_key public_pw) (\<lambda>pkey.
          ecdsa_checked ssl pkey (check_public_key ssl pkey) md name siglen)
      else Inl (Ecdsa_exception (ecdsa_ec Ecdsa_no_key_provided)))"

definition es256 :: "('c, 'k, 'n) openssl \<Rightarrow> string \<Rightarrow> string \<Rightarrow> string \<Rightarrow> string \<Rightarrow> exn + algorithm" where
  "es256 ssl pub priv pub_pw priv_pw = ecdsa ssl pub priv pub_pw priv_pw Sha256 ''ES256'' 64"

definition es384 :: "('c, 'k, 'n) openssl \<Rightarrow> string \<Rightarrow> string \<Rightarrow> string \<Rightarrow> string \<Rightarrow> exn + algorithm" where
  "es384 ssl pub priv pub_pw priv_pw = ecdsa ssl pub priv pub_pw priv_pw Sha384 ''ES384'' 96"

definition es512 :: "('c, 'k, 'n) openssl \<Rightarrow> string \<Rightarrow> string \<Rightarrow> string \<Rightarrow> string \<Rightarrow> exn + algorithm" where
  "es512 ssl pub priv pub_pw priv_pw = ecdsa ssl pub priv pub_pw priv_pw Sha512 ''ES512'' 132"

definition es256k :: "('c, 'k, 'n) openssl \<Rightarrow> string \<Rightarrow> string \<Rightarrow> string \<Rightarrow> string \<Rightarrow> exn + algorithm" where
  "es256k ssl pub priv pub_pw priv_pw = ecdsa ssl pub priv pub_pw priv_pw Sha256 ''ES256K'' 64"

section \<open>EdDSA\<close>

definition eddsa_key :: "('c, 'k, 'n) openssl \<Rightarrow> string \<Rightarrow> string \<Rightarrow> string \<Rightarrow> string \<Rightarrow> exn + 'k option" where
  "eddsa_key ssl public_key private_key public_pw private_pw =
     (if private_key \<noteq> [] then load_private_key_from_string ssl private_key private_pw
      else if public_key \<noteq> [] then load_public_key_from_string ssl public_key public_pw
      else Inl (Ecdsa_exception (ecdsa_ec Ecdsa_load_key_bio_read)))"

definition eddsa_sign :: "('c, 'k, 'n) openssl \<Rightarrow> 'k \<Rightarrow> string \<Rightarrow> exn + (string \<times> error_code)" where
  "eddsa_sign ssl pkey data =
     (if \<not> ssl_md_ctx ssl then Inr ([], sign_ec Sign_create_context_failed)
      else if ssl_digest_sign_init ssl None pkey = 0 then Inr ([], sign_ec Signinit_failed)
      else
        (let (st, res) = ssl_digest_sign ssl data pkey
         in if st \<noteq> 1 then Inr ([], sign_ec Signfinal_failed) else Inr (res, no_ec)))"

definition eddsa_verify :: "('c, 'k, 'n) openssl \<Rightarrow> 'k \<Rightarrow> string \<Rightarrow> string \<Rightarrow> error_code" where
  "eddsa_verify ssl pkey data sig =
     (if \<not> ssl_md_ctx ssl then verify_ec Verify_create_context_failed
      else if ssl_digest_verify_init ssl None pkey = 0 then verify_ec Verifyinit_failed
      else if ssl_digest_verify ssl sig data pkey \<noteq> 1 then verify_ec Verifyfinal_failed
      else no_ec)"

definition eddsa :: "('c, 'k, 'n) openssl \<Rightarrow> string \<Rightarrow> string \<Rightarrow> string \<Rightarrow> string \<Rightarrow> string \<Rightarrow> exn + algorithm" where
  "eddsa ssl public_key private_key public_pw private_pw name =
     with_key (eddsa_key ssl public_key private_key public_pw private_pw) (\<lambda>pkey.
       Inr \<lparr> alg_name = name, alg_sign = eddsa_sign ssl pkey, alg_verify = eddsa_verify ssl pkey \<rparr>)"

definition ed25519 :: "('c, 'k, 'n) openssl \<Rightarrow> string \<Rightarrow> string \<Rightarrow> string \<Rightarrow> string \<Rightarrow> exn + algorithm" where
  "ed25519 ssl pub priv pub_pw priv_pw = eddsa ssl pub priv pub_pw priv_pw ''EdDSA''"

definition ed448 :: "('c, 'k, 'n) openssl \<Rightarrow> string \<Rightarrow> string \<Rightarrow> string \<Rightarrow> string \<Rightarrow> exn + algorithm" where
  "ed448 ssl pub priv pub_pw priv_pw = eddsa ssl pub priv pub_pw priv_pw ''EdDSA''"

section \<open>RSA-PSS\<close>

text \<open>
  The result is as long as the key even where OpenSSL wrote less, since it is not resized; a
  padding that cannot be set is a signature generation error in both directions.
\<close>

definition pss_sign ::
  "('c, 'k, 'n) openssl \<Rightarrow> 'k \<Rightarrow> digest \<Rightarrow> string \<Rightarrow> exn + (string \<times> error_code)" where
  "pss_sign ssl pkey md data =
     (if \<not> ssl_md_ctx ssl then Inr ([], sign_ec Sign_create_context_failed)
      else if ssl_digest_sign_init ssl (Some md) pkey \<noteq> 1 then Inr ([], sign_ec Signinit_failed)
      else if ssl_rsa_padding ssl \<le> 0 then Inr ([], sign_ec Rsa_padding_failed)
      else if ssl_pss_saltlen ssl \<le> 0 then Inr ([], sign_ec Sign_set_rsa_pss_saltlen_failed)
      else if ssl_digest_update ssl md data \<noteq> 1 then Inr ([], sign_ec Digestupdate_failed)
      else
        (let (st, res) = ssl_digest_sign_final ssl md data pkey
         in if st \<le> 0 then Inr ([], sign_ec Signfinal_failed)
            else Inr (res @ replicate (ssl_pkey_size ssl pkey - length res) (CHR 0x00), no_ec)))"

definition pss_verify ::
  "('c, 'k, 'n) openssl \<Rightarrow> 'k \<Rightarrow> digest \<Rightarrow> string \<Rightarrow> string \<Rightarrow> error_code" where
  "pss_verify ssl pkey md data sig =
     (if \<not> ssl_md_ctx ssl then verify_ec Verify_create_context_failed
      else if ssl_digest_verify_init ssl (Some md) pkey \<noteq> 1 then verify_ec Verifyinit_failed
      else if ssl_rsa_padding ssl \<le> 0 then sign_ec Rsa_padding_failed
      else if ssl_pss_saltlen ssl \<le> 0 then verify_ec Verify_set_rsa_pss_saltlen_failed
      else if ssl_digest_update ssl md data \<noteq> 1 then verify_ec Verifyupdate_failed
      else if ssl_digest_verify_final ssl md data sig pkey \<le> 0 then verify_ec Verifyfinal_failed
      else no_ec)"

definition pss :: "('c, 'k, 'n) openssl \<Rightarrow> string \<Rightarrow> string \<Rightarrow> string \<Rightarrow> string \<Rightarrow> digest \<Rightarrow> string \<Rightarrow> exn + algorithm" where
  "pss ssl public_key private_key public_pw private_pw md name =
     with_key (rsa_key ssl public_key private_key public_pw private_pw) (\<lambda>pkey.
       Inr \<lparr> alg_name = name, alg_sign = pss_sign ssl pkey md, alg_verify = pss_verify ssl pkey md \<rparr>)"

definition ps256 :: "('c, 'k, 'n) openssl \<Rightarrow> string \<Rightarrow> string \<Rightarrow> string \<Rightarrow> string \<Rightarrow> exn + algorithm" where
  "ps256 ssl pub priv pub_pw priv_pw = pss ssl pub priv pub_pw priv_pw Sha256 ''PS256''"

definition ps384 :: "('c, 'k, 'n) openssl \<Rightarrow> string \<Rightarrow> string \<Rightarrow> string \<Rightarrow> string \<Rightarrow> exn + algorithm" where
  "ps384 ssl pub priv pub_pw priv_pw = pss ssl pub priv pub_pw priv_pw Sha384 ''PS384''"

definition ps512 :: "('c, 'k, 'n) openssl \<Rightarrow> string \<Rightarrow> string \<Rightarrow> string \<Rightarrow> string \<Rightarrow> exn + algorithm" where
  "ps512 ssl pub priv pub_pw priv_pw = pss ssl pub priv pub_pw priv_pw Sha512 ''PS512''"

section \<open>What a signature scheme promises\<close>

text \<open>A signature that was made verifies; in an exact scheme nothing else does.\<close>

locale signature_scheme =
  fixes sign :: "string \<Rightarrow> exn + (string \<times> error_code)"
    and verify :: "string \<Rightarrow> string \<Rightarrow> error_code"
  assumes verify_sign: "sign d = Inr (s, ec) \<Longrightarrow> \<not> ec_failed ec \<Longrightarrow> \<not> ec_failed (verify d s)"

locale exact_scheme = signature_scheme +
  assumes verify_only: "\<not> ec_failed (verify d s) \<Longrightarrow> \<exists>ec. sign d = Inr (s, ec) \<and> \<not> ec_failed ec"
begin

lemma verify_iff: "\<not> ec_failed (verify d s) \<longleftrightarrow> (\<exists>ec. sign d = Inr (s, ec) \<and> \<not> ec_failed ec)"
  using verify_sign verify_only by blast

lemma verify_unique: "\<not> ec_failed (verify d s) \<Longrightarrow> \<not> ec_failed (verify d t) \<Longrightarrow> s = t"
  using verify_only[of d s] verify_only[of d t] by auto

end

lemma same_bytes_iff [simp]: "same_bytes a b \<longleftrightarrow> a = b"
proof -
  have f: "fold (\<lambda>(x, y) matched. if x \<noteq> y then False else matched) xs False = False"
    for xs :: "(char \<times> char) list"
    by (induction xs) auto
  have "fold (\<lambda>(x, y) matched. if x \<noteq> y then False else matched) (zip a b) True \<longleftrightarrow>
      (\<forall>(x, y) \<in> set (zip a b). x = y)"
    by (induction a b rule: list_induct2') (auto simp: f)
  then show ?thesis
    unfolding same_bytes_def by (auto simp: list_eq_iff_zip_eq)
qed

interpretation none: exact_scheme none_sign none_verify
  by unfold_locales (auto simp: none_sign_def none_verify_def split: if_splits)

interpretation hmac: exact_scheme "hmac_sign ssl key md" "hmac_verify ssl key md" for ssl key md
  by unfold_locales (auto simp: hmac_sign_def hmac_verify_def split: option.splits if_splits)

text \<open>
  An HS256 signature is accepted exactly when it is the HMAC-SHA256 of the data under the secret;
  a signature of another length, a prefix of the right one included, is rejected, and so is every
  signature when OpenSSL fails to compute the HMAC.
\<close>

theorem hs256_verify_iff:
  "\<not> ec_failed (alg_verify (hs256 ssl key) d s) \<longleftrightarrow> ssl_hmac ssl Sha256 key d = Some s"
  unfolding hs256_def hmacsha_def algorithm.simps hmac.verify_iff
  by (auto simp: hmac_sign_def split: option.splits)

section \<open>ECDSA signatures\<close>

text \<open>
  What the conversions rely on in OpenSSL: \<^verbatim>\<open>BN_bn2bin\<close> writes a number big endian so that
  \<^verbatim>\<open>BN_bin2bn\<close> reads it back, leading zero bytes do not change a number, and a signature object
  is encoded with a length that is not negative.
\<close>

definition bignum_ok :: "('c, 'k, 'n) openssl \<Rightarrow> bool" where
  "bignum_ok ssl \<longleftrightarrow>
     (\<forall>n. ssl_bin2bn ssl (ssl_bn2bin ssl n) = n) \<and>
     (\<forall>s. ssl_bin2bn ssl (CHR 0x00 # s) = ssl_bin2bn ssl s)"

lemma bin2bn_zero_pad:
  "bignum_ok ssl \<Longrightarrow> ssl_bin2bn ssl (zero_pad n s) = ssl_bin2bn ssl s"
proof -
  assume "bignum_ok ssl"
  then have "ssl_bin2bn ssl (replicate k (CHR 0x00) @ s) = ssl_bin2bn ssl s" for k
    by (induction k) (simp_all add: bignum_ok_def)
  then show ?thesis by (simp add: zero_pad_def)
qed

lemma length_zero_pad: "length s \<le> n \<Longrightarrow> length (zero_pad n s) = n"
  by (simp add: zero_pad_def)

text \<open>C35:
  The two encodings of an ECDSA signature fit together: the raw form that signing puts in a token
  has exactly the length of the algorithm (an even number of bytes), and verifying turns it back
  into the very pair of numbers that the DER signature held.
\<close>

theorem p1363_roundtrip:
  assumes "bignum_ok ssl" "ssl_sig_new ssl" "even siglen"
    and "ssl_d2i_sig ssl der = Some (r, s)"
    and "der_to_p1363_signature ssl siglen der = Inr (raw, ec)"
  shows "length raw = siglen \<and>
    p1363_to_der_signature ssl raw =
      (if fst (ssl_i2d_sig ssl (r, s)) < 0 then ([], verify_ec Signature_encoding_failed)
       else (snd (ssl_i2d_sig ssl (r, s)), no_ec))"
proof -
  let ?h = "siglen div 2" and ?r = "ssl_bn2bin ssl r" and ?s = "ssl_bn2bin ssl s"
  have raw: "raw = zero_pad ?h ?r @ zero_pad ?h ?s" and le: "length ?r \<le> ?h" "length ?s \<le> ?h"
    using assms(4,5) by (auto simp: der_to_p1363_signature_def bn2raw_def Let_def split: if_splits)
  have "?h + ?h = siglen" using assms(3) by presburger
  then have l: "length raw = siglen" using le by (simp add: raw length_zero_pad)
  have "take (length raw div 2) raw = zero_pad ?h ?r" "drop (length raw div 2) raw = zero_pad ?h ?s"
    unfolding l using le by (simp_all add: raw length_zero_pad)
  moreover have "ssl_bin2bn ssl (zero_pad ?h ?r) = r" "ssl_bin2bn ssl (zero_pad ?h ?s) = s"
    using assms(1) by (simp_all add: bin2bn_zero_pad) (simp_all add: bignum_ok_def)
  ultimately show ?thesis
    using l assms(2) by (auto simp: p1363_to_der_signature_def raw2bn_def Let_def split: prod.splits)
qed

text \<open>
  An ECDSA signature is accepted whenever OpenSSL's final verification returns anything but 0 and
  -1, and whenever the initialisations return anything but 0: OpenSSL documents other negative
  values for failures too, and those let the token through.
\<close>

theorem ecdsa_verify_accepts:
  "\<not> ec_failed (ecdsa_verify ssl pkey md d sig) \<longleftrightarrow>
     (let (der, ec) = p1363_to_der_signature ssl sig
      in \<not> ec_failed ec \<and> ssl_md_ctx ssl \<and> ssl_digest_verify_init ssl (Some md) pkey \<noteq> 0 \<and>
         ssl_digest_update ssl md d \<noteq> 0 \<and> ssl_digest_verify_final ssl md d der pkey \<notin> {0, -1})"
  by (auto simp: ecdsa_verify_def Let_def split: prod.splits)

section \<open>A small OpenSSL\<close>

text \<open>
  An instance for concrete runs: numbers are naturals in base 256, a signature of data under a key
  is their length, a certificate and a key are texts.
\<close>

fun bytes_value :: "string \<Rightarrow> nat \<Rightarrow> nat" where
  "bytes_value [] acc = acc"
| "bytes_value (c # s) acc = bytes_value s (acc * 256 + byte c)"

fun value_bytes :: "nat \<Rightarrow> string" where
  "value_bytes n = (if n = 0 then [] else value_bytes (n div 256) @ [char_of (n mod 256)])"

declare value_bytes.simps [simp del]

definition toy_openssl :: "(string, string, nat) openssl" where
  "toy_openssl =
     \<lparr> ssl_hmac = (\<lambda>md key d. Some (key @ rev d)), ssl_mem_bio = True, ssl_mem_buf = (\<lambda>_. True),
       ssl_bio_write = (\<lambda>s. int (length s)), ssl_read_x509 = (\<lambda>s pw. Some s),
       ssl_x509_pubkey = Some, ssl_write_pubkey = (\<lambda>k. (1, k)), ssl_d2i_x509 = Some,
       ssl_write_x509 = (\<lambda>c. (1, c)), ssl_read_pubkey = (\<lambda>s pw. Some s),
       ssl_read_privkey = (\<lambda>s pw. Some s), ssl_md_ctx = True, ssl_sign_init = (\<lambda>_. 1),
       ssl_sign_update = (\<lambda>_ _. 1), ssl_sign_final = (\<lambda>md d k. (1, k @ d)),
       ssl_verify_init = (\<lambda>_. 1), ssl_verify_update = (\<lambda>_ _. 1),
       ssl_verify_final = (\<lambda>md d s k. if s = k @ d then 1 else 0),
       ssl_digest_sign_init = (\<lambda>_ _. 1), ssl_digest_verify_init = (\<lambda>_ _. 1),
       ssl_digest_update = (\<lambda>_ _. 1), ssl_digest_sign_len = (\<lambda>_ _ _. 1),
       ssl_digest_sign_final = (\<lambda>md d k. (1, k @ d)),
       ssl_digest_verify_final = (\<lambda>md d s k. if s = k @ d then 1 else 0),
       ssl_digest_sign = (\<lambda>d k. (1, k @ d)),
       ssl_digest_verify = (\<lambda>s d k. if s = k @ d then 1 else 0),
       ssl_rsa_padding = 1, ssl_pss_saltlen = 1, ssl_pkey_size = (\<lambda>_. 0),
       ssl_pkey_bits = (\<lambda>_. 256), ssl_pkey_ctx = (\<lambda>_. True), ssl_public_check = (\<lambda>_. 1),
       ssl_private_check = (\<lambda>_. 1), ssl_bn2bin = value_bytes, ssl_bin2bn = (\<lambda>s. bytes_value s 0),
       ssl_d2i_sig = (\<lambda>s. case s of [c, d] \<Rightarrow> Some (byte c, byte d) | _ \<Rightarrow> None),
       ssl_sig_new = True,
       ssl_i2d_sig = (\<lambda>(r, s). (2, [char_of r, char_of s])) \<rparr>"

lemma bytes_value_append: "bytes_value (s @ t) acc = bytes_value t (bytes_value s acc)"
  by (induction s arbitrary: acc) auto

lemma bytes_value_bytes: "bytes_value (value_bytes n) 0 = n"
proof (induction n rule: less_induct)
  case (less n)
  have "byte (char_of n) = n mod 256" by (simp add: byte_def)
  with less show ?case
    by (cases "n = 0") (subst value_bytes.simps, simp add: bytes_value_append)+
qed

lemma toy_bignum_ok: "bignum_ok toy_openssl"
  by (simp add: bignum_ok_def toy_openssl_def bytes_value_bytes byte_def)

lemma p1363_roundtrip_witness:
  "length [CHR 0x00, CHR ''a'', CHR 0x00, CHR ''b''] = 4 \<and>
   p1363_to_der_signature toy_openssl [CHR 0x00, CHR ''a'', CHR 0x00, CHR ''b''] = (''ab'', no_ec)"
proof -
  have "ssl_d2i_sig toy_openssl ''ab'' = Some (97, 98)"
    by (simp add: toy_openssl_def byte_def)
  moreover have v: "value_bytes 97 = ''a''" "value_bytes 98 = ''b''" by code_simp+
  have "der_to_p1363_signature toy_openssl 4 ''ab'' =
      Inr ([CHR 0x00, CHR ''a'', CHR 0x00, CHR ''b''], no_ec)"
    by (simp add: der_to_p1363_signature_def toy_openssl_def byte_def Let_def bn2raw_def v zero_pad_def)
  moreover have "ssl_sig_new toy_openssl" "ssl_i2d_sig toy_openssl (97, 98) = (2, ''ab'')"
    by (simp_all add: toy_openssl_def) code_simp
  ultimately show ?thesis
    using p1363_roundtrip[OF toy_bignum_ok, of 4 "''ab''" 97 98 "[CHR 0x00, CHR ''a'', CHR 0x00, CHR ''b'']" no_ec]
    by simp
qed

end
