(* ===== verification/Jwt_Builder.thy ===== *)
theory Jwt_Builder
  imports Jwt_Claims Jwt_Algorithm Picojson_Roundtrip
begin

text \<open>
  The builder of \<^verbatim>\<open>jwt.h\<close>: it collects header and payload claims and signs them. A token it
  makes is decoded into the same claims.
\<close>

section \<open>Setting claims\<close>

record builder =
  b_header :: claims
  b_payload :: claims

definition create :: builder where
  "create = \<lparr> b_header = [], b_payload = [] \<rparr>"

definition set_header_claim :: "string \<Rightarrow> json \<Rightarrow> builder \<Rightarrow> builder" where
  "set_header_claim key c b = b\<lparr> b_header := smap_put key c (b_header b) \<rparr>"

definition set_payload_claim :: "string \<Rightarrow> json \<Rightarrow> builder \<Rightarrow> builder" where
  "set_payload_claim key c b = b\<lparr> b_payload := smap_put key c (b_payload b) \<rparr>"

definition set_algorithm :: "string \<Rightarrow> builder \<Rightarrow> builder" where
  "set_algorithm str b = set_header_claim ''alg'' (JString str) b"

definition set_type :: "string \<Rightarrow> builder \<Rightarrow> builder" where
  "set_type str b = set_header_claim ''typ'' (JString str) b"

definition set_content_type :: "string \<Rightarrow> builder \<Rightarrow> builder" where
  "set_content_type str b = set_header_claim ''cty'' (JString str) b"

definition set_key_id :: "string \<Rightarrow> builder \<Rightarrow> builder" where
  "set_key_id str b = set_header_claim ''kid'' (JString str) b"

definition set_issuer :: "string \<Rightarrow> builder \<Rightarrow> builder" where
  "set_issuer str b = set_payload_claim ''iss'' (JString str) b"

definition set_subject :: "string \<Rightarrow> builder \<Rightarrow> builder" where
  "set_subject str b = set_payload_claim ''sub'' (JString str) b"

definition set_audience_array :: "json list \<Rightarrow> builder \<Rightarrow> builder" where
  "set_audience_array a b = set_payload_claim ''aud'' (JArray a) b"

definition set_audience :: "string \<Rightarrow> builder \<Rightarrow> builder" where
  "set_audience aud b = set_payload_claim ''aud'' (JString aud) b"

definition set_expires_at :: "date \<Rightarrow> builder \<Rightarrow> builder" where
  "set_expires_at d b = set_payload_claim ''exp'' (claim_of_date d) b"

definition set_not_before :: "date \<Rightarrow> builder \<Rightarrow> builder" where
  "set_not_before d b = set_payload_claim ''nbf'' (claim_of_date d) b"

definition set_issued_at :: "date \<Rightarrow> builder \<Rightarrow> builder" where
  "set_issued_at d b = set_payload_claim ''iat'' (claim_of_date d) b"

definition set_id :: "string \<Rightarrow> builder \<Rightarrow> builder" where
  "set_id str b = set_payload_claim ''jti'' (JString str) b"

section \<open>Signing\<close>

definition header_with_alg :: "string \<Rightarrow> claims \<Rightarrow> claims" where
  "header_with_alg name hdr =
     (if map_of hdr ''alg'' = None then smap_put ''alg'' (JString name) hdr else hdr)"

text \<open>With a code: the text is empty when signing fails.\<close>

definition sign_with_ec :: "algorithm \<Rightarrow> (string \<Rightarrow> string) \<Rightarrow> builder \<Rightarrow> exn + (string \<times> error_code)" where
  "sign_with_ec algo enc b =
     (let obj_header = header_with_alg (alg_name algo) (b_header b);
          header = enc (traits_serialize (JObject obj_header));
          payload = enc (traits_serialize (JObject (b_payload b)));
          tok = header @ ''.'' @ payload
      in sbind (alg_sign algo tok) (\<lambda>(sig, ec).
           if ec_failed ec then Inr ([], ec) else Inr (tok @ ''.'' @ enc sig, ec)))"

definition sign_with :: "algorithm \<Rightarrow> (string \<Rightarrow> string) \<Rightarrow> builder \<Rightarrow> exn + string" where
  "sign_with algo enc b = sbind (sign_with_ec algo enc b) (\<lambda>(res, ec). or_throw ec res)"

definition base64url_encode :: "string \<Rightarrow> string" where
  "base64url_encode s = trim base64url (encode base64url s)"

definition sign_token_ec :: "algorithm \<Rightarrow> builder \<Rightarrow> exn + (string \<times> error_code)" where
  "sign_token_ec algo b = sign_with_ec algo base64url_encode b"

definition sign_token :: "algorithm \<Rightarrow> builder \<Rightarrow> exn + string" where
  "sign_token algo b = sbind (sign_token_ec algo b) (\<lambda>(res, ec). or_throw ec res)"

section \<open>Reading a signed token\<close>

text \<open>Claims that survive printing: a proper map without doubles, arrays at most 100 deep.\<close>

definition claims_ok :: "claims \<Rightarrow> bool" where
  "claims_ok m \<longleftrightarrow> smap_ok m \<and> plain_members m \<and> fits_members 100 m"

lemma base64url_decode_encode [simp]: "base64url_decode (base64url_encode s) = Inr s"
  by (simp add: base64url_decode_def base64url_encode_def trim_encode decode_encode)

lemma base64url_no_dot: "CHR ''.'' \<notin> set (base64url_encode s)"
proof -
  have "CHR ''.'' \<notin> set (al_data base64url)" by (simp add: base64url_def letters_def)
  then show ?thesis using trim_encode(1)[of base64url s] by (auto simp: base64url_encode_def)
qed

lemma parse_claims_serialize:
  assumes "claims_ok m"
  shows "parse_claims (traits_serialize (JObject m)) = Inr m"
proof -
  have "parse (serialize_at None (JObject m) @ []) = Inr (Inr (JObject m))"
    using assms by (intro parse_reads reads_all(1)) (simp_all add: claims_ok_def is_int64_def)
  then show ?thesis
    by (simp add: parse_claims_def traits_parse_def traits_serialize_def serialize_def)
qed

interpretation segment: layered_codec "\<lambda>m. traits_serialize (JObject m)" parse_claims claims_ok
    base64url_encode base64url_decode "\<lambda>s. True"
  by unfold_locales (simp_all add: parse_claims_serialize)

lemma members_put:
  "plain_members m \<Longrightarrow> plain v \<Longrightarrow> plain_members (smap_put k v m)"
  "fits_members d m \<Longrightarrow> fits d v \<Longrightarrow> fits_members d (smap_put k v m)"
  by (induction m) auto

lemma claims_ok_put: "claims_ok m \<Longrightarrow> plain v \<Longrightarrow> fits 100 v \<Longrightarrow> claims_ok (smap_put k v m)"
  by (simp add: claims_ok_def smap_ok_put members_put)

lemma claims_ok_header: "claims_ok m \<Longrightarrow> claims_ok (header_with_alg name m)"
  by (simp add: header_with_alg_def claims_ok_put)

lemma decode_signed:
  assumes "claims_ok (b_header b)" "claims_ok (b_payload b)"
    and s: "sign_token_ec algo b = Inr (tok, ec)" "\<not> ec_failed ec"
  obtains jwt where "decode_jwt tok = Inr jwt" "payload_claims jwt = b_payload b"
    "header_claims jwt = header_with_alg (alg_name algo) (b_header b)"
    "alg_sign algo (header_base64 jwt @ ''.'' @ payload_base64 jwt) = Inr (jwt_signature jwt, ec)"
proof -
  let ?h = "traits_serialize (JObject (header_with_alg (alg_name algo) (b_header b)))"
  let ?p = "traits_serialize (JObject (b_payload b))"
  from s obtain sig where sig: "alg_sign algo (base64url_encode ?h @ ''.'' @ base64url_encode ?p) = Inr (sig, ec)"
    and tok: "tok = base64url_encode ?h @ CHR ''.'' # base64url_encode ?p @ CHR ''.'' # base64url_encode sig"
    by (auto simp: sign_token_ec_def sign_with_ec_def Let_def sbind_Inr_iff split: prod.splits if_splits)
  have "decode_jwt tok = Inr
       \<lparr> header_claims = header_with_alg (alg_name algo) (b_header b), payload_claims = b_payload b,
         jwt_token = tok, header_text = ?h, header_base64 = base64url_encode ?h,
         payload_text = ?p, payload_base64 = base64url_encode ?p,
         jwt_signature = sig, signature_base64 = base64url_encode sig \<rparr>"
    unfolding decode_jwt_def tok
    by (rule decode_jwt_with_parts)
      (simp_all add: base64url_no_dot segment.inner.dec_enc claims_ok_header assms)
  then show thesis by (rule that) (use sig in simp_all)
qed

text \<open>
  A token made by the builder decodes to what was put in: the payload claims, the header claims
  with the name of the algorithm added if it was not set, and a signature that the algorithm made
  for exactly the two base64url parts that stand in the token.
\<close>

theorem decode_sign_token:
  assumes "claims_ok (b_header b)" "claims_ok (b_payload b)" "sign_token algo b = Inr tok"
    and "\<forall>d s ec. alg_sign algo d = Inr (s, ec) \<longrightarrow> ec_category ec = System_category \<longrightarrow> ec_value ec = 0"
  shows "\<exists>j ec. decode_jwt tok = Inr j \<and> payload_claims j = b_payload b \<and>
    header_claims j = header_with_alg (alg_name algo) (b_header b) \<and>
    alg_sign algo (header_base64 j @ ''.'' @ payload_base64 j) = Inr (jwt_signature j, ec) \<and> \<not> ec_failed ec"
proof -
  from assms(3) obtain ec where s: "sign_token_ec algo b = Inr (tok, ec)" "throw_if_error ec = None"
    by (auto simp: sign_token_def sbind_Inr_iff or_throw_Inr)
  have "\<not> ec_failed ec"
  proof (cases "ec_category ec")
    case System_category
    from s(1) obtain d sig ec' where "alg_sign algo d = Inr (sig, ec')" "ec = ec'"
      by (auto simp: sign_token_ec_def sign_with_ec_def Let_def sbind_Inr_iff split: prod.splits if_splits)
    with System_category assms(4) show ?thesis by (auto simp: ec_failed_def)
  qed (use s(2) in \<open>auto simp: throw_if_error_def split: if_splits\<close>)
  from decode_signed[OF assms(1,2) s(1) this] this show ?thesis by metis
qed

lemma decode_sign_token_witness:
  "\<exists>j ec. decode_jwt ''eyJhbGciOiJub25lIn0.eyJzdWIiOiJ1MSJ9.'' = Inr j \<and>
     payload_claims j = [(''sub'', JString ''u1'')] \<and> header_claims j = [(''alg'', JString ''none'')] \<and>
     none_sign (header_base64 j @ ''.'' @ payload_base64 j) = Inr (jwt_signature j, ec) \<and> \<not> ec_failed ec"
proof -
  let ?b = "set_subject ''u1'' create"
  have "sign_token none_alg ?b = Inr ''eyJhbGciOiJub25lIn0.eyJzdWIiOiJ1MSJ9.''" by code_simp
  moreover have "claims_ok (b_header ?b)" "claims_ok (b_payload ?b)"
    by (simp_all add: claims_ok_def create_def set_subject_def set_payload_claim_def)
  moreover have "\<forall>d s ec. alg_sign none_alg d = Inr (s, ec) \<longrightarrow> ec_category ec = System_category \<longrightarrow> ec_value ec = 0"
    by (auto simp: none_alg_def none_sign_def no_ec_def)
  ultimately show ?thesis
    using decode_sign_token[of ?b none_alg]
    by (simp add: none_alg_def create_def set_subject_def set_payload_claim_def header_with_alg_def)
qed

text \<open>A double without a fraction and an integer are printed alike, so claims with doubles are not told apart.\<close>

lemma double_signed_as_integer:
  "traits_serialize (JObject [(''n'', JNumber (Finite False 4503599627370496 (- 52)))]) = traits_serialize (JObject [(''n'', JInt 1)])"
  by (simp add: traits_serialize_def serialize_def format_double_def int_to_string_def fraction_def)

text \<open>C23: what is signed determines the claims, among claims without doubles whose arrays nest at most 100
  deep (\<open>claims_ok\<close>): two different pairs of such a header and payload never give the same signed text, so a
  signature made for one of them cannot be presented with the other. With a double in place of an integer
  they can.\<close>

theorem signed_text_unambiguous:
  assumes "claims_ok h" "claims_ok p" "claims_ok h'" "claims_ok p'"
    and "base64url_encode (traits_serialize (JObject h)) @ ''.'' @ base64url_encode (traits_serialize (JObject p)) =
      base64url_encode (traits_serialize (JObject h')) @ ''.'' @ base64url_encode (traits_serialize (JObject p'))"
  shows "h = h' \<and> p = p'"
proof -
  have cut: "takeWhile (\<lambda>c. c \<noteq> CHR ''.'') (base64url_encode s @ ''.'' @ t) = base64url_encode s" for s t
    using base64url_no_dot[of s] by (subst takeWhile_append2) auto
  from assms(5) have "base64url_encode (traits_serialize (JObject h)) = base64url_encode (traits_serialize (JObject h'))"
    by (metis cut)
  with assms show ?thesis using segment.both.enc_eq by auto
qed

lemma signed_text_unambiguous_witness:
  "header_with_alg ''none'' [] = [(''alg'', JString ''none'')] \<and>
   b_payload (set_subject ''u1'' create) = [(''sub'', JString ''u1'')]"
  by (rule signed_text_unambiguous)
    (simp_all add: claims_ok_def header_with_alg_def create_def set_subject_def set_payload_claim_def)

end
