(* ===== verification/Jwt_Verifier.thy ===== *)
theory Jwt_Verifier
  imports Jwt_Builder "HOL-Library.Multiset"
begin

text \<open>
  The verifier of \<^verbatim>\<open>jwt.h\<close>: a table of checks per claim and a table of allowed algorithms. Both
  are unordered maps; the order in which \<^verbatim>\<open>verify\<close> visits the checks is not specified, so it is
  an argument, and whether a token is accepted does not depend on it.
\<close>

section \<open>The context of a check\<close>

record verify_context =
  vc_time :: date
  vc_jwt :: decoded_jwt
  vc_leeway :: "64 word"
  vc_key :: string

text \<open>A check throws or gives a code; the code is clear when the check is called.\<close>

type_synonym check = "verify_context \<Rightarrow> exn + error_code"

text \<open>The claim of the context, or the code for a missing one.\<close>

definition ctx_get_claim :: "bool \<Rightarrow> verify_context \<Rightarrow> exn + (error_code + claim)" where
  "ctx_get_claim in_header ctx =
     (if in_header then
        (if \<not> has_header_claim (vc_jwt ctx) (vc_key ctx) then Inr (Inl (token_ec Missing_claim))
         else sbind (get_header_claim (vc_jwt ctx) (vc_key ctx)) (\<lambda>c. Inr (Inr c)))
      else
        (if \<not> has_payload_claim (vc_jwt ctx) (vc_key ctx) then Inr (Inl (token_ec Missing_claim))
         else sbind (get_payload_claim (vc_jwt ctx) (vc_key ctx)) (\<lambda>c. Inr (Inr c))))"

definition ctx_get_typed :: "bool \<Rightarrow> json_type \<Rightarrow> verify_context \<Rightarrow> exn + (error_code + claim)" where
  "ctx_get_typed in_header t ctx =
     sbind (ctx_get_claim in_header ctx) (\<lambda>r.
       case r of
         Inl ec \<Rightarrow> Inr (Inl ec)
       | Inr c \<Rightarrow> sbind (get_type c) (\<lambda>ct.
           if ct \<noteq> t then Inr (Inl (token_ec Claim_type_missmatch)) else Inr (Inr c)))"

text \<open>Go on with the claim, or report the code.\<close>

definition with_ctx_claim :: "exn + (error_code + claim) \<Rightarrow> (claim \<Rightarrow> exn + error_code) \<Rightarrow> exn + error_code" where
  "with_ctx_claim r f = sbind r (\<lambda>x. case x of Inl ec \<Rightarrow> Inr ec | Inr c \<Rightarrow> f c)"

section \<open>Operations\<close>

definition claim_matches :: "json_type \<Rightarrow> claim \<Rightarrow> claim \<Rightarrow> exn + bool" where
  "claim_matches t expected jc =
     (case t of
        Boolean \<Rightarrow> sbind (as_bool expected) (\<lambda>a. sbind (as_bool jc) (\<lambda>b. Inr (a = b)))
      | Integer \<Rightarrow> sbind (as_int expected) (\<lambda>a. sbind (as_int jc) (\<lambda>b. Inr (a = b)))
      | Number \<Rightarrow> sbind (as_number expected) (\<lambda>a. sbind (as_number jc) (\<lambda>b. Inr (double_eq a b)))
      | String \<Rightarrow> sbind (as_string expected) (\<lambda>a. sbind (as_string jc) (\<lambda>b. Inr (a = b)))
      | Array \<Rightarrow> Inr (traits_serialize expected = traits_serialize jc)
      | Object \<Rightarrow> Inr (traits_serialize expected = traits_serialize jc))"

definition equals_claim :: "bool \<Rightarrow> claim \<Rightarrow> check" where
  "equals_claim in_header expected ctx =
     sbind (get_type expected) (\<lambda>t.
     with_ctx_claim (ctx_get_typed in_header t ctx) (\<lambda>jc.
     sbind (claim_matches t expected jc) (\<lambda>matches.
       Inr (if \<not> matches then token_ec Claim_value_missmatch else no_ec))))"

definition seconds :: "64 word \<Rightarrow> 64 word" where
  "seconds n = n * nanos"

definition date_before_claim :: "bool \<Rightarrow> 64 word \<Rightarrow> check" where
  "date_before_claim in_header leeway ctx =
     with_ctx_claim (ctx_get_typed in_header Integer ctx) (\<lambda>jc.
     sbind (as_date jc) (\<lambda>c.
       Inr (if c + seconds leeway <s vc_time ctx then token_ec Token_expired else no_ec)))"

definition date_after_claim :: "bool \<Rightarrow> 64 word \<Rightarrow> check" where
  "date_after_claim in_header leeway ctx =
     with_ctx_claim (ctx_get_typed in_header Integer ctx) (\<lambda>jc.
     sbind (as_date jc) (\<lambda>c.
       Inr (if vc_time ctx <s c - seconds leeway then token_ec Token_expired else no_ec)))"

definition is_subset_claim :: "bool \<Rightarrow> string list \<Rightarrow> check" where
  "is_subset_claim in_header expected ctx =
     with_ctx_claim (ctx_get_claim in_header ctx) (\<lambda>c.
     sbind (get_type c) (\<lambda>t.
       if t = String then
         sbind (as_string c) (\<lambda>s.
           Inr (if length expected \<noteq> 1 \<or> hd expected \<noteq> s then token_ec Audience_missmatch else no_ec))
       else if t = Array then
         sbind (as_set c) (\<lambda>jc.
           Inr (if \<not> list_all (\<lambda>e. e \<in> set jc) expected then token_ec Audience_missmatch else no_ec))
       else Inr (token_ec Claim_type_missmatch)))"

text \<open>The locale's conversion to lower case, which throws on malformed UTF-8, is an argument.\<close>

definition insensitive_string_claim :: "(string \<Rightarrow> exn + string) \<Rightarrow> bool \<Rightarrow> string \<Rightarrow> check" where
  "insensitive_string_claim to_lower_unicode in_header expected ctx =
     with_ctx_claim (ctx_get_typed in_header String ctx) (\<lambda>c.
     sbind (as_string c) (\<lambda>s.
     sbind (to_lower_unicode s) (\<lambda>l.
       Inr (if l \<noteq> expected then token_ec Claim_value_missmatch else no_ec))))"

section \<open>The verifier\<close>

record verifier =
  v_claims :: "(string, check) umap"
  v_leeway :: "64 word"
  v_algs :: "(string, algorithm) umap"

text \<open>The checks every verifier starts with: the three dates, each only if present.\<close>

definition default_exp :: check where
  "default_exp ctx =
     (if \<not> has_expires_at (vc_jwt ctx) then Inr no_ec
      else sbind (get_expires_at (vc_jwt ctx)) (\<lambda>exp.
        Inr (if exp + seconds (vc_leeway ctx) <s vc_time ctx then token_ec Token_expired else no_ec)))"

definition default_iat :: check where
  "default_iat ctx =
     (if \<not> has_issued_at (vc_jwt ctx) then Inr no_ec
      else sbind (get_issued_at (vc_jwt ctx)) (\<lambda>iat.
        Inr (if vc_time ctx <s iat - seconds (vc_leeway ctx) then token_ec Token_expired else no_ec)))"

definition default_nbf :: check where
  "default_nbf ctx =
     (if \<not> has_not_before (vc_jwt ctx) then Inr no_ec
      else sbind (get_not_before (vc_jwt ctx)) (\<lambda>nbf.
        Inr (if vc_time ctx <s nbf - seconds (vc_leeway ctx) then token_ec Token_expired else no_ec)))"

definition new_verifier :: verifier where
  "new_verifier =
     \<lparr> v_claims = AList.update ''nbf'' default_nbf (AList.update ''iat'' default_iat
         (AList.update ''exp'' default_exp [])),
       v_leeway = 0, v_algs = [] \<rparr>"

definition set_claim_check :: "string \<Rightarrow> check \<Rightarrow> verifier \<Rightarrow> verifier" where
  "set_claim_check name fn v = v\<lparr> v_claims := AList.update name fn (v_claims v) \<rparr>"

definition leeway :: "64 word \<Rightarrow> verifier \<Rightarrow> verifier" where
  "leeway n v = v\<lparr> v_leeway := n \<rparr>"

definition expires_at_leeway :: "64 word \<Rightarrow> verifier \<Rightarrow> verifier" where
  "expires_at_leeway n v = set_claim_check ''exp'' (date_before_claim False n) v"

definition not_before_leeway :: "64 word \<Rightarrow> verifier \<Rightarrow> verifier" where
  "not_before_leeway n v = set_claim_check ''nbf'' (date_after_claim False n) v"

definition issued_at_leeway :: "64 word \<Rightarrow> verifier \<Rightarrow> verifier" where
  "issued_at_leeway n v = set_claim_check ''iat'' (date_after_claim False n) v"

definition with_claim_check :: "string \<Rightarrow> check \<Rightarrow> verifier \<Rightarrow> verifier" where
  "with_claim_check name fn v = set_claim_check name fn v"

definition with_claim :: "string \<Rightarrow> claim \<Rightarrow> verifier \<Rightarrow> verifier" where
  "with_claim name c v = with_claim_check name (equals_claim False c) v"

text \<open>The expected type is converted to lower case when the check is made.\<close>

definition with_type :: "(string \<Rightarrow> exn + string) \<Rightarrow> string \<Rightarrow> verifier \<Rightarrow> exn + verifier" where
  "with_type to_lower_unicode typ v =
     sbind (to_lower_unicode typ) (\<lambda>e.
       Inr (with_claim_check ''typ'' (insensitive_string_claim to_lower_unicode True e) v))"

definition with_issuer :: "string \<Rightarrow> verifier \<Rightarrow> verifier" where
  "with_issuer iss v = with_claim ''iss'' (claim_of_string iss) v"

definition with_subject :: "string \<Rightarrow> verifier \<Rightarrow> verifier" where
  "with_subject sub v = with_claim ''sub'' (claim_of_string sub) v"

definition with_audience_set :: "string list \<Rightarrow> verifier \<Rightarrow> verifier" where
  "with_audience_set aud v = set_claim_check ''aud'' (is_subset_claim False aud) v"

definition with_audience :: "string \<Rightarrow> verifier \<Rightarrow> verifier" where
  "with_audience aud v = with_audience_set (sset_insert aud []) v"

definition with_id :: "string \<Rightarrow> verifier \<Rightarrow> verifier" where
  "with_id jti v = with_claim ''jti'' (claim_of_string jti) v"

definition allow_algorithm :: "algorithm \<Rightarrow> verifier \<Rightarrow> verifier" where
  "allow_algorithm alg v = v\<lparr> v_algs := AList.update (alg_name alg) alg (v_algs v) \<rparr>"

text \<open>The checks in the order of the list, up to the first that does not pass.\<close>

fun run_checks :: "(string \<times> check) list \<Rightarrow> verify_context \<Rightarrow> exn + error_code" where
  "run_checks [] ctx = Inr no_ec"
| "run_checks ((key, fn) # cs) ctx =
     sbind (fn (ctx\<lparr> vc_key := key \<rparr>)) (\<lambda>ec. if ec_failed ec then Inr ec else run_checks cs ctx)"

type_synonym visit_order = "(string, check) umap \<Rightarrow> (string \<times> check) list"

definition verify_jwt_ec :: "visit_order \<Rightarrow> verifier \<Rightarrow> date \<Rightarrow> decoded_jwt \<Rightarrow> exn + error_code" where
  "verify_jwt_ec visit v now jwt =
     (let signed = header_base64 jwt @ ''.'' @ payload_base64 jwt; sig = jwt_signature jwt
      in sbind (get_algorithm jwt) (\<lambda>algo.
           case map_of (v_algs v) algo of
             None \<Rightarrow> Inr (token_ec Wrong_algorithm)
           | Some a \<Rightarrow>
               (let ec = alg_verify a signed sig
                in if ec_failed ec then Inr ec
                   else run_checks (visit (v_claims v))
                     \<lparr> vc_time = now, vc_jwt = jwt, vc_leeway = v_leeway v, vc_key = [] \<rparr>)))"

definition verify_jwt :: "visit_order \<Rightarrow> verifier \<Rightarrow> date \<Rightarrow> decoded_jwt \<Rightarrow> exn option" where
  "verify_jwt visit v now jwt =
     (case verify_jwt_ec visit v now jwt of Inl e \<Rightarrow> Some e | Inr ec \<Rightarrow> throw_if_error ec)"

section \<open>When a token is accepted\<close>

definition passes :: "exn + error_code \<Rightarrow> bool" where
  "passes r \<longleftrightarrow> (case r of Inl e \<Rightarrow> False | Inr ec \<Rightarrow> \<not> ec_failed ec)"

lemma passes_simps [simp]: "passes (Inl e) = False" "passes (Inr ec) = (\<not> ec_failed ec)"
  by (simp_all add: passes_def)

lemma passes_sbind: "passes (sbind r f) \<longleftrightarrow> (\<exists>x. r = Inr x \<and> passes (f x))"
  by (cases r) auto

lemma run_checks_passes:
  "passes (run_checks cs ctx) \<longleftrightarrow> (\<forall>(key, fn) \<in> set cs. passes (fn (ctx\<lparr> vc_key := key \<rparr>)))"
proof (induction cs)
  case (Cons c cs)
  then show ?case
    by (cases c; cases "snd c (ctx\<lparr> vc_key := fst c \<rparr>)") auto
qed simp

lemma verify_jwt_ec_passes:
  "passes (verify_jwt_ec visit v now jwt) \<longleftrightarrow>
     (\<exists>algo a. get_algorithm jwt = Inr algo \<and> map_of (v_algs v) algo = Some a \<and>
        \<not> ec_failed (alg_verify a (header_base64 jwt @ ''.'' @ payload_base64 jwt) (jwt_signature jwt)) \<and>
        (\<forall>(key, fn) \<in> set (visit (v_claims v)).
           passes (fn \<lparr> vc_time = now, vc_jwt = jwt, vc_leeway = v_leeway v, vc_key = key \<rparr>)))"
  by (auto simp: verify_jwt_ec_def passes_sbind Let_def run_checks_passes split: option.splits)

text \<open>An iteration order: some permutation of the entries.\<close>

definition visits_all :: "visit_order \<Rightarrow> bool" where
  "visits_all visit \<longleftrightarrow> (\<forall>m. mset (visit m) = mset m)"

lemma visits_all_id [simp]: "visits_all (\<lambda>m. m)"
  by (simp add: visits_all_def)

lemma visits_all_rev [simp]: "visits_all rev"
  by (simp add: visits_all_def)

lemma set_visit: "visits_all visit \<Longrightarrow> set (visit m) = set m"
  unfolding visits_all_def by (metis mset_eq_setD)

text \<open>C24:
  Whatever order the table of checks is visited in, a token passes the verifier exactly when its
  algorithm is one of the allowed ones, that algorithm accepts the signature of the two encoded
  parts, and every check in the table passes; a check that throws is a failure.
\<close>

theorem verify_order_irrelevant:
  assumes "visits_all visit"
  shows "passes (verify_jwt_ec visit v now jwt) \<longleftrightarrow>
     (\<exists>algo a. get_algorithm jwt = Inr algo \<and> map_of (v_algs v) algo = Some a \<and>
        \<not> ec_failed (alg_verify a (header_base64 jwt @ ''.'' @ payload_base64 jwt) (jwt_signature jwt)) \<and>
        (\<forall>(key, fn) \<in> set (v_claims v).
           passes (fn \<lparr> vc_time = now, vc_jwt = jwt, vc_leeway = v_leeway v, vc_key = key \<rparr>)))"
  using set_visit[OF assms] verify_jwt_ec_passes by simp

lemma verify_order_irrelevant_witness:
  "\<not> passes (verify_jwt_ec rev (with_issuer ''me'' (allow_algorithm none_alg new_verifier)) 0
     \<lparr> header_claims = [(''alg'', JString ''none'')], payload_claims = [], jwt_token = [], header_text = [],
       header_base64 = [], payload_text = [], payload_base64 = [], jwt_signature = [], signature_base64 = [] \<rparr>)"
  (is "\<not> passes (verify_jwt_ec rev ?v 0 ?j)")
proof -
  have "(''iss'', equals_claim False (JString ''me'')) \<in> set (v_claims ?v)"
    by (simp add: with_issuer_def with_claim_def with_claim_check_def set_claim_check_def
        claim_of_string_def allow_algorithm_def new_verifier_def)
  moreover have "\<not> passes (equals_claim False (JString ''me'')
      \<lparr> vc_time = 0, vc_jwt = ?j, vc_leeway = v_leeway ?v, vc_key = ''iss'' \<rparr>)"
    by (simp add: equals_claim_def with_ctx_claim_def ctx_get_typed_def ctx_get_claim_def
        has_payload_claim_def has_claim_def)
  ultimately show ?thesis
    using verify_order_irrelevant[OF visits_all_rev, of ?v 0 ?j] by fastforce
qed

section \<open>The dates\<close>

text \<open>A date claim is absent, or an integer whose date is acceptable.\<close>

definition date_claim_ok :: "decoded_jwt \<Rightarrow> string \<Rightarrow> (date \<Rightarrow> bool) \<Rightarrow> bool" where
  "date_claim_ok j name P \<longleftrightarrow>
     (case map_of (payload_claims j) name of
        None \<Rightarrow> True
      | Some (JInt t) \<Rightarrow> P (from_time_t t)
      | Some _ \<Rightarrow> False)"

definition dates_ok :: "64 word \<Rightarrow> date \<Rightarrow> decoded_jwt \<Rightarrow> bool" where
  "dates_ok n now j \<longleftrightarrow>
     date_claim_ok j ''exp'' (\<lambda>d. \<not> d + seconds n <s now) \<and>
     date_claim_ok j ''iat'' (\<lambda>d. \<not> now <s d - seconds n) \<and>
     date_claim_ok j ''nbf'' (\<lambda>d. \<not> now <s d - seconds n)"

lemma passes_date:
  "passes (if \<not> has_payload_claim j name then Inr no_ec
     else sbind (sbind (get_payload_claim j name) as_date)
       (\<lambda>d. Inr (if Q d then token_ec Token_expired else no_ec))) \<longleftrightarrow>
   date_claim_ok j name (\<lambda>d. \<not> Q d)"
proof (cases "map_of (payload_claims j) name")
  case (Some c)
  then show ?thesis
    by (cases c) (auto simp: has_payload_claim_def get_payload_claim_def has_claim_def get_claim_def
        date_claim_ok_def as_date_def as_int_def is_int64_def)
qed (auto simp: has_payload_claim_def has_claim_def date_claim_ok_def)

lemma default_checks_pass:
  "passes (default_exp ctx) \<longleftrightarrow>
     date_claim_ok (vc_jwt ctx) ''exp'' (\<lambda>d. \<not> d + seconds (vc_leeway ctx) <s vc_time ctx)"
  "passes (default_iat ctx) \<longleftrightarrow>
     date_claim_ok (vc_jwt ctx) ''iat'' (\<lambda>d. \<not> vc_time ctx <s d - seconds (vc_leeway ctx))"
  "passes (default_nbf ctx) \<longleftrightarrow>
     date_claim_ok (vc_jwt ctx) ''nbf'' (\<lambda>d. \<not> vc_time ctx <s d - seconds (vc_leeway ctx))"
  unfolding default_exp_def default_iat_def default_nbf_def has_expires_at_def has_issued_at_def
    has_not_before_def get_expires_at_def get_issued_at_def get_not_before_def passes_date by (rule refl)+

text \<open>A verifier with the default checks, a leeway and one algorithm.\<close>

definition simple_verifier :: "64 word \<Rightarrow> algorithm \<Rightarrow> verifier" where
  "simple_verifier n alg = leeway n (allow_algorithm alg new_verifier)"

lemma simple_verifier_passes:
  assumes "visits_all visit"
  shows "passes (verify_jwt_ec visit (simple_verifier n alg) now jwt) \<longleftrightarrow>
     map_of (header_claims jwt) ''alg'' = Some (JString (alg_name alg)) \<and>
     \<not> ec_failed (alg_verify alg (header_base64 jwt @ ''.'' @ payload_base64 jwt) (jwt_signature jwt)) \<and>
     dates_ok n now jwt"
proof -
  have a: "get_algorithm jwt = Inr x \<longleftrightarrow> map_of (header_claims jwt) ''alg'' = Some (JString x)" for x
    by (auto simp: get_algorithm_def get_header_claim_def get_claim_def sbind_Inr_iff split: option.splits)
  have "v_claims (simple_verifier n alg) = v_claims new_verifier" "v_leeway (simple_verifier n alg) = n"
    "v_algs (simple_verifier n alg) = [(alg_name alg, alg)]"
    by (simp_all add: simple_verifier_def leeway_def allow_algorithm_def new_verifier_def)
  moreover have "set (visit (v_claims new_verifier)) =
      {(''exp'', default_exp), (''iat'', default_iat), (''nbf'', default_nbf)}"
    using set_visit[OF assms] by (auto simp: new_verifier_def)
  ultimately show ?thesis
    unfolding verify_jwt_ec_passes dates_ok_def
    by (auto simp: a default_checks_pass)
qed

text \<open>
  What the default verifier accepts: the header names the one allowed algorithm, the signature is
  good, and each of \<^verbatim>\<open>exp\<close>, \<^verbatim>\<open>iat\<close> and \<^verbatim>\<open>nbf\<close> is absent or an integer date that, with the leeway, is
  not over (\<^verbatim>\<open>exp\<close>) or not still to come (\<^verbatim>\<open>iat\<close>, \<^verbatim>\<open>nbf\<close>). A date of another JSON type is refused.
\<close>

theorem default_verifier_accepts:
  assumes "visits_all visit"
  shows "passes (verify_jwt_ec visit (leeway n (allow_algorithm alg new_verifier)) now jwt) \<longleftrightarrow>
     map_of (header_claims jwt) ''alg'' = Some (JString (alg_name alg)) \<and>
     \<not> ec_failed (alg_verify alg (header_base64 jwt @ ''.'' @ payload_base64 jwt) (jwt_signature jwt)) \<and>
     dates_ok n now jwt"
  unfolding simple_verifier_def[symmetric] using assms by (rule simple_verifier_passes)

lemma default_verifier_accepts_witness:
  "passes (verify_jwt_ec rev (leeway 0 (allow_algorithm none_alg new_verifier)) 0
     \<lparr> header_claims = [(''alg'', JString ''none'')], payload_claims = [(''exp'', JInt 1)], jwt_token = [],
       header_text = [], header_base64 = [], payload_text = [], payload_base64 = [], jwt_signature = [],
       signature_base64 = [] \<rparr>)"
  by (subst default_verifier_accepts[OF visits_all_rev])
    (simp add: none_alg_def none_verify_def dates_ok_def date_claim_ok_def, code_simp)

subsection \<open>Dates beyond 64 bits of nanoseconds\<close>

text \<open>The value a signed 64 bit count takes for an integer.\<close>

definition wrapped :: "int \<Rightarrow> int" where
  "wrapped x = (x + 2 ^ 63) mod 2 ^ 64 - 2 ^ 63"

lemma wrapped_in_range: "- (2 ^ 63) \<le> x \<Longrightarrow> x < 2 ^ 63 \<Longrightarrow> wrapped x = x"
  by (simp add: wrapped_def)

lemma wrapped_above: "2 ^ 63 \<le> x \<Longrightarrow> x < 2 ^ 64 + 2 ^ 63 \<Longrightarrow> wrapped x = x - 2 ^ 64"
proof -
  assume "2 ^ 63 \<le> x" "x < 2 ^ 64 + 2 ^ 63"
  then have "(x + 2 ^ 63 - 2 ^ 64) mod 2 ^ 64 = x + 2 ^ 63 - 2 ^ 64" by (intro mod_pos_pos_trivial) simp_all
  then have "(x + 2 ^ 63) mod 2 ^ 64 = x + 2 ^ 63 - 2 ^ 64" by (simp only: minus_mod_self2)
  then show ?thesis by (simp add: wrapped_def)
qed

lemma sint_word_of_int: "sint (word_of_int x :: 64 word) = wrapped x"
  using signed_take_bit_eq_take_bit_shift[of 63 x]
  by (simp add: wrapped_def take_bit_eq_mod sint_sbintrunc')

lemma sint_expiry: "sint (from_time_t t + seconds n) = wrapped ((sint t + sint n) * 1000000000)"
proof -
  have "from_time_t t + seconds n = word_of_int ((sint t + sint n) * 1000000000)"
    by (simp add: from_time_t_def seconds_def nanos_def distrib_right)
  then show ?thesis by (simp only: sint_word_of_int)
qed

text \<open>The expiry check at a time with a leeway.\<close>

abbreviation checked_at :: "date \<Rightarrow> 64 word \<Rightarrow> decoded_jwt \<Rightarrow> exn + error_code" where
  "checked_at now n jwt \<equiv> default_exp \<lparr> vc_time = now, vc_jwt = jwt, vc_leeway = n, vc_key = ''exp'' \<rparr>"

text \<open>C36:
  The expiry check compares nanoseconds modulo 2 to the 64: an expiry of t seconds with a leeway of n is
  compared as the wrapped count. While t + n is within 9223372036 seconds (the year 2262) of 1970 that is the
  comparison meant; from there up to 18446744073 seconds the token is refused as expired at every time
  after 1970; and beyond that the wrapped count decides, whatever year was meant.
\<close>

theorem expiry_wraps:
  assumes "map_of (payload_claims jwt) ''exp'' = Some (JInt t)"
  shows "checked_at now n jwt = Inr (if wrapped ((sint t + sint n) * 1000000000) < sint now then token_ec Token_expired else no_ec) \<and>
    (\<bar>sint t + sint n\<bar> \<le> 9223372036 \<longrightarrow>
       (checked_at now n jwt = Inr (token_ec Token_expired) \<longleftrightarrow> (sint t + sint n) * 1000000000 < sint now)) \<and>
    (9223372036 < sint t + sint n \<and> sint t + sint n \<le> 18446744073 \<and> 0 \<le> sint now \<longrightarrow>
       checked_at now n jwt = Inr (token_ec Token_expired))"
proof -
  have c: "checked_at now n jwt = Inr (if wrapped ((sint t + sint n) * 1000000000) < sint now then token_ec Token_expired else no_ec)"
    using assms(1) by (simp add: default_exp_def has_expires_at_def has_payload_claim_def has_claim_def
        get_expires_at_def get_payload_claim_def get_claim_def as_date_def word_sless_alt sint_expiry)
  have "wrapped ((sint t + sint n) * 1000000000) = (sint t + sint n) * 1000000000" if "\<bar>sint t + sint n\<bar> \<le> 9223372036"
    using that by (intro wrapped_in_range) simp_all
  moreover have "wrapped ((sint t + sint n) * 1000000000) < 0"
    if "9223372036 < sint t + sint n" "sint t + sint n \<le> 18446744073"
    using that by (subst wrapped_above) simp_all
  moreover have "token_ec Token_expired \<noteq> no_ec" by (simp add: token_ec_def no_ec_def)
  ultimately show ?thesis unfolding c by auto
qed

text \<open>A token that expires in 2286 is refused in 1970, and one that expires in 2617 is accepted in 2033 and
  refused in 2043.\<close>

definition token_until :: "64 word \<Rightarrow> decoded_jwt" where
  "token_until t =
     \<lparr> header_claims = [], payload_claims = [(''exp'', JInt t)], jwt_token = [], header_text = [],
       header_base64 = [], payload_text = [], payload_base64 = [], jwt_signature = [], signature_base64 = [] \<rparr>"

lemma expiry_wraps_witness:
  "checked_at 0 0 (token_until 9999999999) = Inr (token_ec Token_expired) \<and>
   checked_at 2000000000000000000 0 (token_until 20446744074) = Inr no_ec \<and>
   checked_at 2305843009213693952 0 (token_until 20446744074) = Inr (token_ec Token_expired)"
proof -
  have "map_of (payload_claims (token_until t)) ''exp'' = Some (JInt t)" for t by (simp add: token_until_def)
  note at = expiry_wraps[OF this, THEN conjunct1]
  show ?thesis by (simp add: at wrapped_def)
qed

section \<open>Signing and verifying\<close>

context signature_scheme
begin

text \<open>A token signed by a scheme is accepted by a verifier that allows it, while its dates are good.\<close>

lemma signed_token_accepted:
  assumes alg: "alg_sign alg = sign" "alg_verify alg = verify"
    and b: "claims_ok (b_header b)" "claims_ok (b_payload b)" "map_of (b_header b) ''alg'' = None"
    and tok: "sign_token_ec alg b = Inr (tok, ec)" "\<not> ec_failed ec"
    and v: "visits_all visit"
  shows "\<exists>jwt. decode_jwt tok = Inr jwt \<and> payload_claims jwt = b_payload b \<and>
    (passes (verify_jwt_ec visit (simple_verifier n alg) now jwt) \<longleftrightarrow> dates_ok n now jwt)"
proof -
  from decode_signed[OF b(1,2) tok] obtain jwt where
    j: "decode_jwt tok = Inr jwt" "payload_claims jwt = b_payload b"
      "header_claims jwt = header_with_alg (alg_name alg) (b_header b)" and
    s: "sign (header_base64 jwt @ ''.'' @ payload_base64 jwt) = Inr (jwt_signature jwt, ec)"
    unfolding alg(1) .
  have "\<not> ec_failed (verify (header_base64 jwt @ ''.'' @ payload_base64 jwt) (jwt_signature jwt))"
    using s tok(2) by (rule verify_sign)
  moreover have "map_of (header_claims jwt) ''alg'' = Some (JString (alg_name alg))"
    using b(1,3) by (simp add: j(3) header_with_alg_def map_of_smap_put claims_ok_def)
  ultimately have "passes (verify_jwt_ec visit (simple_verifier n alg) now jwt) \<longleftrightarrow> dates_ok n now jwt"
    using simple_verifier_passes[OF v] alg(2) by simp
  with j(1,2) show ?thesis by blast
qed

end

lemma hs256_sign_ok:
  assumes "sign_token (hs256 ssl key) b = Inr tok"
  shows "sign_token_ec (hs256 ssl key) b = Inr (tok, no_ec)"
  using assms
  by (auto simp: sign_token_def sign_token_ec_def sign_with_ec_def hs256_def hmacsha_def hmac_sign_def
      Let_def or_throw_Inr split: option.splits)

text \<open>
  The token library round trip: a token signed with HS256 decodes to its claims, and a verifier that
  allows HS256 under the same secret accepts it exactly while its dates are good, in whatever order
  it runs its checks.
\<close>

theorem hs256_token_accepted:
  assumes "claims_ok (b_header b)" "claims_ok (b_payload b)" "map_of (b_header b) ''alg'' = None"
    and "sign_token (hs256 ssl key) b = Inr tok" "visits_all visit"
  shows "\<exists>jwt. decode_jwt tok = Inr jwt \<and> payload_claims jwt = b_payload b \<and>
    (passes (verify_jwt_ec visit (leeway n (allow_algorithm (hs256 ssl key) new_verifier)) now jwt) \<longleftrightarrow>
     dates_ok n now jwt)"
  using hmac.signed_token_accepted[of "hs256 ssl key" ssl key Sha256 b tok no_ec visit n now,
      OF _ _ assms(1-3) hs256_sign_ok[OF assms(4)] _ assms(5)]
  by (simp add: simple_verifier_def hs256_def hmacsha_def)

definition sample_payload :: builder where
  "sample_payload = set_expires_at (from_time_t 100) (set_subject ''u1'' create)"

lemma hs256_token_accepted_witness:
  "\<exists>jwt tok. decode_jwt tok = Inr jwt \<and>
     passes (verify_jwt_ec rev (leeway 0 (allow_algorithm (hs256 toy_openssl ''k'') new_verifier))
       (from_time_t 50) jwt)"
proof -
  have ok: "claims_ok (b_header sample_payload)" "claims_ok (b_payload sample_payload)"
    "map_of (b_header sample_payload) ''alg'' = None"
    by (simp_all add: sample_payload_def set_expires_at_def set_subject_def set_payload_claim_def
        create_def claims_ok_def claim_of_date_def)
  obtain tok where tok: "sign_token (hs256 toy_openssl ''k'') sample_payload = Inr tok"
    by (auto simp: sign_token_def sign_token_ec_def sign_with_ec_def hs256_def hmacsha_def hmac_sign_def
        Let_def toy_openssl_def)
  from hs256_token_accepted[OF ok tok visits_all_rev, of 0 "from_time_t 50"] obtain jwt where
    j: "decode_jwt tok = Inr jwt" "payload_claims jwt = b_payload sample_payload" and
    a: "passes (verify_jwt_ec rev (leeway 0 (allow_algorithm (hs256 toy_openssl ''k'') new_verifier))
       (from_time_t 50) jwt) \<longleftrightarrow> dates_ok 0 (from_time_t 50) jwt"
    by blast
  have "b_payload sample_payload = [(''exp'', JInt 100), (''sub'', JString ''u1'')]" by code_simp
  then have "dates_ok 0 (from_time_t 50) jwt"
    by (simp add: dates_ok_def date_claim_ok_def j(2) seconds_def from_time_t_def nanos_def word_sless_alt)
  with a j(1) show ?thesis by blast
qed

end
