(* ===== verification/Jwt_Jwk.thy ===== *)
theory Jwt_Jwk
  imports Jwt_Claims
begin

text \<open>
  JSON web keys of \<^verbatim>\<open>jwt.h\<close>: a key is a map of claims with named accessors, a key set is the list
  under \<^verbatim>\<open>keys\<close>. Looking a key up by its id runs inside functions declared \<^verbatim>\<open>noexcept\<close>, so an
  exception there ends the program; that outcome is a value of its own here.
\<close>

section \<open>Keys\<close>

record jwk =
  jwk_claims :: claims

definition parse_jwk :: "string \<Rightarrow> exn + jwk" where
  "parse_jwk str = sbind (parse_claims str) (\<lambda>m. Inr \<lparr> jwk_claims = m \<rparr>)"

definition jwk_of_json :: "json \<Rightarrow> exn + jwk" where
  "jwk_of_json v = sbind (as_object v) (\<lambda>m. Inr \<lparr> jwk_claims = m \<rparr>)"

definition has_jwk_claim :: "jwk \<Rightarrow> string \<Rightarrow> bool" where
  "has_jwk_claim k name = has_claim (jwk_claims k) name"

definition get_jwk_claim :: "jwk \<Rightarrow> string \<Rightarrow> exn + claim" where
  "get_jwk_claim k name = get_claim (jwk_claims k) name"

definition get_key_type :: "jwk \<Rightarrow> exn + string" where
  "get_key_type k = sbind (get_jwk_claim k ''kty'') as_string"

definition get_use :: "jwk \<Rightarrow> exn + string" where
  "get_use k = sbind (get_jwk_claim k ''use'') as_string"

definition get_key_operations :: "jwk \<Rightarrow> exn + string list" where
  "get_key_operations k = sbind (get_jwk_claim k ''key_ops'') as_set"

definition get_jwk_algorithm :: "jwk \<Rightarrow> exn + string" where
  "get_jwk_algorithm k = sbind (get_jwk_claim k ''alg'') as_string"

definition get_jwk_key_id :: "jwk \<Rightarrow> exn + string" where
  "get_jwk_key_id k = sbind (get_jwk_claim k ''kid'') as_string"

definition get_curve :: "jwk \<Rightarrow> exn + string" where
  "get_curve k = sbind (get_jwk_claim k ''crv'') as_string"

definition get_x5c :: "jwk \<Rightarrow> exn + json list" where
  "get_x5c k = sbind (get_jwk_claim k ''x5c'') as_array"

definition get_x5u :: "jwk \<Rightarrow> exn + string" where
  "get_x5u k = sbind (get_jwk_claim k ''x5u'') as_string"

definition get_x5t :: "jwk \<Rightarrow> exn + string" where
  "get_x5t k = sbind (get_jwk_claim k ''x5t'') as_string"

definition get_x5t_sha256 :: "jwk \<Rightarrow> exn + string" where
  "get_x5t_sha256 k = sbind (get_jwk_claim k ''x5t#S256'') as_string"

definition get_x5c_key_value :: "jwk \<Rightarrow> exn + string" where
  "get_x5c_key_value k =
     sbind (sbind (get_jwk_claim k ''x5c'') as_array) (\<lambda>a.
       if a = [] then Inl (Out_of_range ''claim not found'') else as_string (hd a))"

definition has_key_type :: "jwk \<Rightarrow> bool" where
  "has_key_type k = has_jwk_claim k ''kty''"

definition has_use :: "jwk \<Rightarrow> bool" where
  "has_use k = has_jwk_claim k ''use''"

definition has_key_operations :: "jwk \<Rightarrow> bool" where
  "has_key_operations k = has_jwk_claim k ''key_ops''"

definition has_jwk_algorithm :: "jwk \<Rightarrow> bool" where
  "has_jwk_algorithm k = has_jwk_claim k ''alg''"

definition has_curve :: "jwk \<Rightarrow> bool" where
  "has_curve k = has_jwk_claim k ''crv''"

definition has_jwk_key_id :: "jwk \<Rightarrow> bool" where
  "has_jwk_key_id k = has_jwk_claim k ''kid''"

definition has_x5u :: "jwk \<Rightarrow> bool" where
  "has_x5u k = has_jwk_claim k ''x5u''"

definition has_x5c :: "jwk \<Rightarrow> bool" where
  "has_x5c k = has_jwk_claim k ''x5c''"

definition has_x5t :: "jwk \<Rightarrow> bool" where
  "has_x5t k = has_jwk_claim k ''x5t''"

definition has_x5t_sha256 :: "jwk \<Rightarrow> bool" where
  "has_x5t_sha256 k = has_jwk_claim k ''x5t#S256''"

section \<open>Key sets\<close>

definition parse_jwks :: "string \<Rightarrow> exn + jwk list" where
  "parse_jwks str =
     sbind (traits_parse str) (\<lambda>r.
       case r of
         None \<Rightarrow> Inl (Runtime_error ''invalid json'')
       | Some v \<Rightarrow> sbind (as_object v) (\<lambda>m.
           if \<not> has_claim m ''keys'' then Inl (Runtime_error ''invalid json'')
           else sbind (sbind (get_claim m ''keys'') as_array) (\<lambda>ks. smap_list jwk_of_json ks)))"

text \<open>The first key with the id; a key whose id is not a string throws out of a noexcept function.\<close>

datatype 'a outcome = Returned 'a | Terminated exn

fun find_by_kid :: "jwk list \<Rightarrow> string \<Rightarrow> jwk option outcome" where
  "find_by_kid [] key_id = Returned None"
| "find_by_kid (k # ks) key_id =
     (if \<not> has_jwk_key_id k then find_by_kid ks key_id
      else
        (case get_jwk_key_id k of
           Inl e \<Rightarrow> Terminated e
         | Inr kid \<Rightarrow> if kid = key_id then Returned (Some k) else find_by_kid ks key_id))"

definition has_jwk :: "jwk list \<Rightarrow> string \<Rightarrow> bool outcome" where
  "has_jwk ks key_id =
     (case find_by_kid ks key_id of
        Returned r \<Rightarrow> Returned (r \<noteq> None)
      | Terminated e \<Rightarrow> Terminated e)"

definition get_jwk :: "jwk list \<Rightarrow> string \<Rightarrow> (exn + jwk) outcome" where
  "get_jwk ks key_id =
     (case find_by_kid ks key_id of
        Returned None \<Rightarrow> Returned (Inl (Out_of_range ''claim not found''))
      | Returned (Some k) \<Rightarrow> Returned (Inr k)
      | Terminated e \<Rightarrow> Terminated e)"

section \<open>Looking up a key\<close>

definition kid_is :: "string \<Rightarrow> jwk \<Rightarrow> bool" where
  "kid_is key_id k \<longleftrightarrow> map_of (jwk_claims k) ''kid'' = Some (JString key_id)"

definition kid_bad :: "jwk \<Rightarrow> bool" where
  "kid_bad k \<longleftrightarrow> (\<exists>c. map_of (jwk_claims k) ''kid'' = Some c \<and> \<not> is_string c)"

lemma find_by_kid_step:
  "find_by_kid (k # ks) key_id =
     (if kid_bad k then Terminated Bad_cast
      else if kid_is key_id k then Returned (Some k)
      else find_by_kid ks key_id)"
proof (cases "map_of (jwk_claims k) ''kid''")
  case None
  then show ?thesis
    by (simp add: kid_is_def kid_bad_def has_jwk_key_id_def has_jwk_claim_def has_claim_def)
next
  case (Some c)
  then show ?thesis
    by (cases c) (auto simp: kid_is_def kid_bad_def has_jwk_key_id_def has_jwk_claim_def has_claim_def
        get_jwk_key_id_def get_jwk_claim_def get_claim_def is_string_def as_string_def)
qed

declare find_by_kid.simps(2) [simp del]

text \<open>
  Looking a key up by id ends the whole program (an exception leaves a \<^verbatim>\<open>noexcept\<close> function) exactly
  when a key whose id is not a string stands before the first key with the wanted id; otherwise
  \<^verbatim>\<open>has_jwk\<close> tells whether some key has the id. One malformed key in a key set is enough.
\<close>

theorem has_jwk_outcome:
  "has_jwk ks key_id =
     (if \<exists>k \<in> set (takeWhile (\<lambda>k. \<not> kid_is key_id k) ks). kid_bad k then Terminated Bad_cast
      else Returned (\<exists>k \<in> set ks. kid_is key_id k))"
proof -
  have x: "kid_is key_id k \<Longrightarrow> \<not> kid_bad k" for k
    by (auto simp: kid_is_def kid_bad_def is_string_def)
  have "find_by_kid ks key_id =
     (if \<exists>k \<in> set (takeWhile (\<lambda>k. \<not> kid_is key_id k) ks). kid_bad k then Terminated Bad_cast
      else Returned (find (kid_is key_id) ks))"
    by (induction ks) (auto simp: find_by_kid_step x)
  then show ?thesis
    by (auto simp: has_jwk_def find_Some_iff find_None_iff split: option.splits)
qed

end
