(* ===== verification/CheckToken.thy ===== *)
theory CheckToken
  imports Jwt_Verifier Config
begin

text \<open>
  Authentication: \<^verbatim>\<open>FindToken.h\<close>, \<^verbatim>\<open>SimpleFunctions.h\<close>, \<^verbatim>\<open>CheckToken.h\<close> and \<^verbatim>\<open>CheckToken.cpp\<close>.
  OpenSSL, the order of the verifier's table and the two readings of the system clock are
  arguments; log lines are collected in a list.
\<close>

section \<open>Finding the token in a text\<close>

definition kMaxTokenLen :: nat where
  "kMaxTokenLen = 8192"

definition token_delims :: string where
  "token_delims = [CHR '' '', LF, CR, TAB, DQ, CHR 0x27]"

text \<open>The nearest delimiter from \<open>start\<close> on, or the end of the text.\<close>

definition cut_position :: "string \<Rightarrow> nat \<Rightarrow> nat" where
  "cut_position message start =
     fold (\<lambda>delim cut.
         case find_from [delim] message start of
           Some p \<Rightarrow> if p < cut then p else cut
         | None \<Rightarrow> cut) token_delims (length message)"

definition findToken :: "string \<Rightarrow> string" where
  "findToken message =
     (case find_str ''Bearer '' message of
        None \<Rightarrow> []
      | Some bearerPos \<Rightarrow>
          (let start = bearerPos + 7
           in if length message \<le> start then []
              else
                (let tok = substr message start (cut_position message start - start)
                 in if kMaxTokenLen < length tok then take kMaxTokenLen tok else tok)))"

section \<open>Log lines\<close>

text \<open>\<^verbatim>\<open>[\<close> the socket right aligned in seven columns \<^verbatim>\<open>]\<close> and the text.\<close>

definition beautyPrint :: "int \<Rightarrow> string \<Rightarrow> string" where
  "beautyPrint soc msg =
     (let n = int_to_string soc
      in ''['' @ replicate (7 - length n) (CHR '' '') @ n @ ''] '' @ msg @ [LF])"

definition maskToken :: "string \<Rightarrow> string" where
  "maskToken tok =
     (if tok = [] then ''<empty>''
      else substr tok 0 (if length tok < 6 then length tok else 6)
        @ ''...<len='' @ to_string (length tok) @ ''>'')"

section \<open>Permissions\<close>

text \<open>The permission flags of the older protocol, all unset at first.\<close>

record user_permission =
  user_list :: bool
  user_info :: bool
  nameWrite :: bool
  user_data :: bool
  roleGet :: bool
  roleSet :: bool
  blockGet :: bool
  blockSet :: bool

record course_permission =
  course_list :: bool
  course_info :: bool
  infoSet :: bool
  testList :: bool
  testInfo :: bool
  testSet :: bool
  testAdd :: bool
  testDel :: bool
  userList :: bool
  userAdd :: bool
  userDel :: bool
  courseAdd :: bool
  courseDel :: bool

record quest_permission =
  quest_list :: bool
  quest_read :: bool
  quest_update :: bool
  quest_create :: bool
  quest_del :: bool

record test_permission =
  questDel :: bool
  questAdd :: bool
  questUpdate :: bool
  answerRead :: bool

record attempt_permission =
  attempt_create :: bool
  attempt_update :: bool
  attempt_finish :: bool
  attempt_read :: bool

record answer_permission =
  answer_read :: bool
  answer_update :: bool
  answer_del :: bool

datatype action = Error401 | Error403

section \<open>Verifying a token\<close>

record auth_info =
  auth_ok :: bool
  auth_sub :: string
  auth_roles :: "string list"
  auth_permissions :: "string list"
  auth_error :: string

definition auth_failed :: "string \<Rightarrow> auth_info" where
  "auth_failed msg =
     \<lparr> auth_ok = False, auth_sub = [], auth_roles = [], auth_permissions = [], auth_error = msg \<rparr>"

text \<open>The strings of an array claim, or a string claim as the only element.\<close>

definition extractStringList :: "decoded_jwt \<Rightarrow> string \<Rightarrow> string list" where
  "extractStringList decoded claimName =
     (if \<not> has_payload_claim decoded claimName then []
      else
        (case get_payload_claim decoded claimName of
           Inl e \<Rightarrow> []
         | Inr c \<Rightarrow>
             (case as_array c of
                Inr arr \<Rightarrow>
                  concat (map (\<lambda>item. case item of JString s \<Rightarrow> [s] | _ \<Rightarrow> []) arr)
              | Inl e \<Rightarrow> (case as_string c of Inr s \<Rightarrow> [s] | Inl e \<Rightarrow> []))))"

text \<open>The catch clauses around the whole verification.\<close>

definition catch_auth :: "exn \<Rightarrow> auth_info" where
  "catch_auth e =
     (case e of
        Token_verification_exception ec \<Rightarrow> auth_failed (''verification failed: '' @ what e)
      | _ \<Rightarrow> auth_failed (''decode error: '' @ what e))"

definition catching :: "exn + 'a \<Rightarrow> ('a \<Rightarrow> auth_info) \<Rightarrow> auth_info" where
  "catching r f = (case r of Inl e \<Rightarrow> catch_auth e | Inr x \<Rightarrow> f x)"

text \<open>Issuer and identity, after the expiry has been looked at again.\<close>

definition identify :: "string \<Rightarrow> decoded_jwt \<Rightarrow> auth_info" where
  "identify requiredIssuer decoded =
     (let iss = (case get_issuer decoded of Inr s \<Rightarrow> s | Inl _ \<Rightarrow> [])
      in if requiredIssuer \<noteq> [] \<and> iss \<noteq> requiredIssuer then auth_failed ''issuer mismatch''
         else
           \<lparr> auth_ok = True,
             auth_sub = (case get_subject decoded of Inr s \<Rightarrow> s | Inl _ \<Rightarrow> []),
             auth_roles = extractStringList decoded ''roles'',
             auth_permissions = extractStringList decoded ''permissions'',
             auth_error = [] \<rparr>)"

definition verifyJwt ::
  "('c, 'k, 'n) openssl \<Rightarrow> visit_order \<Rightarrow> date \<Rightarrow> date \<Rightarrow> string \<Rightarrow> string \<Rightarrow> string \<Rightarrow> auth_info" where
  "verifyJwt ssl visit now now2 tok secret requiredIssuer =
     (if tok = [] then auth_failed ''empty token''
      else if secret = [] then auth_failed ''JWT_SECRET is not set, fail closed.''
      else
        catching (decode_jwt tok) (\<lambda>decoded.
          let v = allow_algorithm (hs256 ssl secret) new_verifier
          in (case verify_jwt visit v now decoded of
                Some e \<Rightarrow> catch_auth e
              | None \<Rightarrow>
                  if has_expires_at decoded then
                    catching (get_expires_at decoded) (\<lambda>exp.
                      if exp <s now2 then auth_failed ''token expired''
                      else identify requiredIssuer decoded)
                  else identify requiredIssuer decoded)))"

section \<open>The legacy wrapper\<close>

definition loadJwtSecret :: "environment \<Rightarrow> string" where
  "loadJwtSecret env =
     (case env ''JWT_SECRET'' of Some s \<Rightarrow> if s \<noteq> [] then s else [] | None \<Rightarrow> [])"

text \<open>A C string ends at its first zero byte; a null pointer is \<open>None\<close>.\<close>

definition c_string :: "string option \<Rightarrow> string" where
  "c_string m = (case m of None \<Rightarrow> [] | Some s \<Rightarrow> takeWhile (\<lambda>c. c \<noteq> CHR 0x00) s)"

definition CheckToken ::
  "('c, 'k, 'n) openssl \<Rightarrow> visit_order \<Rightarrow> environment \<Rightarrow> date \<Rightarrow> date \<Rightarrow> int \<Rightarrow> string option
   \<Rightarrow> action \<times> string list" where
  "CheckToken ssl visit env now now2 soc message =
     (let l1 = beautyPrint soc ''Find token...'';
          tok = findToken (c_string message)
      in if tok = [] then (Error401, [l1, beautyPrint soc ''Token not found.''])
         else
           (let l2 = beautyPrint soc (''Token: '' @ maskToken tok);
                issuer = (case env ''JWT_ISSUER'' of Some s \<Rightarrow> s | None \<Rightarrow> []);
                auth = verifyJwt ssl visit now now2 tok (loadJwtSecret env) issuer
            in if \<not> auth_ok auth then
                 (Error401, [l1, l2, beautyPrint soc (''Auth failed: '' @ auth_error auth)])
               else (Error403, [l1, l2])))"

section \<open>Codes that are thrown\<close>

text \<open>A code of a failure belongs to a category that \<^verbatim>\<open>throw_if_error\<close> knows.\<close>

definition known_ec :: "error_code \<Rightarrow> bool" where
  "known_ec ec \<longleftrightarrow> (ec_failed ec \<longrightarrow> ec_category ec \<noteq> System_category)"

lemma throw_if_error_None: "known_ec ec \<Longrightarrow> throw_if_error ec = None \<longleftrightarrow> \<not> ec_failed ec"
  by (cases "ec_category ec") (auto simp: known_ec_def throw_if_error_def)

lemma known_ec_simps [simp]:
  "known_ec no_ec" "known_ec (token_ec t)" "known_ec (verify_ec v)" "known_ec (sign_ec s)"
  by (simp_all add: known_ec_def token_ec_def verify_ec_def sign_ec_def)

lemma known_ec_run_checks:
  "(\<And>key fn ctx ec. (key, fn) \<in> set cs \<Longrightarrow> fn ctx = Inr ec \<Longrightarrow> known_ec ec) \<Longrightarrow>
   run_checks cs ctx = Inr ec \<Longrightarrow> known_ec ec"
  by (induction cs) (force simp: sbind_Inr_iff split: if_splits)+

lemma known_ec_defaults:
  "default_exp ctx = Inr ec \<Longrightarrow> known_ec ec" "default_iat ctx = Inr ec \<Longrightarrow> known_ec ec"
  "default_nbf ctx = Inr ec \<Longrightarrow> known_ec ec"
  by (auto simp: default_exp_def default_iat_def default_nbf_def sbind_Inr_iff split: if_splits)

lemma verify_hs256_None:
  assumes "visits_all visit"
  shows "verify_jwt visit (allow_algorithm (hs256 ssl secret) new_verifier) now j = None \<longleftrightarrow>
    map_of (header_claims j) ''alg'' = Some (JString ''HS256'') \<and>
    ssl_hmac ssl Sha256 secret (header_base64 j @ ''.'' @ payload_base64 j) = Some (jwt_signature j) \<and>
    dates_ok 0 now j"
proof -
  let ?v = "allow_algorithm (hs256 ssl secret) new_verifier"
  have sv: "?v = simple_verifier 0 (hs256 ssl secret)"
    by (simp add: simple_verifier_def leeway_def allow_algorithm_def new_verifier_def)
  have cs: "set (visit (v_claims ?v)) = {(''exp'', default_exp), (''iat'', default_iat), (''nbf'', default_nbf)}"
    using set_visit[OF assms] by (auto simp: allow_algorithm_def new_verifier_def)
  have "known_ec ec" if "verify_jwt_ec visit ?v now j = Inr ec" for ec
  proof -
    have "known_ec e" if "run_checks (visit (v_claims ?v)) ctx = Inr e" for ctx e
      using that by (rule known_ec_run_checks[rotated]) (auto simp: cs dest: known_ec_defaults)
    moreover have "known_ec (alg_verify (hs256 ssl secret) d sg)" for d sg
      by (auto simp: hs256_def hmacsha_def hmac_verify_def hmac_sign_def split: option.splits)
    ultimately show ?thesis
      using that by (auto simp: verify_jwt_ec_def Let_def sbind_Inr_iff allow_algorithm_def new_verifier_def
          split: if_splits option.splits)
  qed
  then have "verify_jwt visit ?v now j = None \<longleftrightarrow> passes (verify_jwt_ec visit ?v now j)"
    by (auto simp: verify_jwt_def passes_def throw_if_error_None split: sum.splits)
  also have "\<dots> \<longleftrightarrow> map_of (header_claims j) ''alg'' = Some (JString ''HS256'') \<and>
      \<not> ec_failed (alg_verify (hs256 ssl secret) (header_base64 j @ ''.'' @ payload_base64 j) (jwt_signature j)) \<and>
      dates_ok 0 now j"
    unfolding sv simple_verifier_passes[OF assms] by (simp add: hs256_def hmacsha_def)
  finally show ?thesis
    by (simp add: hs256_def hmacsha_def hmac.verify_iff) (auto simp: hmac_sign_def split: option.splits)
qed

section \<open>Who is let in\<close>

text \<open>What a token must be for a secret, an issuer and the two readings of the clock.\<close>

definition genuine ::
  "('c, 'k, 'n) openssl \<Rightarrow> date \<Rightarrow> date \<Rightarrow> string \<Rightarrow> string \<Rightarrow> decoded_jwt \<Rightarrow> bool" where
  "genuine ssl now now2 secret requiredIssuer j \<longleftrightarrow>
     map_of (header_claims j) ''alg'' = Some (JString ''HS256'') \<and>
     ssl_hmac ssl Sha256 secret (header_base64 j @ ''.'' @ payload_base64 j) = Some (jwt_signature j) \<and>
     dates_ok 0 now j \<and> date_claim_ok j ''exp'' (\<lambda>d. \<not> d <s now2) \<and>
     (requiredIssuer \<noteq> [] \<longrightarrow> map_of (payload_claims j) ''iss'' = Some (JString requiredIssuer))"

lemma get_issuer_eq:
  "requiredIssuer \<noteq> [] \<Longrightarrow>
   (case get_issuer j of Inr s \<Rightarrow> s | Inl _ \<Rightarrow> []) = requiredIssuer \<longleftrightarrow>
   map_of (payload_claims j) ''iss'' = Some (JString requiredIssuer)"
proof (cases "map_of (payload_claims j) ''iss''")
  case (Some c)
  then show "requiredIssuer \<noteq> [] \<Longrightarrow> ?thesis"
    by (cases c) (auto simp: get_issuer_def get_payload_claim_def get_claim_def as_string_def is_string_def)
qed (auto simp: get_issuer_def get_payload_claim_def get_claim_def)

lemma auth_failed_not_ok [simp]: "auth_ok (auth_failed m) = False" "auth_ok (catch_auth e) = False"
  by (auto simp: auth_failed_def catch_auth_def split: exn.splits)

lemma identify_ok:
  "auth_ok (identify iss j) \<longleftrightarrow> (iss \<noteq> [] \<longrightarrow> map_of (payload_claims j) ''iss'' = Some (JString iss))"
proof (cases "iss = []")
  case False
  with get_issuer_eq[of iss j] show ?thesis by (auto simp: identify_def Let_def)
qed (simp add: identify_def)

lemma exp_again:
  "auth_ok (if has_expires_at j then
       catching (get_expires_at j) (\<lambda>exp. if exp <s now2 then auth_failed m else identify iss j)
     else identify iss j) \<longleftrightarrow>
   date_claim_ok j ''exp'' (\<lambda>d. \<not> d <s now2) \<and> auth_ok (identify iss j)"
proof (cases "map_of (payload_claims j) ''exp''")
  case (Some c)
  then show ?thesis
    by (cases c) (auto simp: has_expires_at_def has_payload_claim_def has_claim_def get_expires_at_def
        get_payload_claim_def get_claim_def date_claim_ok_def catching_def as_date_def as_int_def is_int64_def)
qed (auto simp: has_expires_at_def has_payload_claim_def has_claim_def date_claim_ok_def)

lemma catching_simps [simp]: "catching (Inl e) f = catch_auth e" "catching (Inr x) f = f x"
  by (simp_all add: catching_def)

lemma verifyJwt_ok:
  assumes "visits_all visit"
  shows "auth_ok (verifyJwt ssl visit now now2 tok secret iss) \<longleftrightarrow>
    tok \<noteq> [] \<and> secret \<noteq> [] \<and> (\<exists>j. decode_jwt tok = Inr j \<and> genuine ssl now now2 secret iss j)"
proof (cases "decode_jwt tok")
  case (Inr j)
  show ?thesis
  proof (cases "verify_jwt visit (allow_algorithm (hs256 ssl secret) new_verifier) now j")
    case None
    with verify_hs256_None[OF assms, of ssl secret now j] Inr show ?thesis
      using exp_again[of j now2 "''token expired''" iss] identify_ok[of iss j]
      by (auto simp: verifyJwt_def genuine_def)
  next
    case (Some e)
    with verify_hs256_None[OF assms, of ssl secret now j] Inr show ?thesis
      by (auto simp: verifyJwt_def genuine_def)
  qed
qed (simp add: verifyJwt_def)

text \<open>C6:
  Exactly who is let in: a token is accepted when it is not empty, the server has a secret, the token
  decodes, its header says HS256 and nothing else, its signature is the HMAC of its two parts under
  the secret, its dates hold at both readings of the clock, and, where an issuer is required, its
  issuer is that one. Without a secret nobody is let in.
\<close>

theorem verifyJwt_accepts_iff:
  assumes "visits_all visit"
  shows "auth_ok (verifyJwt ssl visit now now2 tok secret iss) \<longleftrightarrow>
    tok \<noteq> [] \<and> secret \<noteq> [] \<and> (\<exists>j. decode_jwt tok = Inr j \<and> genuine ssl now now2 secret iss j)"
  using assms by (rule verifyJwt_ok)

lemma verifyJwt_accepts_iff_witness:
  "\<not> auth_ok (verifyJwt toy_openssl rev 0 0 ''e30.e30.'' ''key'' [])"
proof -
  have "decode_jwt ''e30.e30.'' = Inr \<lparr> header_claims = [], payload_claims = [], jwt_token = ''e30.e30.'',
      header_text = ''{}'', header_base64 = ''e30'', payload_text = ''{}'', payload_base64 = ''e30'',
      jwt_signature = [], signature_base64 = [] \<rparr>"
    by code_simp
  then show ?thesis
    using verifyJwt_accepts_iff[OF visits_all_rev, of toy_openssl 0 0 "''e30.e30.''" "''key''" "[]"]
    by (simp add: genuine_def)
qed

section \<open>Who the bearer is\<close>

lemma extractStringList_array:
  "map_of (payload_claims j) name = Some (JArray (map JString ss)) \<Longrightarrow> extractStringList j name = ss"
  by (induction ss arbitrary: j rule: rev_induct)
    (auto simp: extractStringList_def has_payload_claim_def has_claim_def get_payload_claim_def get_claim_def
      o_def concat_map_singleton)

lemma verifyJwt_identity:
  assumes "visits_all visit" "decode_jwt tok = Inr j" "genuine ssl now now2 secret iss j"
    and "tok \<noteq> []" "secret \<noteq> []"
  shows "verifyJwt ssl visit now now2 tok secret iss =
    \<lparr> auth_ok = True, auth_sub = (case get_subject j of Inr s \<Rightarrow> s | Inl _ \<Rightarrow> []),
      auth_roles = extractStringList j ''roles'', auth_permissions = extractStringList j ''permissions'',
      auth_error = [] \<rparr>"
proof -
  have v: "verify_jwt visit (allow_algorithm (hs256 ssl secret) new_verifier) now j = None"
    using assms(3) verify_hs256_None[OF assms(1), of ssl secret now j] unfolding genuine_def by blast
  have i: "iss \<noteq> [] \<longrightarrow> (case get_issuer j of Inr s \<Rightarrow> s | Inl _ \<Rightarrow> []) = iss"
    using assms(3) get_issuer_eq[of iss j] by (simp add: genuine_def)
  have "date_claim_ok j ''exp'' (\<lambda>d. \<not> d <s now2)" using assms(3) by (simp add: genuine_def)
  then have "(if has_expires_at j then
       catching (get_expires_at j) (\<lambda>exp. if exp <s now2 then auth_failed ''token expired'' else identify iss j)
     else identify iss j) = identify iss j"
    by (auto simp: date_claim_ok_def has_expires_at_def has_payload_claim_def has_claim_def get_expires_at_def
        get_payload_claim_def get_claim_def as_date_def split: option.splits json.splits)
  with v i assms(2,4,5) show ?thesis
    by (auto simp: verifyJwt_def identify_def Let_def)
qed

lemma issued_identity:
  assumes "claims_ok (b_header b)" "claims_ok (b_payload b)" "map_of (b_header b) ''alg'' = None"
    and "sign_token (hs256 ssl secret) b = Inr tok" "visits_all visit" "secret \<noteq> []"
    and "map_of (b_payload b) ''sub'' = Some (JString u)"
    and "map_of (b_payload b) ''roles'' = Some (JArray (map JString rs))"
    and "map_of (b_payload b) ''permissions'' = Some (JArray (map JString ps))"
    and "map_of (b_payload b) ''exp'' = Some (JInt t)" "\<not> from_time_t t <s now" "\<not> from_time_t t <s now2"
    and "map_of (b_payload b) ''iat'' = None" "map_of (b_payload b) ''nbf'' = None"
    and "iss \<noteq> [] \<longrightarrow> map_of (b_payload b) ''iss'' = Some (JString iss)"
  shows "verifyJwt ssl visit now now2 tok secret iss =
    \<lparr> auth_ok = True, auth_sub = u, auth_roles = rs, auth_permissions = ps, auth_error = [] \<rparr>"
proof -
  from decode_signed[OF assms(1,2) hs256_sign_ok[OF assms(4)]] obtain j where
    j: "decode_jwt tok = Inr j" "payload_claims j = b_payload b"
      "header_claims j = header_with_alg ''HS256'' (b_header b)" and
    h: "alg_sign (hs256 ssl secret) (header_base64 j @ ''.'' @ payload_base64 j) = Inr (jwt_signature j, no_ec)"
    by (auto simp: hs256_def hmacsha_def)
  have "ssl_hmac ssl Sha256 secret (header_base64 j @ ''.'' @ payload_base64 j) = Some (jwt_signature j)"
    using h by (auto simp: hs256_def hmacsha_def hmac_sign_def sign_ec_def no_ec_def split: option.splits)
  moreover have "map_of (header_claims j) ''alg'' = Some (JString ''HS256'')"
    using assms(1,3) by (simp add: j(3) header_with_alg_def map_of_smap_put claims_ok_def)
  moreover have "dates_ok 0 now j" "date_claim_ok j ''exp'' (\<lambda>d. \<not> d <s now2)"
    using assms(10-14) by (simp_all add: dates_ok_def date_claim_ok_def j(2) seconds_def)
  ultimately have g: "genuine ssl now now2 secret iss j"
    using assms(15) by (simp add: genuine_def j(2))
  have "tok \<noteq> []" using j(1) by (auto simp: decode_jwt_def decode_jwt_with_def)
  with verifyJwt_identity[OF assms(5) j(1) g] assms(6-9) show ?thesis
    by (simp add: extractStringList_array j(2) get_subject_def get_payload_claim_def get_claim_def)
qed

text \<open>C13:
  A token issued under the server's secret with an expiry, and without \<^verbatim>\<open>iat\<close> and \<^verbatim>\<open>nbf\<close>, is accepted while
  it has not expired and identifies its bearer exactly: subject, roles and permissions come out as they
  were put in.
\<close>

theorem issued_token_identity:
  assumes "claims_ok (b_header b)" "claims_ok (b_payload b)" "map_of (b_header b) ''alg'' = None"
    and "sign_token (hs256 ssl secret) b = Inr tok" "visits_all visit" "secret \<noteq> []"
    and "map_of (b_payload b) ''sub'' = Some (JString u)"
    and "map_of (b_payload b) ''roles'' = Some (JArray (map JString rs))"
    and "map_of (b_payload b) ''permissions'' = Some (JArray (map JString ps))"
    and "map_of (b_payload b) ''exp'' = Some (JInt t)" "\<not> from_time_t t <s now" "\<not> from_time_t t <s now2"
    and "map_of (b_payload b) ''iat'' = None" "map_of (b_payload b) ''nbf'' = None"
    and "iss \<noteq> [] \<longrightarrow> map_of (b_payload b) ''iss'' = Some (JString iss)"
  shows "verifyJwt ssl visit now now2 tok secret iss =
    \<lparr> auth_ok = True, auth_sub = u, auth_roles = rs, auth_permissions = ps, auth_error = [] \<rparr>"
  using assms by (rule issued_identity)

definition sample_user :: builder where
  "sample_user =
     set_payload_claim ''roles'' (JArray [JString ''admin''])
       (set_payload_claim ''permissions'' (JArray [JString ''users:read''])
         (set_payload_claim ''exp'' (JInt 100) (set_subject ''u1'' create)))"

lemma issued_token_identity_witness:
  "\<exists>tok. verifyJwt toy_openssl rev 0 0 tok ''key'' [] =
     \<lparr> auth_ok = True, auth_sub = ''u1'', auth_roles = [''admin''], auth_permissions = [''users:read''],
       auth_error = [] \<rparr>"
proof -
  obtain tok where tok: "sign_token (hs256 toy_openssl ''key'') sample_user = Inr tok"
    by (auto simp: sign_token_def sign_token_ec_def sign_with_ec_def hs256_def hmacsha_def hmac_sign_def
        Let_def toy_openssl_def)
  have "\<not> from_time_t 100 <s 0" by (simp add: from_time_t_def nanos_def word_sless_alt)
  moreover have p: "b_header sample_user = []" "b_payload sample_user =
      [(''exp'', JInt 100), (''permissions'', JArray [JString ''users:read'']),
       (''roles'', JArray [JString ''admin'']), (''sub'', JString ''u1'')]"
    by (simp_all add: sample_user_def set_payload_claim_def set_subject_def create_def)
  moreover have "claims_ok (b_header sample_user)" "claims_ok (b_payload sample_user)"
    by (simp_all add: p claims_ok_def)
  ultimately have "verifyJwt toy_openssl rev 0 0 tok ''key'' [] =
     \<lparr> auth_ok = True, auth_sub = ''u1'', auth_roles = [''admin''], auth_permissions = [''users:read''],
       auth_error = [] \<rparr>"
    by (intro issued_token_identity[OF _ _ _ tok, where t = 100]) simp_all
  then show ?thesis by (rule exI[of _ tok])
qed

section \<open>The token in the text\<close>

lemma find_from_delim:
  assumes "c \<notin> set t" "length u = n"
  shows "find_from [c] (u @ t @ r) n = map_option (\<lambda>k. n + length t + k) (find_char c r)"
proof -
  have "find_char c (t @ r) = map_option (\<lambda>k. length t + k) (find_char c r)"
    using assms(1) by (induction t) (cases "find_char c r"; simp)+
  then show ?thesis
    using assms(2) by (auto simp: find_from_def find_char_def option.map_comp o_def add.assoc)
qed

lemma cut_fold:
  assumes "\<And>d p. d \<in> set ds \<Longrightarrow> find_from [d] m s = Some p \<Longrightarrow> n \<le> p" "n \<le> c0"
    and "c0 = n \<or> (\<exists>d \<in> set ds. find_from [d] m s = Some n)"
  shows "fold (\<lambda>d c0. case find_from [d] m s of Some p \<Rightarrow> if p < c0 then p else c0 | None \<Rightarrow> c0) ds c0 = n"
  using assms
proof (induction ds arbitrary: c0)
  case (Cons d ds)
  let ?c = "case find_from [d] m s of Some p \<Rightarrow> if p < c0 then p else c0 | None \<Rightarrow> c0"
  have "n \<le> ?c" using Cons.prems(1)[of d] Cons.prems(2) by (auto split: option.splits)
  moreover have "?c = n \<or> (\<exists>d \<in> set ds. find_from [d] m s = Some n)"
    using Cons.prems \<open>n \<le> ?c\<close> by (auto split: option.splits)
  ultimately show ?case using Cons.IH[of ?c] Cons.prems(1) by auto
qed simp

text \<open>
  The token is what follows the first \<^verbatim>\<open>Bearer\<close> and a space, up to the next blank, line end, tab or
  quote or the end of the text, cut off at 8192 characters.
\<close>

theorem findToken_finds:
  assumes "find_str ''Bearer '' (pre @ ''Bearer '' @ tok @ rest) = Some (length pre)"
    and "set tok \<inter> set token_delims = {}"
    and "rest = [] \<or> hd rest \<in> set token_delims"
  shows "findToken (pre @ ''Bearer '' @ tok @ rest) = take kMaxTokenLen tok"
proof -
  let ?m = "pre @ ''Bearer '' @ tok @ rest" and ?s = "length pre + 7"
  let ?u = "pre @ ''Bearer ''"
  have f: "find_from [d] ?m ?s = map_option (\<lambda>k. ?s + length tok + k) (find_char d rest)"
    if "d \<in> set token_delims" for d
    using find_from_delim[of d tok ?u ?s rest] assms(2) that by auto
  have "cut_position ?m ?s = ?s + length tok"
    unfolding cut_position_def
  proof (rule cut_fold)
    show "length ?m = ?s + length tok \<or> (\<exists>d \<in> set token_delims. find_from [d] ?m ?s = Some (?s + length tok))"
      using assms(3) f[of "hd rest"] by (cases rest) auto
  qed (use f in auto)
  moreover have "substr ?m ?s (length tok) = tok" by (simp add: substr_def)
  moreover have "length ?m \<le> ?s \<Longrightarrow> tok = []" by auto
  ultimately show ?thesis
    using assms(1) by (auto simp: findToken_def Let_def)
qed

lemma findToken_finds_witness:
  "findToken ''Authorization: Bearer abc.def.ghi next'' = take kMaxTokenLen ''abc.def.ghi''"
  using findToken_finds[of "''Authorization: ''" "''abc.def.ghi''" "'' next''"]
  by (simp add: token_delims_def)

end
