(* ===== verification/Router.thy ===== *)
theory Router
  imports CheckToken
begin

text \<open>
  The route table and the scope check of \<^verbatim>\<open>Router.h\<close> and \<^verbatim>\<open>Router.cpp\<close>: a target is split into
  path and query, \<^verbatim>\<open>/health\<close> and \<^verbatim>\<open>/api/<area>/...\<close> are recognised, and an area route carries
  its upstream, the path to forward and the scope it needs. A route and a scope check are total
  functions; the properties characterise exactly which targets lead to an upstream and which
  identities pass.
\<close>

named_theorems route_lemmas \<open>facts about routes and scopes\<close>

section \<open>Areas\<close>

definition apiAreas :: "string list" where
  "apiAreas = [''users'', ''courses'', ''quests'', ''tests'', ''attempts'', ''answers'']"

definition isApiArea :: "string \<Rightarrow> bool" where
  "isApiArea area \<longleftrightarrow> list_ex (\<lambda>a. a = area) apiAreas"

definition granularPrefix :: "string \<Rightarrow> string" where
  "granularPrefix area =
     (if area = ''courses'' then ''course:''
      else if area = ''quests'' then ''quest:''
      else if area = ''tests'' then ''test:''
      else if area = ''attempts'' then ''attempt:''
      else if area = ''answers'' then ''answer:''
      else ''user:'')"

section \<open>Routes\<close>

datatype route_kind = KHealth | KApi | KNotFound | KMethodNotAllowed

record route_result =
  rt_kind :: route_kind
  rt_area :: string
  rt_upstreamBase :: string
  rt_forwardPath :: string
  rt_requiredScope :: string

definition no_route :: "route_kind \<Rightarrow> route_result" where
  "no_route k =
     \<lparr> rt_kind = k, rt_area = [], rt_upstreamBase = [], rt_forwardPath = [], rt_requiredScope = [] \<rparr>"

definition isReadMethod :: "string \<Rightarrow> bool" where
  "isReadMethod m \<longleftrightarrow> m = ''GET'' \<or> m = ''HEAD''"

definition isAllowedMethod :: "string \<Rightarrow> bool" where
  "isAllowedMethod m \<longleftrightarrow>
     m = ''GET'' \<or> m = ''POST'' \<or> m = ''PUT'' \<or> m = ''PATCH'' \<or> m = ''DELETE''"

text \<open>The query keeps its question mark here, unlike in the request parser.\<close>

definition path_and_query :: "string \<Rightarrow> string \<times> string" where
  "path_and_query target =
     (case find_char (CHR ''?'') target of
        None \<Rightarrow> (target, [])
      | Some q \<Rightarrow> (substr target 0 q, drop q target))"

definition api_prefix :: string where
  "api_prefix = ''/api/''"

definition matchRoute :: "string \<Rightarrow> string \<Rightarrow> config \<Rightarrow> route_result" where
  "matchRoute meth target cfg =
     (let (p, query) = path_and_query target
      in if p = ''/health'' \<or> p = ''/health/'' then no_route KHealth
         else if \<not> prefix api_prefix p then no_route KNotFound
         else
           (let rest = drop (length api_prefix) p;
                slash = find_char (CHR ''/'') rest;
                area = (case slash of None \<Rightarrow> rest | Some i \<Rightarrow> substr rest 0 i)
            in if \<not> isApiArea area then no_route KNotFound
               else if \<not> isAllowedMethod meth then no_route KMethodNotAllowed
               else
                 (let rem0 = (case slash of None \<Rightarrow> ''/'' | Some i \<Rightarrow> drop i rest);
                      remainder = (if rem0 = [] then ''/'' else rem0)
                  in \<lparr> rt_kind = KApi, rt_area = area, rt_upstreamBase = upstreamFor cfg area,
                       rt_forwardPath = remainder @ query,
                       rt_requiredScope = area @ (if isReadMethod meth then '':read'' else '':write'') \<rparr>)))"

definition hasScope :: "auth_info \<Rightarrow> string \<Rightarrow> string \<Rightarrow> bool" where
  "hasScope auth area requiredScope \<longleftrightarrow>
     list_ex (\<lambda>role. role = ''admin'') (auth_roles auth) \<or>
     list_ex (\<lambda>p. p = requiredScope) (auth_permissions auth) \<or>
     list_ex (\<lambda>p. prefix (granularPrefix area) p) (auth_permissions auth)"

section \<open>Areas and their vocabularies\<close>

lemma isApiArea_iff [route_lemmas]: "isApiArea a \<longleftrightarrow> a \<in> set apiAreas"
  by (auto simp: isApiArea_def list_ex_iff)

lemma area_no_slash: "isApiArea a \<Longrightarrow> CHR ''/'' \<notin> set a"
  by (auto simp: isApiArea_iff apiAreas_def)

lemma area_no_question: "isApiArea a \<Longrightarrow> CHR ''?'' \<notin> set a"
  by (auto simp: isApiArea_iff apiAreas_def)

lemma area_no_colon: "isApiArea a \<Longrightarrow> CHR '':'' \<notin> set a"
  by (auto simp: isApiArea_iff apiAreas_def)

text \<open>A granular prefix ends in a colon and has no other, so it can be read off a permission.\<close>

lemma granularPrefix_cases:
  "isApiArea a \<Longrightarrow> \<exists>w. granularPrefix a = w @ '':'' \<and> CHR '':'' \<notin> set w"
  by (auto simp: isApiArea_iff apiAreas_def granularPrefix_def)

lemma granularPrefix_inj:
  "isApiArea a \<Longrightarrow> isApiArea b \<Longrightarrow> granularPrefix a = granularPrefix b \<longleftrightarrow> a = b"
  by (auto simp: isApiArea_iff apiAreas_def granularPrefix_def)

lemma colon_prefix_unique:
  "u @ CHR '':'' # r = v @ CHR '':'' # s \<Longrightarrow> CHR '':'' \<notin> set u \<Longrightarrow> CHR '':'' \<notin> set v \<Longrightarrow> u = v"
proof (induction u arbitrary: v)
  case Nil
  then show ?case by (cases v) auto
next
  case (Cons c u)
  then show ?case by (cases v) auto
qed

lemma granular_permission_area:
  assumes "isApiArea a" "isApiArea b" "prefix (granularPrefix a) p" "prefix (granularPrefix b) p"
  shows "a = b"
proof -
  obtain u v where u: "granularPrefix a = u @ '':''" "CHR '':'' \<notin> set u"
    and v: "granularPrefix b = v @ '':''" "CHR '':'' \<notin> set v"
    using assms(1,2) by (meson granularPrefix_cases)
  from assms(3,4) have "\<exists>r s. u @ CHR '':'' # r = v @ CHR '':'' # s"
    by (auto simp: u(1) v(1) prefix_def)
  then have "u = v" using u(2) v(2) by (blast dest: colon_prefix_unique)
  then show ?thesis using granularPrefix_inj[OF assms(1,2)] u v by simp
qed

section \<open>Which targets are routed\<close>

lemma path_and_query_append [route_lemmas]:
  "CHR ''?'' \<notin> set p \<Longrightarrow> q = [] \<or> hd q = CHR ''?'' \<Longrightarrow> path_and_query (p @ q) = (p, q)"
  by (cases q) (auto simp: path_and_query_def find_char_append_notin substr_def find_char_None_iff[THEN iffD2]
      split: option.splits)

lemma path_and_query_split:
  assumes "path_and_query t = (p, q)"
  shows "t = p @ q \<and> CHR ''?'' \<notin> set p \<and> (q = [] \<or> hd q = CHR ''?'')"
proof (cases "find_char (CHR ''?'') t")
  case None
  with assms show ?thesis by (simp add: path_and_query_def find_char_None_iff)
next
  case (Some i)
  with assms find_char_Some[OF Some] show ?thesis
    by (auto simp: path_and_query_def substr_def hd_drop_conv_nth)
qed

text \<open>What follows the area in a target: nothing, or a slash and more; then the query.\<close>

definition target_parts :: "string \<Rightarrow> string \<Rightarrow> string \<Rightarrow> bool" where
  "target_parts area r q \<longleftrightarrow>
     isApiArea area \<and> (r = [] \<or> hd r = CHR ''/'') \<and> CHR ''?'' \<notin> set r \<and> (q = [] \<or> hd q = CHR ''?'')"

lemma area_of_rest:
  "CHR ''/'' \<notin> set a \<Longrightarrow> r = [] \<or> hd r = CHR ''/'' \<Longrightarrow>
   find_char (CHR ''/'') (a @ r) = (if r = [] then None else Some (length a))"
  by (cases r) (auto simp: find_char_None_iff find_char_append_notin)

lemma route_of_area:
  assumes "target_parts area r q" "isAllowedMethod meth"
  shows "matchRoute meth (''/api/'' @ area @ r @ q) cfg =
    \<lparr> rt_kind = KApi, rt_area = area, rt_upstreamBase = upstreamFor cfg area,
      rt_forwardPath = (if r = [] then ''/'' else r) @ q,
      rt_requiredScope = area @ (if meth = ''GET'' then '':read'' else '':write'') \<rparr>"
proof -
  have a: "isApiArea area" "CHR ''/'' \<notin> set area" "CHR ''?'' \<notin> set area"
    using assms(1) area_no_slash area_no_question by (auto simp: target_parts_def)
  have s: "path_and_query (''/api/'' @ area @ r @ q) = (''/api/'' @ area @ r, q)"
    using path_and_query_append[of "''/api/'' @ area @ r" q] a assms(1) by (simp add: target_parts_def)
  have f: "find_char (CHR ''/'') (area @ r) = (if r = [] then None else Some (length area))"
    using area_of_rest a assms(1) by (simp add: target_parts_def)
  have m: "(if isReadMethod meth then '':read'' else '':write'') = (if meth = ''GET'' then '':read'' else '':write'')"
    using assms(2) by (auto simp: isReadMethod_def isAllowedMethod_def)
  show ?thesis
    unfolding matchRoute_def s m Let_def using a f assms(2) by (cases r) (simp_all add: api_prefix_def substr_def)
qed

text \<open>
  A request for an area, whatever stands before and after the question mark, is routed to the area's
  upstream with the rest of its path and its query, and needs the area's read scope for GET and its
  write scope for the other methods.
\<close>

theorem matchRoute_area:
  assumes "target_parts area r q" "isAllowedMethod meth"
  shows "matchRoute meth (''/api/'' @ area @ r @ q) cfg =
    \<lparr> rt_kind = KApi, rt_area = area, rt_upstreamBase = upstreamFor cfg area,
      rt_forwardPath = (if r = [] then ''/'' else r) @ q,
      rt_requiredScope = area @ (if meth = ''GET'' then '':read'' else '':write'') \<rparr>"
  using assms by (rule route_of_area)

lemma matchRoute_area_witness:
  "matchRoute ''PUT'' ''/api/users/42?full=1'' default_config =
    \<lparr> rt_kind = KApi, rt_area = ''users'', rt_upstreamBase = [], rt_forwardPath = ''/42?full=1'',
      rt_requiredScope = ''users:write'' \<rparr>"
proof -
  have "target_parts ''users'' ''/42'' ''?full=1''"
    by (simp add: target_parts_def isApiArea_def apiAreas_def)
  moreover have "isAllowedMethod ''PUT''" by (simp add: isAllowedMethod_def)
  ultimately show ?thesis
    using matchRoute_area[of "''users''" "''/42''" "''?full=1''" "''PUT''" default_config]
    by (simp add: upstreamFor_def default_config_def)
qed

lemma api_route_split:
  assumes "rt_kind (matchRoute meth t cfg) = KApi"
  obtains area r q where "t = ''/api/'' @ area @ r @ q" "target_parts area r q" "isAllowedMethod meth"
    "rt_area (matchRoute meth t cfg) = area"
proof -
  obtain p q where pq: "path_and_query t = (p, q)" by (cases "path_and_query t")
  from path_and_query_split[OF pq] have t: "t = p @ q" "CHR ''?'' \<notin> set p" "q = [] \<or> hd q = CHR ''?''"
    by auto
  from assms pq have "prefix api_prefix p"
    by (auto simp: matchRoute_def no_route_def split: if_splits)
  then obtain rest where p: "p = ''/api/'' @ rest" by (auto simp: prefix_def api_prefix_def)
  define area where "area = (case find_char (CHR ''/'') rest of None \<Rightarrow> rest | Some i \<Rightarrow> take i rest)"
  define r where "r = drop (length area) rest"
  have "area @ r = rest" "r = [] \<or> hd r = CHR ''/''"
  proof -
    show "area @ r = rest"
      by (auto simp: area_def r_def split: option.splits dest: find_char_Some)
    show "r = [] \<or> hd r = CHR ''/''"
      by (auto simp: area_def r_def hd_drop_conv_nth split: option.splits dest: find_char_Some)
  qed
  moreover have "isApiArea area \<and> isAllowedMethod meth \<and> rt_area (matchRoute meth t cfg) = area"
    using assms by (auto simp: matchRoute_def no_route_def pq p api_prefix_def area_def substr_def Let_def
        split: if_splits option.splits)
  ultimately show ?thesis
    using that[of area r q] t p by (auto simp: target_parts_def)
qed

text \<open>
  Only those requests are routed to an upstream: the target must be \<^verbatim>\<open>/api/\<close>, one of the six areas,
  then nothing or a slash, and the method one of the five; such a request is never answered 404 or 405.
\<close>

theorem matchRoute_api_iff:
  "rt_kind (matchRoute meth t cfg) = KApi \<longleftrightarrow>
   isAllowedMethod meth \<and> (\<exists>area r q. t = ''/api/'' @ area @ r @ q \<and> target_parts area r q)"
proof
  assume "rt_kind (matchRoute meth t cfg) = KApi"
  then show "isAllowedMethod meth \<and> (\<exists>area r q. t = ''/api/'' @ area @ r @ q \<and> target_parts area r q)"
    by (elim api_route_split) blast
next
  assume "isAllowedMethod meth \<and> (\<exists>area r q. t = ''/api/'' @ area @ r @ q \<and> target_parts area r q)"
  then obtain area r q where h: "isAllowedMethod meth" "t = ''/api/'' @ area @ r @ q" "target_parts area r q"
    by blast
  have a: "isApiArea area" "CHR ''/'' \<notin> set area" "CHR ''?'' \<notin> set area"
    using h(3) area_no_slash area_no_question by (auto simp: target_parts_def)
  have "path_and_query t = (''/api/'' @ area @ r, q)"
    using path_and_query_append[of "''/api/'' @ area @ r" q] a h by (simp add: target_parts_def)
  then show "rt_kind (matchRoute meth t cfg) = KApi"
    using a h area_of_rest[of area r] by (auto simp: matchRoute_def api_prefix_def substr_def target_parts_def)
qed

section \<open>Scopes\<close>

lemma hasScope_iff [route_lemmas]:
  "hasScope auth area s \<longleftrightarrow>
   ''admin'' \<in> set (auth_roles auth) \<or> s \<in> set (auth_permissions auth) \<or>
   (\<exists>p \<in> set (auth_permissions auth). prefix (granularPrefix area) p)"
  by (auto simp: hasScope_def list_ex_iff)

text \<open>A permission that speaks about one area only: \<^verbatim>\<open>area:...\<close> or the older singular form.\<close>

definition permission_of :: "string \<Rightarrow> string \<Rightarrow> bool" where
  "permission_of area p \<longleftrightarrow> prefix (area @ '':'') p \<or> prefix (granularPrefix area) p"

lemma word_of_permission:
  assumes "isApiArea a" "permission_of a p"
  obtains u r where "p = u @ CHR '':'' # r" "CHR '':'' \<notin> set u" "u = a \<or> granularPrefix a = u @ '':''"
  using assms granularPrefix_cases[OF assms(1)] area_no_colon[OF assms(1)]
  by (auto simp: permission_of_def prefix_def)

lemma area_words_table:
  "\<forall>a \<in> set apiAreas. \<forall>b \<in> set apiAreas. a \<noteq> b \<longrightarrow>
     {a, butlast (granularPrefix a)} \<inter> {b, butlast (granularPrefix b)} = {}"
  by (simp add: apiAreas_def granularPrefix_def)

lemma area_words_distinct:
  assumes "isApiArea a" "isApiArea b" "a \<noteq> b"
    and "u = a \<or> granularPrefix a = u @ '':''" "u = b \<or> granularPrefix b = u @ '':''"
  shows False
proof -
  have "u \<in> {a, butlast (granularPrefix a)}" "u \<in> {b, butlast (granularPrefix b)}"
    using assms(4,5) by auto
  then show False using area_words_table assms(1-3) unfolding isApiArea_iff by blast
qed

text \<open>C7:
  Scopes do not leak between areas: an identity that is no admin and whose permissions all speak about
  one area does not pass the check of a route to another area.
\<close>

theorem scopes_do_not_leak:
  assumes "isApiArea a" "''admin'' \<notin> set (auth_roles auth)"
    and "\<forall>p \<in> set (auth_permissions auth). permission_of a p"
    and "rt_kind (matchRoute meth t cfg) = KApi" "rt_area (matchRoute meth t cfg) \<noteq> a"
  shows "\<not> hasScope auth (rt_area (matchRoute meth t cfg)) (rt_requiredScope (matchRoute meth t cfg))"
proof
  let ?r = "matchRoute meth t cfg"
  assume "hasScope auth (rt_area ?r) (rt_requiredScope ?r)"
  then obtain p where p: "p \<in> set (auth_permissions auth)"
    and q: "p = rt_requiredScope ?r \<or> prefix (granularPrefix (rt_area ?r)) p"
    using assms(2) by (auto simp: hasScope_iff)
  have "isApiArea (rt_area ?r)" "prefix (rt_area ?r @ '':'') (rt_requiredScope ?r)"
    using assms(4) by (auto simp: matchRoute_def no_route_def Let_def prefix_def split: prod.splits if_splits)
  then have "isApiArea (rt_area ?r)" "permission_of (rt_area ?r) p"
    using q by (auto simp: permission_of_def)
  then obtain u r where u: "p = u @ CHR '':'' # r" "CHR '':'' \<notin> set u"
      "u = rt_area ?r \<or> granularPrefix (rt_area ?r) = u @ '':''" by (rule word_of_permission)
  obtain v s where v: "p = v @ CHR '':'' # s" "CHR '':'' \<notin> set v" "v = a \<or> granularPrefix a = v @ '':''"
    using assms(1,3) p by (meson word_of_permission)
  have "u = v" using u(1,2) v(1,2) by (metis colon_prefix_unique)
  with area_words_distinct[OF assms(1) \<open>isApiArea (rt_area ?r)\<close> assms(5)[symmetric] v(3)] u(3)
  show False by blast
qed

lemma scopes_do_not_leak_witness:
  "\<not> hasScope \<lparr> auth_ok = True, auth_sub = ''u'', auth_roles = [''teacher''],
      auth_permissions = [''tests:write'', ''test:quest:add''], auth_error = [] \<rparr>
    ''users'' ''users:read''"
proof -
  have "isApiArea ''tests''" "permission_of ''tests'' ''tests:write''" "permission_of ''tests'' ''test:quest:add''"
    by (simp_all add: isApiArea_def apiAreas_def permission_of_def granularPrefix_def)
  moreover have "matchRoute ''GET'' ''/api/users'' default_config =
    \<lparr> rt_kind = KApi, rt_area = ''users'', rt_upstreamBase = [], rt_forwardPath = ''/'',
      rt_requiredScope = ''users:read'' \<rparr>"
    by (simp add: matchRoute_def path_and_query_def isApiArea_def apiAreas_def api_prefix_def
        isAllowedMethod_def isReadMethod_def upstreamFor_def default_config_def)
  ultimately show ?thesis
    using scopes_do_not_leak[of "''tests''" "\<lparr> auth_ok = True, auth_sub = ''u'', auth_roles = [''teacher''],
      auth_permissions = [''tests:write'', ''test:quest:add''], auth_error = [] \<rparr>" "''GET''" "''/api/users''"
      default_config] by simp
qed

text \<open>More roles and permissions never take a scope away.\<close>

lemma hasScope_mono:
  "hasScope auth area s \<Longrightarrow> set (auth_roles auth) \<subseteq> set (auth_roles auth') \<Longrightarrow>
   set (auth_permissions auth) \<subseteq> set (auth_permissions auth') \<Longrightarrow> hasScope auth' area s"
  by (auto simp: hasScope_iff)

end
