(* ===== verification/Logger.thy ===== *)
theory Logger
  imports Prelude
begin

text \<open>
  The logger of \<^verbatim>\<open>Logger.h\<close>: the levels with the order of their numbers, the global level and
  the lines written to standard output. The wall clock rendered as text is an argument; the mutex
  makes every line one piece.
\<close>

section \<open>Levels\<close>

datatype log_level = Debug | Info | Warn | Error

fun level_number :: "log_level \<Rightarrow> nat" where
  "level_number Debug = 0"
| "level_number Info = 1"
| "level_number Warn = 2"
| "level_number Error = 3"

lemma level_number_inject [simp]: "level_number a = level_number b \<longleftrightarrow> a = b"
  by (cases a; cases b) auto

instantiation log_level :: linorder
begin

definition less_eq_log_level :: "log_level \<Rightarrow> log_level \<Rightarrow> bool" where
  "less_eq_log_level a b \<longleftrightarrow> level_number a \<le> level_number b"

definition less_log_level :: "log_level \<Rightarrow> log_level \<Rightarrow> bool" where
  "less_log_level a b \<longleftrightarrow> level_number a < level_number b"

instance
  by standard (auto simp: less_eq_log_level_def less_log_level_def)

end

text \<open>\<^verbatim>\<open>setLogLevel\<close>: the new value of the global level.\<close>

definition setLogLevel :: "string \<Rightarrow> log_level" where
  "setLogLevel name =
     (if name = ''debug'' then Debug
      else if name = ''warn'' \<or> name = ''warning'' then Warn
      else if name = ''error'' then Error
      else Info)"

fun levelName :: "log_level \<Rightarrow> string" where
  "levelName Debug = ''DEBUG''"
| "levelName Warn = ''WARN''"
| "levelName Error = ''ERROR''"
| "levelName Info = ''INFO''"

section \<open>Lines\<close>

text \<open>A call and the line it prints; \<open>None\<close> when the level is below the global one.\<close>

record log_call =
  log_lvl :: log_level
  log_conn :: int
  log_msg :: string

definition gwLog :: "log_level \<Rightarrow> string \<Rightarrow> log_call \<Rightarrow> string option" where
  "gwLog global stamp c =
     (if log_lvl c < global then None
      else if 0 \<le> log_conn c then
        Some (''['' @ stamp @ ''][''  @ levelName (log_lvl c) @ ''][conn='' @ int_to_string (log_conn c)
              @ ''] '' @ log_msg c @ [LF])
      else Some (''['' @ stamp @ ''][''  @ levelName (log_lvl c) @ ''] '' @ log_msg c @ [LF]))"

text \<open>The output of a run, each call with the clock text at its time.\<close>

fun log_output :: "log_level \<Rightarrow> (string \<times> log_call) list \<Rightarrow> string list" where
  "log_output global [] = []"
| "log_output global ((stamp, c) # cs) =
     (case gwLog global stamp c of
        None \<Rightarrow> log_output global cs
      | Some l \<Rightarrow> l # log_output global cs)"

lemma gwLog_None_iff: "gwLog g s c = None \<longleftrightarrow> log_lvl c < g"
  by (simp add: gwLog_def)

lemma log_output_filter:
  "log_output g cs = map (\<lambda>(s, c). the (gwLog g s c)) (filter (\<lambda>(s, c). g \<le> log_lvl c) cs)"
proof (induction cs)
  case (Cons x cs)
  then show ?case
    by (cases x) (cases "gwLog g (fst x) (snd x)"; auto simp: gwLog_None_iff not_less gwLog_def split: if_splits)
qed simp

text \<open>A line does not depend on the global level, as long as it is printed at all.\<close>

lemma gwLog_level: "g \<le> log_lvl c \<Longrightarrow> h \<le> log_lvl c \<Longrightarrow> gwLog g s c = gwLog h s c"
  by (auto simp: gwLog_def dest: leD)

lemma level_names_distinct: "levelName a = levelName b \<longleftrightarrow> a = b"
  by (cases a; cases b) auto

text \<open>
  A stricter log level only leaves lines out: what a run prints at the stricter level is what the same
  run prints at the laxer one, less the calls below the stricter level, in the same order.
\<close>

theorem stricter_level_drops_lines:
  assumes "setLogLevel lax \<le> setLogLevel strict"
  shows "log_output (setLogLevel strict) cs =
      log_output (setLogLevel lax) (filter (\<lambda>(s, c). setLogLevel strict \<le> log_lvl c) cs) \<and>
    subseq (log_output (setLogLevel strict) cs) (log_output (setLogLevel lax) cs)"
proof (induction cs)
  case (Cons x cs)
  let ?g = "setLogLevel strict" and ?h = "setLogLevel lax"
  obtain s c where x: "x = (s, c)" by (cases x)
  show ?case
  proof (cases "?g \<le> log_lvl c")
    case True
    with assms have "gwLog ?g s c = gwLog ?h s c" by (intro gwLog_level) auto
    moreover have "gwLog ?g s c \<noteq> None" using True by (simp add: gwLog_None_iff not_less)
    then obtain l where "gwLog ?g s c = Some l" by auto
    ultimately have "gwLog ?g s c = Some l" "gwLog ?h s c = Some l" by simp_all
    then show ?thesis using Cons True x by auto
  next
    case False
    then have "gwLog ?g s c = None" by (simp add: gwLog_None_iff not_le)
    with Cons False x show ?thesis by (auto split: option.splits)
  qed
qed simp

lemma stricter_level_drops_lines_witness:
  "log_output (setLogLevel ''warn'')
     [(''t'', \<lparr> log_lvl = Debug, log_conn = 1, log_msg = ''a'' \<rparr>), (''t'', \<lparr> log_lvl = Error, log_conn = 1, log_msg = ''b'' \<rparr>)] =
   log_output (setLogLevel ''debug'') [(''t'', \<lparr> log_lvl = Error, log_conn = 1, log_msg = ''b'' \<rparr>)]"
proof -
  have "setLogLevel ''debug'' \<le> setLogLevel ''warn''"
    by (simp add: setLogLevel_def less_eq_log_level_def)
  from stricter_level_drops_lines[OF this,
      of "[(''t'', \<lparr> log_lvl = Debug, log_conn = 1, log_msg = ''a'' \<rparr>), (''t'', \<lparr> log_lvl = Error, log_conn = 1, log_msg = ''b'' \<rparr>)]"]
  show ?thesis by (simp add: setLogLevel_def less_eq_log_level_def)
qed

end
