(* ===== verification/Net.thy ===== *)
theory Net
  imports Prelude "HOL-Library.Signed_Division"
begin

text \<open>
  What the gateway uses of sockets (\<^verbatim>\<open>NetCompat.h\<close>): the wrappers on both platforms, and the loop over
  \<^verbatim>\<open>send\<close>. The results of the system calls are parameters: a socket's \<^verbatim>\<open>send\<close> and \<^verbatim>\<open>recv\<close> are functions from the number of the
  call to its result. A positive result of \<^verbatim>\<open>recv\<close> carries at least one byte.
\<close>

section \<open>Results of the calls\<close>

datatype send_result = Sent nat | Send_error

datatype recv_result = Received char string | Recv_closed | Recv_error

type_synonym send_calls = "nat \<Rightarrow> nat \<Rightarrow> send_result"
type_synonym recv_calls = "nat \<Rightarrow> recv_result"

text \<open>POSIX: \<^verbatim>\<open>send\<close> takes at most the bytes it was given, \<^verbatim>\<open>recv\<close> fills at most the buffer.\<close>

definition send_calls_ok :: "send_calls \<Rightarrow> bool" where
  "send_calls_ok snd_call \<longleftrightarrow> (\<forall>i n m. snd_call i n = Sent m \<longrightarrow> m \<le> n)"

definition recv_calls_ok :: "nat \<Rightarrow> recv_calls \<Rightarrow> bool" where
  "recv_calls_ok size_buf rcv \<longleftrightarrow> (\<forall>i c s. rcv i = Received c s \<longrightarrow> length (c # s) \<le> size_buf)"

section \<open>Timeouts\<close>

record timeval =
  tv_sec :: int
  tv_usec :: int

text \<open>Milliseconds as seconds and microseconds, as \<^verbatim>\<open>set_recv_timeout\<close> splits them.\<close>

definition timeval_of_ms :: "int \<Rightarrow> timeval" where
  "timeval_of_ms ms = \<lparr> tv_sec = ms sdiv 1000, tv_usec = (ms smod 1000) * 1000 \<rparr>"

lemma timeval_of_ms_exact:
  "tv_sec (timeval_of_ms ms) * 1000000 + tv_usec (timeval_of_ms ms) = ms * 1000"
  using sdiv_mult_smod_eq[of ms 1000] unfolding timeval_of_ms_def by simp

lemma timeval_of_ms_normal:
  "0 \<le> ms \<Longrightarrow> 0 \<le> tv_usec (timeval_of_ms ms) \<and> tv_usec (timeval_of_ms ms) < 1000000"
  using pos_mod_bound[of 1000 ms] by (simp add: timeval_of_ms_def smod_mod_positive)

section \<open>The wrappers\<close>

text \<open>On POSIX a socket is a descriptor and -1 is invalid; on Windows a handle is an unsigned word and the
  invalid one is all ones. A closing is the list of handles given to the system.\<close>

definition posix_invalid_socket :: int where
  "posix_invalid_socket = -1"

definition posix_close_socket :: "int \<Rightarrow> int list" where
  "posix_close_socket s = (if s \<noteq> posix_invalid_socket then [s] else [])"

definition posix_net_init :: bool where
  "posix_net_init = True"

definition posix_set_recv_timeout :: "(int \<Rightarrow> timeval \<Rightarrow> int) \<Rightarrow> int \<Rightarrow> int \<Rightarrow> bool" where
  "posix_set_recv_timeout setsockopt s ms = (setsockopt s (timeval_of_ms ms) = 0)"

definition win_invalid_socket :: "64 word" where
  "win_invalid_socket = -1"

definition win_close_socket :: "64 word \<Rightarrow> 64 word list" where
  "win_close_socket s = (if s \<noteq> win_invalid_socket then [s] else [])"

text \<open>\<^verbatim>\<open>WSAStartup\<close> is asked for version 2.2.\<close>

definition win_net_init :: "(16 word \<Rightarrow> int) \<Rightarrow> bool" where
  "win_net_init WSAStartup = (WSAStartup 0x0202 = 0)"

text \<open>The timeout is a 32 bit number of milliseconds.\<close>

definition win_set_recv_timeout :: "(64 word \<Rightarrow> 32 word \<Rightarrow> int) \<Rightarrow> 64 word \<Rightarrow> int \<Rightarrow> bool" where
  "win_set_recv_timeout setsockopt s ms = (setsockopt s (word_of_int ms) = 0)"

text \<open>Both platforms set the same time, for every timeout that is not negative: a timeout of the
  configuration is one.\<close>

lemma same_timeout:
  assumes "0 \<le> ms" "ms < 2 ^ 31"
  shows "tv_sec (timeval_of_ms ms) * 1000000 + tv_usec (timeval_of_ms ms) = uint (word_of_int ms :: 32 word) * 1000"
  using assms by (simp add: timeval_of_ms_exact uint_word_of_int)

text \<open>The invalid handle is never given to the system, any other one exactly once.\<close>

lemma close_socket_guard:
  "set (posix_close_socket s) = {s} - {posix_invalid_socket}"
  "set (win_close_socket h) = {h} - {win_invalid_socket}"
  by (auto simp: posix_close_socket_def win_close_socket_def)

section \<open>Sending everything\<close>

text \<open>
  The loop over \<^verbatim>\<open>send\<close>: the result and the bytes that were taken. A zero result and an error both
  end it. Every other call shortens what is left.
\<close>

function sendAll :: "send_calls \<Rightarrow> nat \<Rightarrow> string \<Rightarrow> bool \<times> string" where
  "sendAll snd_call i s =
     (if s = [] then (True, [])
      else
        (case snd_call i (if 65536 < length s then 65536 else length s) of
           Send_error \<Rightarrow> (False, [])
         | Sent n \<Rightarrow>
             if n = 0 then (False, [])
             else (let (ok, rest) = sendAll snd_call (Suc i) (drop n s) in (ok, take n s @ rest))))"
  by pat_completeness auto

termination
  by (relation "measure (\<lambda>(snd_call, i, s). length s)") auto

declare sendAll.simps [simp del]

text \<open>The bytes sent are the first ones of the message, and all of them when it succeeds.\<close>

lemma sendAll_prefix: "prefix (snd (sendAll f i s)) s \<and> (fst (sendAll f i s) \<longrightarrow> snd (sendAll f i s) = s)"
proof (induction f i s rule: sendAll.induct)
  case (1 f i s)
  let ?chunk = "if 65536 < length s then 65536 else length s"
  show ?case
  proof (cases "s = [] \<or> f i ?chunk = Send_error \<or> f i ?chunk = Sent 0")
    case True
    then show ?thesis by (subst (1 2 3) sendAll.simps) auto
  next
    case False
    then obtain n where n: "s \<noteq> []" "f i ?chunk = Sent n" "n \<noteq> 0"
      by (cases "f i ?chunk") auto
    obtain ok r where r: "sendAll f (Suc i) (drop n s) = (ok, r)" by fastforce
    from n r have e: "sendAll f i s = (ok, take n s @ r)" by (subst sendAll.simps) simp
    from 1[OF n] r have "prefix r (drop n s)" "ok \<longrightarrow> r = drop n s" by simp_all
    moreover from this(1) have "prefix (take n s @ r) s"
      by (metis append_take_drop_id same_prefix_prefix)
    ultimately show ?thesis unfolding e by auto
  qed
qed

lemma sendAll_complete: "fst (sendAll f i s) \<Longrightarrow> snd (sendAll f i s) = s"
  using sendAll_prefix by blast

end
