(* ===== verification/Proxy.thy ===== *)
theory Proxy
  imports Http Net Router
begin

text \<open>
  The forward proxy of \<^verbatim>\<open>Proxy.h\<close> and \<^verbatim>\<open>Proxy.cpp\<close>: the upstream URL is split, the addresses of
  the host are tried in order, one request is written with the identity in \<^verbatim>\<open>x-auth-*\<close> headers, and
  the answer is read until the peer closes. Name resolution and the calls on the sockets are the
  record \<open>network\<close>; everything the code computes from their results is defined here.
\<close>

named_theorems proxy_lemmas \<open>facts about the forward proxy\<close>

section \<open>Text of the request\<close>

definition sanitizeHeaderValue :: "string \<Rightarrow> string" where
  "sanitizeHeaderValue v = map (\<lambda>c. if c = CR \<or> c = LF then CHR '' '' else c) v"

fun joinCsv :: "string list \<Rightarrow> string" where
  "joinCsv [] = []"
| "joinCsv [x] = sanitizeHeaderValue x"
| "joinCsv (x # y # xs) = sanitizeHeaderValue x @ '','' @ joinCsv (y # xs)"

record upstream_addr =
  up_ok :: bool
  up_host :: string
  up_port :: int
  up_prefix :: string
  up_error :: string

definition no_upstream :: upstream_addr where
  "no_upstream = \<lparr> up_ok = False, up_host = [], up_port = 80, up_prefix = [], up_error = [] \<rparr>"

text \<open>Trailing slashes are taken off as long as more than one character is left.\<close>

function trim_slashes :: "string \<Rightarrow> string" where
  "trim_slashes p =
     (if 1 < length p \<and> last p = CHR ''/'' then trim_slashes (butlast p) else p)"
  by pat_completeness auto

termination
  by (relation "measure length") auto

declare trim_slashes.simps [simp del]

text \<open>Host and port of the part before the first slash.\<close>

definition host_and_port :: "upstream_addr \<Rightarrow> string \<Rightarrow> upstream_addr" where
  "host_and_port a hostport =
     (case rfind_char (CHR '':'') hostport of
        None \<Rightarrow> a\<lparr> up_host := hostport, up_port := 80 \<rparr>
      | Some colon \<Rightarrow>
          (let b = a\<lparr> up_host := substr hostport 0 colon \<rparr>
           in case stoi (drop (colon + 1) hostport) of
                None \<Rightarrow> b\<lparr> up_error := ''bad port'' \<rparr>
              | Some port \<Rightarrow>
                  if port \<le> 0 \<or> 65535 < port
                  then b\<lparr> up_port := port, up_error := ''bad port'' \<rparr>
                  else b\<lparr> up_port := port \<rparr>))"

definition parseUpstream :: "string \<Rightarrow> upstream_addr" where
  "parseUpstream base =
     (if \<not> prefix ''http://'' base
      then no_upstream\<lparr> up_error := ''unsupported scheme (want http://)'' \<rparr>
      else
        (let rest = drop (length ''http://'') base;
             slash = find_char (CHR ''/'') rest;
             hostport = (case slash of None \<Rightarrow> rest | Some i \<Rightarrow> substr rest 0 i);
             pfx = (case slash of None \<Rightarrow> [] | Some i \<Rightarrow> drop i rest);
             a = host_and_port (no_upstream\<lparr> up_prefix := trim_slashes pfx \<rparr>) hostport
         in if up_error a \<noteq> [] then a
            else if up_host a = [] then a\<lparr> up_error := ''empty host'' \<rparr>
            else a\<lparr> up_ok := True \<rparr>))"

definition upstream_path :: "upstream_addr \<Rightarrow> string \<Rightarrow> string" where
  "upstream_path up forwardPath =
     (let p = up_prefix up @ forwardPath
      in if p = [] \<or> hd p \<noteq> CHR ''/'' then ''/'' @ p else p)"

definition request_wire :: "upstream_addr \<Rightarrow> http_request \<Rightarrow> string \<Rightarrow> auth_info \<Rightarrow> string" where
  "request_wire up req forwardPath auth =
     req_method req @ '' '' @ upstream_path up forwardPath @ '' HTTP/1.1'' @ crlf
     @ ''host: '' @ sanitizeHeaderValue (up_host up) @ crlf
     @ (let ctype = header req ''content-type''
        in if ctype \<noteq> [] then ''content-type: '' @ sanitizeHeaderValue ctype @ crlf else [])
     @ ''content-length: '' @ to_string (length (req_body req)) @ crlf
     @ ''x-forwarded-for: '' @ sanitizeHeaderValue (req_clientIp req) @ crlf
     @ (if auth_sub auth \<noteq> [] then ''x-auth-sub: '' @ sanitizeHeaderValue (auth_sub auth) @ crlf else [])
     @ (if auth_roles auth \<noteq> [] then ''x-auth-roles: '' @ joinCsv (auth_roles auth) @ crlf else [])
     @ (if auth_permissions auth \<noteq> []
        then ''x-auth-scopes: '' @ joinCsv (auth_permissions auth) @ crlf else [])
     @ ''connection: close'' @ crlf2
     @ req_body req"

section \<open>Connecting\<close>

text \<open>Results of the calls on one socket: \<^verbatim>\<open>fcntl\<close> twice, \<^verbatim>\<open>connect\<close> with its \<^verbatim>\<open>errno\<close>,
  \<^verbatim>\<open>select\<close>, \<^verbatim>\<open>getsockopt\<close> and the error it reports.\<close>

record connect_calls =
  fcntl_getfl :: int
  fcntl_setfl :: int
  connect_rc :: int
  in_progress :: bool
  select_rc :: int
  getsockopt_rc :: int
  so_error :: int

text \<open>The result and the flag \<open>timedOut\<close>.\<close>

definition connectWithTimeout :: "connect_calls \<Rightarrow> bool \<times> bool" where
  "connectWithTimeout c =
     (if fcntl_getfl c < 0 then (False, False)
      else if fcntl_setfl c < 0 then (False, False)
      else if connect_rc c = 0 then (True, False)
      else if \<not> in_progress c then (False, False)
      else if select_rc c = 0 then (False, True)
      else if select_rc c < 0 then (False, False)
      else if getsockopt_rc c \<noteq> 0 then (False, False)
      else if so_error c \<noteq> 0 then (False, False)
      else (True, False))"

record 'a network =
  net_resolve :: "string \<Rightarrow> string \<Rightarrow> 'a list option"
  net_socket :: "'a \<Rightarrow> bool"
  net_connect :: "'a \<Rightarrow> timeval \<Rightarrow> connect_calls"
  net_send :: "'a \<Rightarrow> timeval \<Rightarrow> send_calls"
  net_recv :: "'a \<Rightarrow> timeval \<Rightarrow> recv_calls"

text \<open>The addresses in turn: the one connected to, if any, and the last value of \<open>timedOut\<close>.\<close>

fun connect_first :: "'a network \<Rightarrow> int \<Rightarrow> 'a list \<Rightarrow> bool \<Rightarrow> 'a option \<times> bool" where
  "connect_first net timeoutMs [] timedOut = (None, timedOut)"
| "connect_first net timeoutMs (ai # ais) timedOut =
     (if \<not> net_socket net ai then connect_first net timeoutMs ais timedOut
      else
        (case connectWithTimeout (net_connect net ai (timeval_of_ms timeoutMs)) of
           (True, t) \<Rightarrow> (Some ai, t)
         | (False, t) \<Rightarrow> if t then (None, t) else connect_first net timeoutMs ais t))"

section \<open>The answer\<close>

record proxy_result =
  pr_ok :: bool
  pr_status :: int
  pr_contentType :: string
  pr_body :: string
  pr_error :: string
  pr_timedOut :: bool

definition new_proxy_result :: proxy_result where
  "new_proxy_result =
     \<lparr> pr_ok = False, pr_status = 502, pr_contentType = [], pr_body = [], pr_error = [],
       pr_timedOut = False \<rparr>"

definition proxy_error :: "string \<Rightarrow> proxy_result" where
  "proxy_error e = new_proxy_result\<lparr> pr_error := e \<rparr>"

text \<open>The receive loop: the bytes read, and whether it ended by an error of \<^verbatim>\<open>recv\<close>.\<close>

function receive_all :: "recv_calls \<Rightarrow> nat \<Rightarrow> string \<Rightarrow> string \<times> bool" where
  "receive_all rcv i raw =
     (if length raw < kMaxUpstreamBytes then
        (case rcv i of
           Recv_closed \<Rightarrow> (raw, False)
         | Recv_error \<Rightarrow> (raw, True)
         | Received c s \<Rightarrow> receive_all rcv (Suc i) (raw @ c # s))
      else (raw, False))"
  by pat_completeness auto

termination
  by (relation "measure (\<lambda>(rcv, i, raw). kMaxUpstreamBytes - length raw)") auto

declare receive_all.simps [simp del]

definition status_code :: "string \<Rightarrow> int" where
  "status_code statusLine =
     (case find_char (CHR '' '') statusLine of
        None \<Rightarrow> 0
      | Some sp1 \<Rightarrow>
          (let codeStr = (case find_from '' '' statusLine (sp1 + 1) of
                            None \<Rightarrow> drop (sp1 + 1) statusLine
                          | Some sp2 \<Rightarrow> substr statusLine (sp1 + 1) (sp2 - sp1 - 1))
           in (case stoi codeStr of None \<Rightarrow> 0 | Some code \<Rightarrow> code)))"

definition content_type_key :: string where
  "content_type_key = crlf @ ''content-type:''"

text \<open>The value of the first content type line, blanks trimmed; empty when there is none.\<close>

definition upstream_type :: "string \<Rightarrow> string" where
  "upstream_type head =
     (let lower = toLower head
      in (case find_str content_type_key lower of
            None \<Rightarrow> []
          | Some pos \<Rightarrow>
              (let vs = pos + length content_type_key;
                   val = (case find_from crlf lower vs of
                            None \<Rightarrow> drop vs head
                          | Some ve \<Rightarrow> substr head vs (ve - vs))
               in trimStr val)))"

definition parse_answer :: "string \<Rightarrow> proxy_result" where
  "parse_answer raw =
     (case find_str crlf2 raw of
        None \<Rightarrow> proxy_error ''bad upstream response''
      | Some eoh \<Rightarrow>
          (let head = substr raw 0 eoh;
               statusLine = (case find_str crlf head of None \<Rightarrow> head | Some eol \<Rightarrow> substr head 0 eol);
               code = status_code statusLine
           in if code < 100 \<or> 599 < code then proxy_error ''bad upstream status''
              else
                (let upType = upstream_type head
                 in \<lparr> pr_ok = True, pr_status = code,
                      pr_contentType = (if upType = [] then ''application/octet-stream'' else upType),
                      pr_body = drop (eoh + 4) raw, pr_error = [], pr_timedOut = False \<rparr>)))"

text \<open>One exchange on the connected socket: the result and the bytes of the request that were sent.\<close>

definition exchange :: "send_calls \<Rightarrow> recv_calls \<Rightarrow> string \<Rightarrow> proxy_result \<times> string" where
  "exchange snd_call rcv wire =
     (let (sentOk, bytes) = sendAll snd_call 0 wire;
          (raw, recvFail) = (if sentOk then receive_all rcv 0 [] else ([], False))
      in if sentOk \<and> kMaxUpstreamBytes \<le> length raw
         then (proxy_error ''upstream response too large'', bytes)
         else if \<not> sentOk \<or> recvFail \<or> raw = [] then (proxy_error ''upstream io failed'', bytes)
         else (parse_answer raw, bytes))"

text \<open>The result, and the address with the bytes it was sent when a connection was made.\<close>

definition forwardRequest ::
  "'a network \<Rightarrow> string \<Rightarrow> http_request \<Rightarrow> string \<Rightarrow> auth_info \<Rightarrow> int
   \<Rightarrow> proxy_result \<times> ('a \<times> string) option" where
  "forwardRequest net upstreamBase req forwardPath auth timeoutMs =
     (let up = parseUpstream upstreamBase
      in if \<not> up_ok up then (proxy_error (''bad upstream url: '' @ up_error up), None)
         else
           (case net_resolve net (takeWhile (\<lambda>c. c \<noteq> CHR 0x00) (up_host up)) (int_to_string (up_port up)) of
              None \<Rightarrow> (proxy_error ''dns resolve failed'', None)
            | Some [] \<Rightarrow> (proxy_error ''dns resolve failed'', None)
            | Some (ai # ais) \<Rightarrow>
                (case connect_first net timeoutMs (ai # ais) False of
                   (None, timedOut) \<Rightarrow>
                     ((proxy_error (if timedOut then ''connect timeout'' else ''connect failed''))
                        \<lparr> pr_timedOut := timedOut \<rparr>, None)
                 | (Some s, _) \<Rightarrow>
                     (let tv = timeval_of_ms timeoutMs;
                          (pr, bytes) = exchange (net_send net s tv) (net_recv net s tv)
                                          (request_wire up req forwardPath auth)
                      in (pr, Some (s, bytes))))))"

section \<open>The request on the wire\<close>

lemma sanitize_no_line_end [proxy_lemmas]:
  "CR \<notin> set (sanitizeHeaderValue v)" "LF \<notin> set (sanitizeHeaderValue v)"
  by (auto simp: sanitizeHeaderValue_def)

lemma sanitize_id [proxy_lemmas]: "CR \<notin> set v \<Longrightarrow> LF \<notin> set v \<Longrightarrow> sanitizeHeaderValue v = v"
  by (auto simp: sanitizeHeaderValue_def intro: map_idI)

lemma joinCsv_no_line_end [proxy_lemmas]: "CR \<notin> set (joinCsv vs)" "LF \<notin> set (joinCsv vs)"
  by (induction vs rule: joinCsv.induct) (auto simp: sanitize_no_line_end)

text \<open>The fields a request is forwarded with, in their order.\<close>

definition forwarded_fields :: "upstream_addr \<Rightarrow> http_request \<Rightarrow> auth_info \<Rightarrow> (string \<times> string) list" where
  "forwarded_fields up req auth =
     [(''host'', sanitizeHeaderValue (up_host up))]
     @ (if header req ''content-type'' \<noteq> []
        then [(''content-type'', sanitizeHeaderValue (header req ''content-type''))] else [])
     @ [(''content-length'', to_string (length (req_body req))),
        (''x-forwarded-for'', sanitizeHeaderValue (req_clientIp req))]
     @ (if auth_sub auth \<noteq> [] then [(''x-auth-sub'', sanitizeHeaderValue (auth_sub auth))] else [])
     @ (if auth_roles auth \<noteq> [] then [(''x-auth-roles'', joinCsv (auth_roles auth))] else [])
     @ (if auth_permissions auth \<noteq> [] then [(''x-auth-scopes'', joinCsv (auth_permissions auth))] else [])
     @ [(''connection'', ''close'')]"

definition forwarded_lines ::
  "upstream_addr \<Rightarrow> http_request \<Rightarrow> string \<Rightarrow> auth_info \<Rightarrow> string list" where
  "forwarded_lines up req forwardPath auth =
     request_line (req_method req) (upstream_path up forwardPath) ''HTTP/1.1''
     # map field_line (forwarded_fields up req auth)"

lemma request_wire_lines:
  "request_wire up req fp auth = head_lines (forwarded_lines up req fp auth) @ crlf @ req_body req"
  by (simp add: request_wire_def forwarded_lines_def forwarded_fields_def request_line_def field_line_def Let_def)

lemma to_string_no_LF: "LF \<notin> set (to_string n)"
  using to_string_digits[of n] by (auto simp: is_digit_def byte_def)

lemma forwarded_fields_clean:
  "kv \<in> set (forwarded_fields up req auth) \<Longrightarrow> CR \<notin> set (field_line kv) \<and> LF \<notin> set (field_line kv)"
  by (auto simp: forwarded_fields_def field_line_def sanitize_no_line_end joinCsv_no_line_end
      to_string_no_CR to_string_no_LF split: if_splits)

text \<open>C8:
  Nothing a client or a token puts into a value can add a header line to the forwarded request: its
  head is the request line and the fixed list of fields, no line of which contains a line end; the
  first empty line is the one before the body, and the client's credentials are not among the fields.
\<close>

theorem wire_no_injection:
  assumes "CR \<notin> set (req_method req)" "CR \<notin> set (up_prefix up)" "CR \<notin> set forwardPath"
  shows "request_wire up req forwardPath auth =
      head_lines (forwarded_lines up req forwardPath auth) @ crlf @ req_body req \<and>
    find_str crlf2 (request_wire up req forwardPath auth) =
      Some (length (head_lines (forwarded_lines up req forwardPath auth)) - 2) \<and>
    list_all (\<lambda>l. CR \<notin> set l) (forwarded_lines up req forwardPath auth) \<and>
    list_all (\<lambda>kv. LF \<notin> set (field_line kv)) (forwarded_fields up req auth) \<and>
    map_of (forwarded_fields up req auth) ''authorization'' = None"
proof -
  have "CR \<notin> set (upstream_path up forwardPath)"
    using assms(2,3) by (auto simp: upstream_path_def Let_def)
  then have ok: "list_all line_ok (forwarded_lines up req forwardPath auth)"
    using assms(1) forwarded_fields_clean
    by (fastforce simp: forwarded_lines_def list_all_iff line_ok_def request_line_def field_line_def)
  have ne: "forwarded_lines up req forwardPath auth \<noteq> []" by (simp add: forwarded_lines_def)
  have "list_all (\<lambda>l. CR \<notin> set l) (forwarded_lines up req forwardPath auth)"
    using ok by (auto simp: list_all_iff line_ok_def)
  moreover have "list_all (\<lambda>kv. LF \<notin> set (field_line kv)) (forwarded_fields up req auth)"
    using forwarded_fields_clean by (auto simp: list_all_iff)
  moreover have "map_of (forwarded_fields up req auth) ''authorization'' = None"
    by (simp add: forwarded_fields_def)
  ultimately show ?thesis
    using find_crlf2_head_lines[OF ne ok] unfolding request_wire_lines by simp
qed

lemma wire_no_injection_witness:
  "\<exists>ls. request_wire (parseUpstream ''http://users:8081'') sample_request ''/5''
      \<lparr> auth_ok = True, auth_sub = ''u'' @ crlf @ ''x-auth-roles: admin'', auth_roles = [],
        auth_permissions = [], auth_error = [] \<rparr> = head_lines ls @ crlf \<and>
    list_all (\<lambda>l. CR \<notin> set l) ls"
proof -
  have "CR \<notin> set (req_method sample_request)" "CR \<notin> set (up_prefix (parseUpstream ''http://users:8081''))"
    "CR \<notin> set ''/5''" "req_body sample_request = []"
    by (simp_all add: sample_request_def) code_simp
  then show ?thesis
    using wire_no_injection[of sample_request "parseUpstream ''http://users:8081''" "''/5''"
        "\<lparr> auth_ok = True, auth_sub = ''u'' @ crlf @ ''x-auth-roles: admin'', auth_roles = [],
           auth_permissions = [], auth_error = [] \<rparr>"] by auto
qed

section \<open>Which address is used\<close>

abbreviation connects :: "'a network \<Rightarrow> int \<Rightarrow> 'a \<Rightarrow> bool \<times> bool" where
  "connects net ms ai \<equiv> connectWithTimeout (net_connect net ai (timeval_of_ms ms))"

lemma connectWithTimeout_excl: "connectWithTimeout c \<noteq> (True, True)"
  by (simp add: connectWithTimeout_def)

text \<open>An address that cannot be used, without a timeout.\<close>

definition unusable :: "'a network \<Rightarrow> int \<Rightarrow> 'a \<Rightarrow> bool" where
  "unusable net ms ai \<longleftrightarrow> net_socket net ai \<longrightarrow> connects net ms ai = (False, False)"

lemma connect_first_unusable:
  "list_all (unusable net ms) pre \<Longrightarrow> connect_first net ms (pre @ ais) False = connect_first net ms ais False"
  by (induction pre) (auto simp: unusable_def)

lemma connect_first_Some:
  "connect_first net ms ais t = (Some s, t') \<Longrightarrow>
   \<exists>pre post. ais = pre @ s # post \<and> list_all (unusable net ms) pre \<and> net_socket net s \<and>
     connects net ms s = (True, False)"
proof (induction ais arbitrary: t)
  case (Cons a ais)
  show ?case
  proof (cases "net_socket net a \<and> fst (connects net ms a)")
    case True
    then have "connects net ms a = (True, False)"
      using connectWithTimeout_excl by (cases "connects net ms a") (metis (full_types) fst_conv)
    with True Cons.prems have "a = s" by simp
    then show ?thesis using True \<open>connects net ms a = (True, False)\<close>
      by (intro exI[of _ "[]"] exI[of _ ais]) simp
  next
    case False
    then have u: "unusable net ms a" "\<exists>t. connect_first net ms ais t = (Some s, t')"
      using Cons.prems by (auto simp: unusable_def split: prod.splits bool.splits if_splits)
    then obtain pre post where "ais = pre @ s # post" "list_all (unusable net ms) pre"
      "net_socket net s" "connects net ms s = (True, False)" using Cons.IH by blast
    then show ?thesis using u by (intro exI[of _ "a # pre"] exI[of _ post]) simp
  qed
qed simp

section \<open>Results of a forwarded request\<close>

lemma proxy_error_simps [simp]:
  "pr_ok (proxy_error e) = False" "pr_status (proxy_error e) = 502" "pr_body (proxy_error e) = []"
  "pr_error (proxy_error e) = e" "pr_timedOut (proxy_error e) = False" "pr_contentType (proxy_error e) = []"
  by (simp_all add: proxy_error_def new_proxy_result_def)

definition proxy_result_ok :: "proxy_result \<Rightarrow> bool" where
  "proxy_result_ok pr \<longleftrightarrow>
     (if pr_ok pr
      then 100 \<le> pr_status pr \<and> pr_status pr \<le> 599 \<and> pr_contentType pr \<noteq> [] \<and>
        length (pr_body pr) < kMaxUpstreamBytes \<and> pr_error pr = [] \<and> \<not> pr_timedOut pr
      else pr_status pr = 502 \<and> pr_body pr = [] \<and> pr_contentType pr = [] \<and> pr_error pr \<noteq> [])"

lemma proxy_result_ok_error [simp]: "proxy_result_ok (proxy_error e) \<longleftrightarrow> e \<noteq> []"
  by (simp add: proxy_result_ok_def)

lemma parse_answer_ok: "length raw < kMaxUpstreamBytes \<Longrightarrow> proxy_result_ok (parse_answer raw)"
  by (auto simp: parse_answer_def proxy_result_ok_def Let_def split: option.splits)

lemma exchange_result_ok: "proxy_result_ok (fst (exchange snd_call rcv wire))"
  by (auto simp: exchange_def not_le split: prod.splits intro: parse_answer_ok)

lemma exchange_not_timed_out: "\<not> pr_timedOut (fst (exchange snd_call rcv wire))"
  by (auto simp: exchange_def parse_answer_def Let_def split: prod.splits option.splits)

lemma exchange_pair: "exchange snd_call rcv wire = (p, b) \<Longrightarrow> proxy_result_ok p"
  using exchange_result_ok by (metis fst_conv)

lemma exchange_pair_time: "exchange snd_call rcv wire = (p, b) \<Longrightarrow> \<not> pr_timedOut p"
  using exchange_not_timed_out by (metis fst_conv)

text \<open>
  Whatever the network does, a result of the proxy is either an answer with a status from 100 to 599, a
  content type and less than 4 MiB of body, or an error with status 502, an empty body and a reason.
\<close>

theorem forwardRequest_result_ok:
  "proxy_result_ok (fst (forwardRequest net base req forwardPath auth timeoutMs))"
proof -
  have "proxy_result_ok ((proxy_error e)\<lparr> pr_timedOut := t \<rparr>)" if "e \<noteq> []" for e t
    using that by (simp add: proxy_result_ok_def)
  then show ?thesis
    by (auto simp: forwardRequest_def Let_def simp del: connect_first.simps
        split: option.splits list.splits prod.splits dest: exchange_pair)
qed

text \<open>
  Only the connection phase can time out: a result carries the timeout mark exactly when the upstream
  address is valid, its host resolves, and trying the addresses ends with a timeout. An upstream that
  accepts and then stays silent gives an error without the mark.
\<close>

theorem timed_out_iff:
  "pr_timedOut (fst (forwardRequest net base req forwardPath auth timeoutMs)) \<longleftrightarrow>
   up_ok (parseUpstream base) \<and>
   (case net_resolve net (takeWhile (\<lambda>c. c \<noteq> CHR 0x00) (up_host (parseUpstream base)))
           (int_to_string (up_port (parseUpstream base))) of
      None \<Rightarrow> False
    | Some ais \<Rightarrow> connect_first net timeoutMs ais False = (None, True))"
  using exchange_not_timed_out
  by (auto simp: forwardRequest_def Let_def simp del: connect_first.simps(2)
      split: option.splits list.splits prod.splits dest: exchange_pair_time)

section \<open>Relaying an answer\<close>

text \<open>A peer that sends the pieces in turn and then closes.\<close>

definition recv_script :: "string list \<Rightarrow> recv_calls" where
  "recv_script cs i =
     (if i < length cs then (case cs ! i of [] \<Rightarrow> Recv_closed | c # s \<Rightarrow> Received c s) else Recv_closed)"

lemma receive_all_script:
  "[] \<notin> set cs \<Longrightarrow> length raw + length (concat (drop i cs)) < kMaxUpstreamBytes \<Longrightarrow> i \<le> length cs \<Longrightarrow>
   receive_all (recv_script cs) i raw = (raw @ concat (drop i cs), False)"
proof (induction "length cs - i" arbitrary: i raw)
  case 0
  then show ?case by (subst receive_all.simps) (simp add: recv_script_def)
next
  case (Suc n)
  then have i: "i < length cs" by simp
  then have d: "drop i cs = cs ! i # drop (Suc i) cs" by (simp add: Cons_nth_drop_Suc)
  have "cs ! i \<noteq> []" using Suc.prems(1) i by (metis nth_mem)
  then obtain c s where cs: "cs ! i = c # s" by (cases "cs ! i") auto
  have "receive_all (recv_script cs) (Suc i) (raw @ c # s) = ((raw @ c # s) @ concat (drop (Suc i) cs), False)"
    using Suc i d cs by (intro Suc.hyps(1)) auto
  then show ?case using i d cs Suc.prems by (subst receive_all.simps) (simp add: recv_script_def)
qed

lemma find_cr_skip:
  "CR \<notin> set l \<Longrightarrow> find_str (CR # p) (l @ s) = map_option (\<lambda>i. length l + i) (find_str (CR # p) s)"
proof (induction l)
  case Nil
  then show ?case by (simp add: option.map_ident)
next
  case (Cons c l)
  then show ?case by (cases "find_str (CR # p) s") auto
qed

lemma lower_char_CR [simp]: "lower_char c = CR \<longleftrightarrow> c = CR"
  by (auto simp: lower_char_def is_upper_def byte_def of_char_def char_of_def split: if_splits)

lemma CR_lower_char [simp]: "CR = lower_char c \<longleftrightarrow> c = CR"
  by (subst eq_commute) simp

lemma toLower_append: "toLower (s @ t) = toLower s @ toLower t"
  by (simp add: toLower_def)

lemma CR_toLower [simp]: "CR \<in> set (toLower s) \<longleftrightarrow> CR \<in> set s"
  by (induction s) (auto simp: toLower_def)

lemma length_toLower [simp]: "length (toLower s) = length s"
  by (simp add: toLower_def)

lemma sp_notin_digits: "CHR '' '' \<notin> set (to_string n)"
  using to_string_digits[of n] by (auto simp: is_digit_def byte_def)

lemma status_code_line:
  assumes "CHR '' '' \<notin> set version" and "r = [] \<or> hd r = CHR '' ''" and "n < 2 ^ 31"
  shows "status_code (version @ '' '' @ to_string n @ r) = int n"
proof -
  have sp: "CHR '' '' \<notin> set (to_string n)" by (rule sp_notin_digits)
  let ?s = "version @ '' '' @ to_string n @ r"
  have first: "find_char (CHR '' '') ?s = Some (length version)"
    using find_char_append_notin[OF assms(1), of "to_string n @ r"] by simp
  have d: "drop (length version + 1) ?s = to_string n @ r" by simp
  have n: "stoi (to_string n) = Some (int n)"
    using stoi_int_to_string[of "int n"] assms(3) by (simp add: int_to_string_def)
  show ?thesis
  proof (cases r)
    case Nil
    have "find_from '' '' ?s (length version + 1) = None"
      using sp find_char_None_iff[of "CHR '' ''" "to_string n"] by (simp add: find_from_def find_char_def Nil)
    then show ?thesis unfolding status_code_def first option.case d using n Nil by simp
  next
    case (Cons c r')
    then have r: "r = CHR '' '' # r'" using assms(2) by simp
    have "find_from '' '' ?s (length version + 1) = Some (length version + 1 + length (to_string n))"
      using find_char_append_notin[OF sp, of r'] by (simp add: find_from_def find_char_def r)
    moreover have "substr ?s (length version + 1) (length (to_string n)) = to_string n" by (simp add: substr_def)
    ultimately show ?thesis unfolding status_code_def first option.case d using n by simp
  qed
qed

text \<open>
  An answer as HTTP describes it: a status line, fields one to a line, an empty line, the body. The name
  of a field is read in any case, and blanks around its value do not count. The type of the body is the
  value of the first field that is a content type, and the default when there is none or it is blank.
\<close>

definition http_answer :: "string \<Rightarrow> nat \<Rightarrow> string \<Rightarrow> string list \<Rightarrow> string \<Rightarrow> string" where
  "http_answer version code reason hs body =
     head_lines ((version @ '' '' @ to_string code @ reason) # hs) @ crlf @ body"

definition answer_ok :: "string \<Rightarrow> nat \<Rightarrow> string \<Rightarrow> string list \<Rightarrow> bool" where
  "answer_ok version code reason hs \<longleftrightarrow>
     CHR '' '' \<notin> set version \<and> CR \<notin> set version \<and> 100 \<le> code \<and> code \<le> 599 \<and>
     (reason = [] \<or> hd reason = CHR '' '') \<and> CR \<notin> set reason \<and> list_all line_ok hs"

definition field_named :: "string \<Rightarrow> string \<Rightarrow> bool" where
  "field_named name l \<longleftrightarrow> CHR '':'' \<in> set l \<and> toLower (takeWhile (\<lambda>c. c \<noteq> CHR '':'') l) = name"

definition field_value :: "string \<Rightarrow> string" where
  "field_value l = trimStr (tl (dropWhile (\<lambda>c. c \<noteq> CHR '':'') l))"

definition announced_type :: "string list \<Rightarrow> string" where
  "announced_type hs =
     (case find (field_named ''content-type'') hs of
        None \<Rightarrow> ''application/octet-stream''
      | Some l \<Rightarrow> if field_value l = [] then ''application/octet-stream'' else field_value l)"

text \<open>The lines of the head behind the first one, each after the line end of the one before.\<close>

definition tail_lines :: "string list \<Rightarrow> string" where
  "tail_lines ls = concat (map (\<lambda>l. crlf @ l) ls)"

lemma head_lines_tail: "head_lines (l # ls) = l @ tail_lines ls @ crlf"
  by (induction ls arbitrary: l) (simp_all add: head_lines_def tail_lines_def)

lemma lower_char_colon [simp]: "lower_char c = CHR '':'' \<longleftrightarrow> c = CHR '':''" "CHR '':'' = lower_char c \<longleftrightarrow> c = CHR '':''"
proof -
  have "\<not> is_upper c" if "lower_char c = CHR '':''"
    using arg_cong[OF that, of byte] by (auto simp: lower_char_def is_upper_def byte_char_of byte_def)
  then show "lower_char c = CHR '':'' \<longleftrightarrow> c = CHR '':''"
    by (auto simp: lower_char_def) (simp add: is_upper_def byte_def)
  then show "CHR '':'' = lower_char c \<longleftrightarrow> c = CHR '':''" by metis
qed

lemma prefix_colon:
  "CHR '':'' \<notin> set k \<Longrightarrow> prefix (k @ '':'') l \<longleftrightarrow> CHR '':'' \<in> set l \<and> takeWhile (\<lambda>c. c \<noteq> CHR '':'') l = k"
proof (induction k arbitrary: l)
  case Nil
  then show ?case by (cases l) auto
next
  case (Cons c k)
  then show ?case by (cases l) auto
qed

lemma toLower_takeWhile_colon:
  "takeWhile (\<lambda>c. c \<noteq> CHR '':'') (toLower l) = toLower (takeWhile (\<lambda>c. c \<noteq> CHR '':'') l)"
  by (induction l) (auto simp: toLower_def)

lemma colon_toLower [simp]: "CHR '':'' \<in> set (toLower l) \<longleftrightarrow> CHR '':'' \<in> set l"
  by (induction l) (auto simp: toLower_def)

lemma content_type_field: "prefix ''content-type:'' (toLower l) \<longleftrightarrow> field_named ''content-type'' l"
  using prefix_colon[of "''content-type''" "toLower l"] by (simp add: field_named_def toLower_takeWhile_colon)

lemma field_named_value:
  assumes "field_named ''content-type'' l"
  shows "field_value l = trimStr (drop 13 l)"
proof -
  have l: "l = takeWhile (\<lambda>c. c \<noteq> CHR '':'') l @ dropWhile (\<lambda>c. c \<noteq> CHR '':'') l" by simp
  have "length (takeWhile (\<lambda>c. c \<noteq> CHR '':'') l) = length (toLower (takeWhile (\<lambda>c. c \<noteq> CHR '':'') l))" by simp
  also have "\<dots> = 12" using assms by (simp add: field_named_def)
  finally have "dropWhile (\<lambda>c. c \<noteq> CHR '':'') l = drop 12 l" by (metis append_eq_conv_conj l)
  then show ?thesis by (simp add: field_value_def drop_Suc tl_drop numeral_eq_Suc)
qed

text \<open>The search for the key finds the first line that starts with it.\<close>

lemma find_key_step:
  assumes "CR \<notin> set x" "CR \<notin> set p"
  shows "find_str (CR # LF # p) (x @ tail_lines []) = None"
    and "CR \<notin> set l \<Longrightarrow> find_str (CR # LF # p) (x @ tail_lines (l # ls)) =
      (if prefix p l then Some (length x)
       else map_option (\<lambda>i. length x + 2 + i) (find_str (CR # LF # p) (l @ tail_lines ls)))"
proof -
  have "find_str (CR # q) x = None" for q using assms(1) find_cr_skip[of x q "[]"] by simp
  then show "find_str (CR # LF # p) (x @ tail_lines []) = None" by (simp add: tail_lines_def)
  assume l: "CR \<notin> set l"
  have "prefix p (l @ tail_lines ls) \<longleftrightarrow> prefix p l"
    using assms(2) by (cases ls) (auto simp: tail_lines_def prefix_append prefix_Cons)
  moreover have "find_str (CR # LF # p) (LF # l @ tail_lines ls) = map_option Suc (find_str (CR # LF # p) (l @ tail_lines ls))"
    by simp
  ultimately show "find_str (CR # LF # p) (x @ tail_lines (l # ls)) =
      (if prefix p l then Some (length x)
       else map_option (\<lambda>i. length x + 2 + i) (find_str (CR # LF # p) (l @ tail_lines ls)))"
    using find_cr_skip[OF assms(1), of "LF # p" "CR # LF # l @ tail_lines ls"]
    by (cases "find_str (CR # LF # p) (l @ tail_lines ls)") (simp_all add: tail_lines_def)
qed

lemma find_key:
  assumes "CR \<notin> set p"
  shows "CR \<notin> set x \<Longrightarrow> \<forall>l \<in> set ls. CR \<notin> set l \<and> \<not> prefix p l \<Longrightarrow> find_str (CR # LF # p) (x @ tail_lines ls) = None"
    and "CR \<notin> set x \<Longrightarrow> \<forall>l \<in> set ls. CR \<notin> set l \<and> \<not> prefix p l \<Longrightarrow> CR \<notin> set k \<Longrightarrow> prefix p k \<Longrightarrow>
      find_str (CR # LF # p) (x @ tail_lines (ls @ k # ms)) = Some (length (x @ tail_lines ls))"
proof (induction ls arbitrary: x)
  case Nil
  { case 1 then show ?case using find_key_step(1)[OF _ assms] by simp
  next case 2 then show ?case using find_key_step(2)[OF _ assms] by (simp add: tail_lines_def) }
next
  case (Cons l ls)
  { case 1 then show ?case using find_key_step(2)[OF _ assms, of x l ls] Cons.IH(1)[of l] by simp
  next case 2
    then show ?case using find_key_step(2)[OF _ assms, of x l "ls @ k # ms"] Cons.IH(2)[of l] by (simp add: tail_lines_def) }
qed

lemma find_split: "find P xs = Some x \<Longrightarrow> \<exists>ys zs. xs = ys @ x # zs \<and> P x \<and> (\<forall>y \<in> set ys. \<not> P y)"
proof (induction xs)
  case (Cons a xs)
  then show ?case
    by (cases "P a") (auto intro: exI[of _ "[]"], metis Cons_eq_appendI set_ConsD)
qed simp

lemma toLower_tail_lines: "toLower (tail_lines ls) = tail_lines (map toLower ls)"
  by (induction ls) (simp_all add: tail_lines_def toLower_def lower_char_def is_upper_def byte_def)

lemma upstream_type_lines:
  assumes "CR \<notin> set sl" and "\<forall>l \<in> set hs. CR \<notin> set l"
  shows "upstream_type (sl @ tail_lines hs) =
    (case find (field_named ''content-type'') hs of None \<Rightarrow> [] | Some l \<Rightarrow> field_value l)"
proof -
  have low: "toLower (sl @ tail_lines hs) = toLower sl @ tail_lines (map toLower hs)"
    by (simp add: toLower_append toLower_tail_lines)
  have p: "CR \<notin> set ''content-type:''" by simp
  have key: "content_type_key = CR # LF # ''content-type:''" by (simp add: content_type_key_def)
  show ?thesis
  proof (cases "find (field_named ''content-type'') hs")
    case None
    then have "find_str content_type_key (toLower (sl @ tail_lines hs)) = None"
      unfolding low key using assms
      by (intro find_key(1)[OF p]) (auto simp: find_None_iff content_type_field)
    with None show ?thesis by (simp add: upstream_type_def)
  next
    case (Some l)
    then obtain pre post where hs: "hs = pre @ l # post" "field_named ''content-type'' l"
      "\<forall>k \<in> set pre. \<not> field_named ''content-type'' k" using find_split by metis
    let ?pos = "length (sl @ tail_lines pre)"
    have pos: "find_str content_type_key (toLower (sl @ tail_lines hs)) = Some ?pos"
    proof -
      have "length (toLower sl @ tail_lines (map toLower pre)) = ?pos" by (simp add: toLower_tail_lines[symmetric])
      moreover have "find_str (CR # LF # ''content-type:'') (toLower sl @ tail_lines (map toLower pre @ toLower l # map toLower post)) =
          Some (length (toLower sl @ tail_lines (map toLower pre)))"
        by (rule find_key(2)[OF p]) (use assms hs in \<open>auto simp: content_type_field\<close>)
      moreover have "toLower (sl @ tail_lines hs) = toLower sl @ tail_lines (map toLower pre @ toLower l # map toLower post)"
        unfolding low by (simp add: hs(1))
      ultimately show ?thesis using key by metis
    qed
    have l13: "13 \<le> length l"
      using hs(2) prefix_length_le[of "''content-type:''" "toLower l"] by (simp add: content_type_field[symmetric])
    have d: "drop (?pos + length content_type_key) (sl @ tail_lines hs) = drop 13 l @ tail_lines post"
      using l13 by (simp add: hs(1) tail_lines_def key)
    then have dl: "drop (?pos + length content_type_key) (toLower (sl @ tail_lines hs)) = toLower (drop 13 l) @ tail_lines (map toLower post)"
      by (metis drop_map toLower_def toLower_append toLower_tail_lines)
    have le: "?pos + length content_type_key \<le> length (toLower (sl @ tail_lines hs))"
      using l13 by (simp add: hs(1) tail_lines_def key)
    have ff: "find_from crlf (toLower (sl @ tail_lines hs)) (?pos + length content_type_key) =
        map_option (\<lambda>i. ?pos + length content_type_key + i) (find_str crlf (toLower (drop 13 l) @ tail_lines (map toLower post)))"
      unfolding find_from_def dl using le by (simp only: if_True)
    have cr: "CR \<notin> set (toLower (drop 13 l))" using assms(2) hs(1) by (auto dest: in_set_dropD)
    have "(case find_from crlf (toLower (sl @ tail_lines hs)) (?pos + length content_type_key) of
        None \<Rightarrow> drop (?pos + length content_type_key) (sl @ tail_lines hs)
      | Some ve \<Rightarrow> substr (sl @ tail_lines hs) (?pos + length content_type_key) (ve - (?pos + length content_type_key))) = drop 13 l"
    proof (cases post)
      case Nil
      then have "find_str crlf (toLower (drop 13 l) @ tail_lines (map toLower post)) = None"
        using cr find_cr_skip[OF cr, of "[LF]" "[]"] by (simp add: tail_lines_def)
      then show ?thesis unfolding ff d by (simp add: Nil tail_lines_def)
    next
      case (Cons k ks)
      then have "find_str crlf (toLower (drop 13 l) @ tail_lines (map toLower post)) = Some (length l - 13)"
        using find_crlf_line[OF cr, of "toLower k @ tail_lines (map toLower ks)"] by (simp add: tail_lines_def)
      then show ?thesis unfolding ff substr_def by (simp only: option.map option.case add_diff_cancel_left' d) simp
    qed
    note val = this
    show ?thesis unfolding upstream_type_def Let_def pos option.case val Some field_named_value[OF hs(2)] ..
  qed
qed

text \<open>Reading such an answer gives its parts.\<close>

lemma substr_append: "substr (u @ v) 0 (length u) = u"
  by (simp add: substr_def)

lemma drop_frame: "drop (length u + 4) (u @ crlf @ crlf @ b) = b"
  by simp

lemma parse_http_answer:
  assumes "answer_ok version code reason hs"
  shows "parse_answer (http_answer version code reason hs body) =
    \<lparr> pr_ok = True, pr_status = int code, pr_contentType = announced_type hs, pr_body = body,
      pr_error = [], pr_timedOut = False \<rparr>"
proof -
  let ?sl = "version @ '' '' @ to_string code @ reason"
  let ?head = "?sl @ tail_lines hs"
  have cr: "CR \<notin> set ?sl" "\<forall>l \<in> set hs. CR \<notin> set l"
    using assms by (auto simp: answer_ok_def to_string_no_CR list_all_iff line_ok_def)
  have raw: "http_answer version code reason hs body = ?head @ (crlf @ crlf @ body)"
    unfolding http_answer_def head_lines_tail by (simp only: append_assoc)
  have "list_all line_ok (?sl # hs)" using assms cr(1) by (simp add: answer_ok_def line_ok_def)
  then have eoh: "find_str crlf2 (http_answer version code reason hs body) = Some (length ?head)"
    using find_crlf2_head_lines[of "?sl # hs" body] unfolding http_answer_def head_lines_tail by simp
  have parts: "substr (http_answer version code reason hs body) 0 (length ?head) = ?head"
    "drop (length ?head + 4) (http_answer version code reason hs body) = body"
    unfolding raw by (rule substr_append, rule drop_frame)
  have line: "(case find_str crlf ?head of None \<Rightarrow> ?head | Some eol \<Rightarrow> substr ?head 0 eol) = ?sl"
  proof (cases hs)
    case Nil
    then show ?thesis using find_cr_skip[OF cr(1), of "[LF]" "[]"] by (simp add: tail_lines_def)
  next
    case (Cons l ls)
    then have "find_str crlf ?head = Some (length ?sl)"
      using find_crlf_line[OF cr(1), of "l @ tail_lines ls"] by (simp add: tail_lines_def)
    then show ?thesis by (simp add: substr_def)
  qed
  have code: "status_code ?sl = int code"
    by (rule status_code_line) (use assms in \<open>auto simp: answer_ok_def\<close>)
  have ty: "(if upstream_type ?head = [] then ''application/octet-stream'' else upstream_type ?head) = announced_type hs"
    using upstream_type_lines[OF cr] by (simp add: announced_type_def split: option.splits)
  show ?thesis
    unfolding parse_answer_def eoh option.case Let_def parts line code ty using assms by (simp add: answer_ok_def)
qed

text \<open>A peer that sends such an answer in pieces, after it took the whole request.\<close>

lemma relay_answer:
  assumes "up_ok (parseUpstream base)"
    and "net_resolve net (takeWhile (\<lambda>c. c \<noteq> CHR 0x00) (up_host (parseUpstream base)))
           (int_to_string (up_port (parseUpstream base))) = Some ais"
    and "connect_first net ms ais False = (Some s, t)"
    and "fst (sendAll (net_send net s (timeval_of_ms ms)) 0 (request_wire (parseUpstream base) req path auth))"
    and "net_recv net s (timeval_of_ms ms) = recv_script cs" "[] \<notin> set cs"
    and "concat cs = http_answer version code reason hs body" "length (concat cs) < kMaxUpstreamBytes"
    and "answer_ok version code reason hs"
  shows "forwardRequest net base req path auth ms =
    (\<lparr> pr_ok = True, pr_status = int code, pr_contentType = announced_type hs, pr_body = body,
       pr_error = [], pr_timedOut = False \<rparr>,
     Some (s, request_wire (parseUpstream base) req path auth))"
proof -
  let ?w = "request_wire (parseUpstream base) req path auth" and ?tv = "timeval_of_ms ms"
  have sent: "sendAll (net_send net s ?tv) 0 ?w = (True, ?w)"
    using assms(4) sendAll_complete by (metis prod.collapse)
  have recv: "receive_all (recv_script cs) 0 [] = (concat cs, False)"
    using receive_all_script[of cs "[]" 0] assms(6,8) by simp
  have "concat cs \<noteq> []" unfolding assms(7) by (simp add: http_answer_def)
  then have "exchange (net_send net s ?tv) (net_recv net s ?tv) ?w = (parse_answer (concat cs), ?w)"
    using assms(8) by (simp add: exchange_def sent assms(5) recv del: concat_eq_Nil_conv)
  moreover obtain a as where "ais = a # as" using assms(3) by (cases ais) auto
  ultimately show ?thesis
    using assms(1-3) parse_http_answer[OF assms(9)] unfolding assms(7)
    by (simp add: forwardRequest_def Let_def del: connect_first.simps)
qed

text \<open>C21:
  An answer is relayed unchanged: when the upstream is connected, takes the whole request and sends any
  well formed HTTP answer below 4 MiB in any pieces before it closes, the proxy reports its status, its
  body and the value of its first content type field, whatever the case of the field's name, the
  blanks around its value and the other fields.
\<close>

theorem answer_relayed:
  assumes "up_ok (parseUpstream base)"
    and "net_resolve net (takeWhile (\<lambda>c. c \<noteq> CHR 0x00) (up_host (parseUpstream base)))
           (int_to_string (up_port (parseUpstream base))) = Some ais"
    and "connect_first net ms ais False = (Some s, t)"
    and "fst (sendAll (net_send net s (timeval_of_ms ms)) 0 (request_wire (parseUpstream base) req path auth))"
    and "net_recv net s (timeval_of_ms ms) = recv_script cs" "[] \<notin> set cs"
    and "concat cs = http_answer version code reason hs body" "length (concat cs) < kMaxUpstreamBytes"
    and "answer_ok version code reason hs"
  shows "forwardRequest net base req path auth ms =
    (\<lparr> pr_ok = True, pr_status = int code, pr_contentType = announced_type hs, pr_body = body,
       pr_error = [], pr_timedOut = False \<rparr>,
     Some (s, request_wire (parseUpstream base) req path auth))"
  using assms by (rule relay_answer)

text \<open>The gateway's own responses are such answers.\<close>

lemma buildResponse_answer:
  assumes "100 \<le> resp_status r"
  shows "buildResponse r = http_answer ''HTTP/1.1'' (nat (resp_status r)) ('' '' @ reasonPhrase (resp_status r))
    (tl (response_lines r)) (resp_body r)"
  using assms by (simp add: buildResponse_lines response_lines_def http_answer_def int_to_string_def)

text \<open>A network with one address on which everything works.\<close>

definition good_connect :: connect_calls where
  "good_connect = \<lparr> fcntl_getfl = 2, fcntl_setfl = 0, connect_rc = -1, in_progress = True, select_rc = 1,
     getsockopt_rc = 0, so_error = 0 \<rparr>"

definition good_network :: "string list \<Rightarrow> nat network" where
  "good_network cs =
     \<lparr> net_resolve = (\<lambda>h p. Some [0]), net_socket = (\<lambda>a. True), net_connect = (\<lambda>a tv. good_connect),
       net_send = (\<lambda>a tv i n. Sent n), net_recv = (\<lambda>a tv. recv_script cs) \<rparr>"

lemma good_network_simps [simp]:
  "net_resolve (good_network cs) h p = Some [0]" "net_send (good_network cs) a tv = (\<lambda>i n. Sent n)"
  "net_recv (good_network cs) a tv = recv_script cs"
  "net_socket (good_network cs) a" "net_connect (good_network cs) a tv = good_connect"
  "connectWithTimeout good_connect = (True, False)"
  by (simp_all add: good_network_def good_connect_def connectWithTimeout_def)

lemma sendAll_good [simp]: "sendAll (\<lambda>i n. Sent n) i s = (True, s)"
proof (induction "(\<lambda>i n. Sent n) :: send_calls" i s rule: sendAll.induct)
  case (1 i s)
  show ?case
  proof (cases "s = []")
    case False
    let ?n = "if 65536 < length s then 65536 else length s"
    have "sendAll (\<lambda>i n. Sent n) (Suc i) (drop ?n s) = (True, drop ?n s)"
      using 1[OF False refl] False by auto
    then show ?thesis using False by (subst sendAll.simps) auto
  qed (simp add: sendAll.simps)
qed

text \<open>An answer in three pieces, cut within a line, with a field name in capitals and two spaces.\<close>

definition sample_pieces :: "string list" where
  "sample_pieces =
     [''HTTP/1.0 404 No'', '' such'' @ crlf @ ''Server: x'' @ crlf @ ''CONTENT-Type:'',
      ''  text/html '' @ crlf @ crlf @ ''gone'']"

lemma answer_relayed_witness:
  "fst (forwardRequest (good_network sample_pieces) ''http://users:8081'' sample_request ''/5'' (auth_failed []) 5000) =
   \<lparr> pr_ok = True, pr_status = 404, pr_contentType = ''text/html'', pr_body = ''gone'', pr_error = [],
     pr_timedOut = False \<rparr>"
proof -
  let ?hs = "[''Server: x'', ''CONTENT-Type:  text/html '']"
  have up: "up_ok (parseUpstream ''http://users:8081'')" by code_simp
  have raw: "concat sample_pieces = http_answer ''HTTP/1.0'' 404 '' No such'' ?hs ''gone''" "[] \<notin> set sample_pieces" by code_simp+
  have "length (concat sample_pieces) < 250" by code_simp
  then have len: "length (concat sample_pieces) < kMaxUpstreamBytes" by (simp add: kMaxUpstreamBytes_def)
  have ok: "answer_ok ''HTTP/1.0'' 404 '' No such'' ?hs" by code_simp
  have ty: "announced_type ?hs = ''text/html''" by code_simp
  have "forwardRequest (good_network sample_pieces) ''http://users:8081'' sample_request ''/5'' (auth_failed []) 5000
      = (\<lparr> pr_ok = True, pr_status = int 404, pr_contentType = announced_type ?hs, pr_body = ''gone'', pr_error = [],
           pr_timedOut = False \<rparr>,
         Some (0, request_wire (parseUpstream ''http://users:8081'') sample_request ''/5'' (auth_failed [])))"
    by (rule answer_relayed[where cs = sample_pieces and ais = "[0]" and t = False])
      (use up raw len ok in simp_all)
  then show ?thesis by (simp add: ty)
qed

end
