(* ===== verification/Platforms.thy ===== *)
theory Platforms
  imports Proxy
begin

text \<open>
  The branch for Windows of \<^verbatim>\<open>connectWithTimeout\<close> (\<^verbatim>\<open>Proxy.cpp\<close>) beside the POSIX one of \<open>Proxy\<close>, and what
  both make of the ways a connection can go. The two systems report a refused connection differently:
  POSIX makes the socket writable with a pending error, Winsock reports it in the set of exceptions,
  which the code does not pass to \<^verbatim>\<open>select\<close>.
\<close>

section \<open>The branch for Windows\<close>

text \<open>The sets of descriptors given to \<^verbatim>\<open>select\<close> for reading, writing and exceptions; \<open>None\<close> is the null
  pointer. The code passes the socket in the second.\<close>

type_synonym fd_sets = "nat list option \<times> nat list option \<times> nat list option"

definition connect_fd_sets :: "nat \<Rightarrow> fd_sets" where
  "connect_fd_sets s = (None, Some [s], None)"

text \<open>Results of the calls: \<^verbatim>\<open>ioctlsocket\<close>, \<^verbatim>\<open>connect\<close> with whether \<^verbatim>\<open>WSAGetLastError\<close> is
  \<^verbatim>\<open>WSAEWOULDBLOCK\<close>, \<^verbatim>\<open>select\<close> for any sets, \<^verbatim>\<open>getsockopt\<close> with the error it reports.\<close>

record win_connect_calls =
  wc_ioctl :: int
  wc_connect_rc :: int
  wc_would_block :: bool
  wc_select :: "fd_sets \<Rightarrow> int"
  wc_getsockopt_rc :: int
  wc_so_error :: int

definition connectWithTimeout_win :: "nat \<Rightarrow> win_connect_calls \<Rightarrow> bool \<times> bool" where
  "connectWithTimeout_win s c =
     (if wc_ioctl c \<noteq> 0 then (False, False)
      else if wc_connect_rc c = 0 then (True, False)
      else if \<not> wc_would_block c then (False, False)
      else
        (let rc = wc_select c (connect_fd_sets s)
         in if rc = 0 then (False, True)
            else if rc < 0 then (False, False)
            else if wc_getsockopt_rc c \<noteq> 0 then (False, False)
            else if wc_so_error c \<noteq> 0 then (False, False)
            else (True, False)))"

text \<open>The loop of \<^verbatim>\<open>forwardRequest\<close> over the addresses, for any way to connect; both platforms share it.\<close>

fun connect_loop :: "('a \<Rightarrow> bool) \<Rightarrow> ('a \<Rightarrow> bool \<times> bool) \<Rightarrow> 'a list \<Rightarrow> bool \<Rightarrow> 'a option \<times> bool" where
  "connect_loop has_socket connect [] timedOut = (None, timedOut)"
| "connect_loop has_socket connect (ai # ais) timedOut =
     (if \<not> has_socket ai then connect_loop has_socket connect ais timedOut
      else
        (case connect ai of
           (True, t) \<Rightarrow> (Some ai, t)
         | (False, t) \<Rightarrow> if t then (None, t) else connect_loop has_socket connect ais t))"

lemma connect_first_loop:
  "connect_first net ms ais t =
     connect_loop (net_socket net) (\<lambda>ai. connectWithTimeout (net_connect net ai (timeval_of_ms ms))) ais t"
  by (induction ais arbitrary: t) (auto split: prod.splits bool.splits)

text \<open>Where the calls give the same results, the branches agree.\<close>

definition same_calls :: "nat \<Rightarrow> connect_calls \<Rightarrow> win_connect_calls \<Rightarrow> bool" where
  "same_calls s c w \<longleftrightarrow>
     (wc_ioctl w = 0 \<longleftrightarrow> 0 \<le> fcntl_getfl c \<and> 0 \<le> fcntl_setfl c) \<and> wc_connect_rc w = connect_rc c \<and>
     wc_would_block w = in_progress c \<and> wc_select w (connect_fd_sets s) = select_rc c \<and>
     wc_getsockopt_rc w = getsockopt_rc c \<and> wc_so_error w = so_error c"

lemma branches_agree: "same_calls s c w \<Longrightarrow> connectWithTimeout_win s w = connectWithTimeout c"
  by (auto simp: same_calls_def connectWithTimeout_win_def connectWithTimeout_def Let_def)

section \<open>What the systems report\<close>

text \<open>What becomes of a connection that is not decided at once: it is made, it is refused, or nothing is
  heard before the timeout.\<close>

datatype handshake = Accepted | Refused | Silent

definition among :: "nat \<Rightarrow> nat list option \<Rightarrow> bool" where
  "among s fds \<longleftrightarrow> (case fds of None \<Rightarrow> False | Some ss \<Rightarrow> s \<in> set ss)"

text \<open>The documented results of \<^verbatim>\<open>select\<close> with a connecting socket as the only one in the sets. POSIX: the
  socket is ready for writing once the attempt has ended, in either way. Winsock: it is ready for
  writing when the connection is made, and in the set of exceptions when the attempt failed.\<close>

definition posix_select_documented :: "(handshake \<Rightarrow> nat \<Rightarrow> fd_sets \<Rightarrow> int) \<Rightarrow> bool" where
  "posix_select_documented sel \<longleftrightarrow>
     (\<forall>s r w x. sel Silent s (r, w, x) = 0 \<and>
        (among s w \<longrightarrow> 0 < sel Accepted s (r, w, x) \<and> 0 < sel Refused s (r, w, x)))"

definition winsock_select_documented :: "(handshake \<Rightarrow> nat \<Rightarrow> fd_sets \<Rightarrow> int) \<Rightarrow> bool" where
  "winsock_select_documented sel \<longleftrightarrow>
     (\<forall>s r w x. sel Silent s (r, w, x) = 0 \<and>
        (if among s w then 0 < sel Accepted s (r, w, x) else sel Accepted s (r, w, x) = 0) \<and>
        (if among s x then 0 < sel Refused s (r, w, x) else sel Refused s (r, w, x) = 0))"

text \<open>The calls for a socket under either system; \<^verbatim>\<open>SO_ERROR\<close> is \<^verbatim>\<open>ECONNREFUSED\<close> or \<^verbatim>\<open>WSAECONNREFUSED\<close>.\<close>

definition posix_calls :: "(handshake \<Rightarrow> nat \<Rightarrow> fd_sets \<Rightarrow> int) \<Rightarrow> nat \<Rightarrow> handshake \<Rightarrow> connect_calls" where
  "posix_calls sel s h =
     \<lparr> fcntl_getfl = 2, fcntl_setfl = 0, connect_rc = -1, in_progress = True,
       select_rc = sel h s (connect_fd_sets s), getsockopt_rc = 0, so_error = (if h = Refused then 111 else 0) \<rparr>"

definition winsock_calls :: "(handshake \<Rightarrow> nat \<Rightarrow> fd_sets \<Rightarrow> int) \<Rightarrow> nat \<Rightarrow> handshake \<Rightarrow> win_connect_calls" where
  "winsock_calls sel s h =
     \<lparr> wc_ioctl = 0, wc_connect_rc = -1, wc_would_block = True, wc_select = sel h s,
       wc_getsockopt_rc = 0, wc_so_error = (if h = Refused then 10061 else 0) \<rparr>"

lemma posix_connects:
  "posix_select_documented sel \<Longrightarrow> connectWithTimeout (posix_calls sel s h) = (h = Accepted, h = Silent)"
proof -
  assume "posix_select_documented sel"
  moreover have "among s (Some [s])" by (simp add: among_def)
  ultimately have "sel Silent s (connect_fd_sets s) = 0" "0 < sel Accepted s (connect_fd_sets s)"
    "0 < sel Refused s (connect_fd_sets s)"
    unfolding posix_select_documented_def connect_fd_sets_def by blast+
  then show ?thesis by (cases h) (simp_all add: posix_calls_def connectWithTimeout_def)
qed

lemma winsock_connects:
  "winsock_select_documented sel \<Longrightarrow>
   connectWithTimeout_win s (winsock_calls sel s h) = (h = Accepted, h \<noteq> Accepted)"
proof -
  assume "winsock_select_documented sel"
  moreover have "among s (Some [s])" "\<not> among s None" by (simp_all add: among_def)
  ultimately have "sel Silent s (connect_fd_sets s) = 0" "0 < sel Accepted s (connect_fd_sets s)"
    "sel Refused s (connect_fd_sets s) = 0"
    unfolding winsock_select_documented_def connect_fd_sets_def by presburger+
  then show ?thesis by (cases h) (simp_all add: winsock_calls_def connectWithTimeout_win_def)
qed

section \<open>Several addresses\<close>

lemma posix_loop:
  assumes "\<And>a. connect a = (hand a = Accepted, hand a = Silent)"
  shows "connect_loop (\<lambda>a. True) connect ais False =
    (case dropWhile (\<lambda>a. hand a = Refused) ais of
       [] \<Rightarrow> (None, False)
     | a # _ \<Rightarrow> if hand a = Accepted then (Some a, False) else (None, True))"
proof (induction ais)
  case (Cons a ais)
  then show ?case by (cases "hand a") (simp_all add: assms)
qed simp

lemma winsock_loop:
  assumes "\<And>a. connect a = (hand a = Accepted, hand a \<noteq> Accepted)"
  shows "connect_loop (\<lambda>a. True) connect ais False =
    (case ais of [] \<Rightarrow> (None, False) | a # _ \<Rightarrow> if hand a = Accepted then (Some a, False) else (None, True))"
  using assms by (cases ais) auto

text \<open>C31: the platforms differ where an address refuses, because the code gives \<^verbatim>\<open>select\<close> no set of
  exceptions: on POSIX the loop goes on to the next address, and reports no timeout when all refuse; on
  Windows only the first address is ever tried, and a refusal is taken for a timeout.\<close>

theorem refusal_on_windows:
  assumes "posix_select_documented posix_sel" and "winsock_select_documented winsock_sel"
  shows "connect_loop (\<lambda>a. True) (\<lambda>a. connectWithTimeout (posix_calls posix_sel (sock a) (hand a))) ais False =
      (case dropWhile (\<lambda>a. hand a = Refused) ais of
         [] \<Rightarrow> (None, False)
       | a # _ \<Rightarrow> if hand a = Accepted then (Some a, False) else (None, True)) \<and>
    connect_loop (\<lambda>a. True) (\<lambda>a. connectWithTimeout_win (sock a) (winsock_calls winsock_sel (sock a) (hand a))) ais False =
      (case ais of
         [] \<Rightarrow> (None, False)
       | a # _ \<Rightarrow> if hand a = Accepted then (Some a, False) else (None, True))"
  by (intro conjI posix_loop winsock_loop posix_connects winsock_connects assms)

text \<open>A host with two addresses of which the first refuses.\<close>

definition sample_posix_select :: "handshake \<Rightarrow> nat \<Rightarrow> fd_sets \<Rightarrow> int" where
  "sample_posix_select h s fds = (case fds of (r, w, x) \<Rightarrow> if h \<noteq> Silent \<and> among s w then 1 else 0)"

definition sample_winsock_select :: "handshake \<Rightarrow> nat \<Rightarrow> fd_sets \<Rightarrow> int" where
  "sample_winsock_select h s fds =
     (case fds of (r, w, x) \<Rightarrow>
        if h = Accepted \<and> among s w \<or> h = Refused \<and> among s x then 1 else 0)"

lemma refusal_on_windows_witness:
  "connect_loop (\<lambda>a. True)
     (\<lambda>a. connectWithTimeout (posix_calls sample_posix_select (3 + a) (if a = 0 then Refused else Accepted)))
     [0, 1 :: nat] False = (Some 1, False) \<and>
   connect_loop (\<lambda>a. True)
     (\<lambda>a. connectWithTimeout_win (3 + a) (winsock_calls sample_winsock_select (3 + a) (if a = 0 then Refused else Accepted)))
     [0, 1 :: nat] False = (None, True)"
proof -
  have "posix_select_documented sample_posix_select" "winsock_select_documented sample_winsock_select"
    by (simp_all add: posix_select_documented_def sample_posix_select_def winsock_select_documented_def
        sample_winsock_select_def)
  from refusal_on_windows[OF this, of "\<lambda>a. 3 + a" "\<lambda>a. if a = 0 then Refused else Accepted" "[0, 1]"]
  show ?thesis by simp
qed

end
