(* ===== verification/Descriptors.thy ===== *)
theory Descriptors
  imports Proxy "HOL-Library.Multiset"
begin

text \<open>
  The file descriptors of the gateway. The first half is the order in which \<^verbatim>\<open>forwardRequest\<close> opens, uses
  and closes the sockets of an upstream; the second half is the table of descriptors that the main
  thread and all connection threads share, from which the system hands out the lowest free number.
  \<^verbatim>\<open>connectWithTimeout\<close> puts its descriptor into an \<^verbatim>\<open>fd_set\<close>, which has room for the numbers below
  \<^verbatim>\<open>FD_SETSIZE\<close>.
\<close>

section \<open>The sockets of one forwarded request\<close>

datatype 'a socket_call = Opened 'a | Connecting 'a | Talking 'a | Closed 'a

text \<open>The loop over the addresses: a socket that is not connected is closed, after a timeout the loop
  ends.\<close>

fun connect_sockets :: "'a network \<Rightarrow> int \<Rightarrow> 'a list \<Rightarrow> 'a socket_call list" where
  "connect_sockets net timeoutMs [] = []"
| "connect_sockets net timeoutMs (ai # ais) =
     (if \<not> net_socket net ai then connect_sockets net timeoutMs ais
      else Opened ai # Connecting ai #
        (case connectWithTimeout (net_connect net ai (timeval_of_ms timeoutMs)) of
           (True, t) \<Rightarrow> []
         | (False, t) \<Rightarrow> Closed ai # (if t then [] else connect_sockets net timeoutMs ais)))"

text \<open>A connected socket is sent the request and read. There are two ways out behind that, for an answer
  that is too large and for all others, and both begin with closing the socket, so the calls are the
  same.\<close>

definition forward_sockets :: "'a network \<Rightarrow> string \<Rightarrow> int \<Rightarrow> 'a socket_call list" where
  "forward_sockets net upstreamBase timeoutMs =
     (let up = parseUpstream upstreamBase
      in if \<not> up_ok up then []
         else
           (case net_resolve net (takeWhile (\<lambda>c. c \<noteq> CHR 0x00) (up_host up)) (int_to_string (up_port up)) of
              None \<Rightarrow> []
            | Some ais \<Rightarrow>
                connect_sockets net timeoutMs ais
                @ (case fst (connect_first net timeoutMs ais False) of
                     None \<Rightarrow> []
                   | Some s \<Rightarrow> [Talking s, Closed s])))"

text \<open>Following the calls: which socket is held, \<open>None\<close> for a call that is out of order.\<close>

fun held :: "'a option \<Rightarrow> 'a socket_call list \<Rightarrow> 'a option option" where
  "held h [] = Some h"
| "held h (Opened a # cs) = (if h = None then held (Some a) cs else None)"
| "held h (Connecting a # cs) = (if h = Some a then held h cs else None)"
| "held h (Talking a # cs) = (if h = Some a then held h cs else None)"
| "held h (Closed a # cs) = (if h = Some a then held None cs else None)"

lemma held_append: "held h cs = Some h' \<Longrightarrow> held h (cs @ ds) = held h' ds"
  by (induction h cs rule: held.induct) (auto split: if_splits)

lemma held_connect: "held None (connect_sockets net ms ais) = Some (fst (connect_first net ms ais t))"
  by (induction ais arbitrary: t) (auto split: prod.splits bool.splits)

lemma held_forward: "held None (forward_sockets net base ms) = Some None"
  by (simp add: forward_sockets_def Let_def held_append[OF held_connect[of net ms _ False]] split: option.splits)

text \<open>C19: forwarding a request holds at most one socket at any time, uses a socket only between its opening
  and its closing, and has closed every socket it opened when it returns, on every path. Bytes are
  exchanged with the socket \<^verbatim>\<open>forwardRequest\<close> reports, if with any.\<close>

theorem upstream_sockets_closed:
  "held None (forward_sockets net base ms) = Some None \<and>
   {s. Talking s \<in> set (forward_sockets net base ms)} = set_option (map_option fst (snd (forwardRequest net base req path auth ms)))"
proof -
  have "Talking s \<notin> set (connect_sockets net ms ais)" for s ais
    by (induction ais) (auto split: prod.splits bool.splits)
  moreover have "connect_first net ms [] t = (None, t)" for t by simp
  ultimately show ?thesis
    unfolding held_forward
    by (auto simp: forward_sockets_def forwardRequest_def Let_def simp del: connect_first.simps
        split: option.splits list.splits prod.splits)
qed

section \<open>The table of descriptors\<close>

text \<open>The number the system hands out: the lowest that is not open.\<close>

definition lowest_free :: "nat list \<Rightarrow> nat" where
  "lowest_free fds = hd (filter (\<lambda>n. n \<notin> set fds) [0..< Suc (length fds)])"

lemma lowest_free_fresh: "lowest_free fds \<notin> set fds \<and> lowest_free fds \<le> length fds"
proof -
  have "\<not> {0..< Suc (length fds)} \<subseteq> set fds"
    using card_mono[of "set fds" "{0..< Suc (length fds)}"] card_length[of fds] by force
  then obtain n where "n < Suc (length fds)" "n \<notin> set fds"
    unfolding subset_iff atLeastLessThan_iff by blast
  then have "n \<in> set (filter (\<lambda>n. n \<notin> set fds) [0..< Suc (length fds)])" by (simp del: upt_Suc)
  then have "filter (\<lambda>n. n \<notin> set fds) [0..< Suc (length fds)] \<noteq> []" by (metis empty_iff list.set(1))
  then have "lowest_free fds \<in> set (filter (\<lambda>n. n \<notin> set fds) [0..< Suc (length fds)])"
    unfolding lowest_free_def by (rule hd_in_set)
  then show ?thesis by (auto simp del: upt_Suc filter.simps)
qed

lemma lowest_free_full: "set fds = {0..< k} \<Longrightarrow> k \<le> length fds \<Longrightarrow> lowest_free fds = k"
proof -
  assume fds: "set fds = {0..< k}" "k \<le> length fds"
  have "filter (\<lambda>n. n \<notin> set fds) [0..< Suc (length fds)] = filter (\<lambda>n. k \<le> n) ([0..< k] @ [k..< Suc (length fds)])"
    using fds upt_add_eq_append[of 0 k "Suc (length fds) - k"] by (auto intro: filter_cong)
  also have "\<dots> = k # filter (\<lambda>n. k \<le> n) [Suc k..< Suc (length fds)]"
    using fds(2) by (auto simp: upt_conv_Cons simp del: upt_Suc)
  finally show "lowest_free fds = k" by (simp add: lowest_free_def)
qed

text \<open>
  A connection thread: its client's descriptor, the one of the upstream socket with the address it
  belongs to, and the calls it has left to make on upstream sockets. The table: what was open before the
  loop, what the libraries have open (\<^verbatim>\<open>getaddrinfo\<close>), what the main thread has accepted and not yet
  given to a thread, the threads, and the threads that have closed their client and not yet counted
  \<^verbatim>\<open>activeClients\<close> down.
\<close>

record 'a conn =
  c_client :: nat
  c_upstream :: "(nat \<times> 'a) option"
  c_calls :: "'a socket_call list"

record 'a fd_table =
  d_base :: "nat list"
  d_library :: "nat list"
  d_accepted :: "nat option"
  d_conns :: "'a conn list"
  d_leaving :: nat

definition conn_fds :: "'a conn \<Rightarrow> nat list" where
  "conn_fds c = c_client c # (case c_upstream c of None \<Rightarrow> [] | Some (f, a) \<Rightarrow> [f])"

definition open_fds :: "'a fd_table \<Rightarrow> nat list" where
  "open_fds s =
     d_base s @ d_library s @ (case d_accepted s of None \<Rightarrow> [] | Some f \<Rightarrow> [f]) @ concat (map conn_fds (d_conns s))"

definition active_clients :: "'a fd_table \<Rightarrow> nat" where
  "active_clients s = length (d_conns s) + d_leaving s"

definition fd_start :: "nat \<Rightarrow> 'a fd_table" where
  "fd_start b = \<lparr> d_base = [0..< b], d_library = [], d_accepted = None, d_conns = [], d_leaving = 0 \<rparr>"

text \<open>One step, for a client limit, a system limit on descriptors and a bound on those of the libraries.
  A thread that is started forwards at most once; which threads do is left open, so that the bounds
  hold of any handler.\<close>

inductive fd_step :: "nat \<Rightarrow> nat \<Rightarrow> nat \<Rightarrow> 'a fd_table \<Rightarrow> 'a fd_table \<Rightarrow> bool" for max_clients nofile library where
  accepts: "d_accepted s = None \<Longrightarrow> lowest_free (open_fds s) < nofile \<Longrightarrow>
    fd_step max_clients nofile library s (s\<lparr> d_accepted := Some (lowest_free (open_fds s)) \<rparr>)"
| rejects: "d_accepted s = Some f \<Longrightarrow> fd_step max_clients nofile library s (s\<lparr> d_accepted := None \<rparr>)"
| starts: "d_accepted s = Some f \<Longrightarrow> active_clients s < max_clients \<Longrightarrow>
    calls = [] \<or> (\<exists>net base ms. calls = forward_sockets net base ms) \<Longrightarrow>
    fd_step max_clients nofile library s (s\<lparr> d_accepted := None,
      d_conns := d_conns s @ [\<lparr> c_client = f, c_upstream = None, c_calls = calls \<rparr>] \<rparr>)"
| opens: "d_conns s = us @ c # vs \<Longrightarrow> c_calls c = Opened a # cs \<Longrightarrow> lowest_free (open_fds s) < nofile \<Longrightarrow>
    fd_step max_clients nofile library s
      (s\<lparr> d_conns := us @ c\<lparr> c_upstream := Some (lowest_free (open_fds s), a), c_calls := cs \<rparr> # vs \<rparr>)"
| uses: "d_conns s = us @ c # vs \<Longrightarrow> c_calls c = Connecting a # cs \<or> c_calls c = Talking a # cs \<Longrightarrow>
    fd_step max_clients nofile library s (s\<lparr> d_conns := us @ c\<lparr> c_calls := cs \<rparr> # vs \<rparr>)"
| closes: "d_conns s = us @ c # vs \<Longrightarrow> c_calls c = Closed a # cs \<Longrightarrow>
    fd_step max_clients nofile library s (s\<lparr> d_conns := us @ c\<lparr> c_upstream := None, c_calls := cs \<rparr> # vs \<rparr>)"
| ends: "d_conns s = us @ c # vs \<Longrightarrow> c_calls c = [] \<Longrightarrow>
    fd_step max_clients nofile library s (s\<lparr> d_conns := us @ vs, d_leaving := Suc (d_leaving s) \<rparr>)"
| leaves: "d_leaving s = Suc k \<Longrightarrow> fd_step max_clients nofile library s (s\<lparr> d_leaving := k \<rparr>)"
| library_opens: "length (d_library s) < library \<Longrightarrow> lowest_free (open_fds s) < nofile \<Longrightarrow>
    fd_step max_clients nofile library s (s\<lparr> d_library := d_library s @ [lowest_free (open_fds s)] \<rparr>)"
| library_closes: "d_library s = us @ f # vs \<Longrightarrow> fd_step max_clients nofile library s (s\<lparr> d_library := us @ vs \<rparr>)"

inductive fd_reachable :: "nat \<Rightarrow> nat \<Rightarrow> nat \<Rightarrow> nat \<Rightarrow> 'a fd_table \<Rightarrow> bool" for b max_clients nofile library where
  fd_init: "fd_reachable b max_clients nofile library (fd_start b)"
| fd_next: "fd_reachable b max_clients nofile library s \<Longrightarrow> fd_step max_clients nofile library s t \<Longrightarrow>
    fd_reachable b max_clients nofile library t"

section \<open>Bounds on the descriptors\<close>

text \<open>No number is open twice, a thread holds the socket its calls say, and the limits are kept.\<close>

definition fd_inv :: "nat \<Rightarrow> nat \<Rightarrow> nat \<Rightarrow> nat \<Rightarrow> 'a fd_table \<Rightarrow> bool" where
  "fd_inv b max_clients nofile library s \<longleftrightarrow>
     distinct (open_fds s) \<and> d_base s = [0..< b] \<and> length (d_library s) \<le> library \<and>
     active_clients s \<le> max_clients \<and>
     (\<forall>c \<in> set (d_conns s). held (map_option snd (c_upstream c)) (c_calls c) = Some None) \<and>
     (\<forall>f \<in> set (open_fds s). f < max b (min nofile (b + library + 1 + 2 * max_clients)))"

lemma length_conn_fds: "length (concat (map conn_fds cs)) \<le> 2 * length cs"
  by (induction cs) (auto simp: conn_fds_def split: option.splits)

lemma open_fds_room:
  assumes "fd_inv b m n l s"
  shows "d_accepted s = None \<Longrightarrow> length (open_fds s) \<le> b + l + 2 * m"
    and "length (d_library s) < l \<Longrightarrow> length (open_fds s) \<le> b + l + 2 * m"
    and "d_conns s = us @ c # vs \<Longrightarrow> c_upstream c = None \<Longrightarrow> length (open_fds s) \<le> b + l + 2 * m"
  using assms length_conn_fds[of "d_conns s"] length_conn_fds[of us] length_conn_fds[of vs]
  by (auto simp: fd_inv_def open_fds_def active_clients_def conn_fds_def split: option.splits)

text \<open>A number that is handed out is new and within the bound.\<close>

lemma handed_out:
  assumes "fd_inv b m n l s" "length (open_fds s) \<le> b + l + 2 * m" "lowest_free (open_fds s) < n"
  shows "lowest_free (open_fds s) \<notin> set (open_fds s)"
    and "lowest_free (open_fds s) < max b (min n (b + l + 1 + 2 * m))"
  using lowest_free_fresh[of "open_fds s"] assms(2,3) by auto

lemma fd_inv_start: "fd_inv b m n l (fd_start b)"
  by (auto simp: fd_inv_def fd_start_def open_fds_def active_clients_def)

text \<open>What is left to show of a step that opens a descriptor, and of one that opens none.\<close>

definition fd_rest :: "nat \<Rightarrow> nat \<Rightarrow> nat \<Rightarrow> 'a fd_table \<Rightarrow> bool" where
  "fd_rest b max_clients library s \<longleftrightarrow>
     d_base s = [0..< b] \<and> length (d_library s) \<le> library \<and> active_clients s \<le> max_clients \<and>
     (\<forall>c \<in> set (d_conns s). held (map_option snd (c_upstream c)) (c_calls c) = Some None)"

lemma fd_inv_rest: "fd_inv b m n l s \<longleftrightarrow> fd_rest b m l s \<and> distinct (open_fds s) \<and>
    (\<forall>f \<in> set (open_fds s). f < max b (min n (b + l + 1 + 2 * m)))"
  unfolding fd_inv_def fd_rest_def by blast

lemma fd_inv_opens:
  assumes "fd_inv b m n l s" "length (open_fds s) \<le> b + l + 2 * m" "lowest_free (open_fds s) < n"
    and "mset (open_fds t) = mset (lowest_free (open_fds s) # open_fds s)" "fd_rest b m l t"
  shows "fd_inv b m n l t"
  using assms(1,5) handed_out[OF assms(1-3)] mset_eq_setD[OF assms(4)] mset_eq_imp_distinct_iff[OF assms(4)]
  unfolding fd_inv_rest by auto

lemma fd_inv_closes:
  assumes "fd_inv b m n l s" and eq: "mset (open_fds s) = mset (fds @ open_fds t)" and "fd_rest b m l t"
  shows "fd_inv b m n l t"
  using assms(1,3) mset_eq_setD[OF eq] mset_eq_imp_distinct_iff[OF eq] unfolding fd_inv_rest by auto

lemma fd_inv_step: "fd_step m n l s t \<Longrightarrow> fd_inv b m n l s \<Longrightarrow> fd_inv b m n l t"
proof (induction rule: fd_step.induct)
  case (accepts s)
  show ?case
    by (rule fd_inv_opens[OF accepts.prems open_fds_room(1)[OF accepts.prems accepts(1)] accepts(2)])
      (use accepts in \<open>simp_all add: fd_inv_rest fd_rest_def active_clients_def open_fds_def[of "_\<lparr> d_accepted := _ \<rparr>"] open_fds_def[of s]\<close>)
next
  case (rejects s f)
  show ?case by (rule fd_inv_closes[OF rejects.prems, of "[f]"])
      (use rejects in \<open>simp_all add: fd_inv_rest fd_rest_def active_clients_def open_fds_def\<close>)
next
  case (starts s f calls)
  then have "held None calls = Some None" by (auto simp: held_forward)
  then show ?case using starts(1,2) by (intro fd_inv_closes[OF starts.prems, of "[]"])
      (use starts in \<open>auto simp: fd_inv_rest fd_rest_def active_clients_def open_fds_def conn_fds_def\<close>)
next
  case (opens s us c vs a cs)
  then have "held (map_option snd (c_upstream c)) (Opened a # cs) = Some None" by (auto simp: fd_inv_def)
  then have up: "c_upstream c = None" "held (Some a) cs = Some None" by (auto split: if_splits)
  show ?case
    by (rule fd_inv_opens[OF opens.prems open_fds_room(3)[OF opens.prems opens(1) up(1)] opens(3)])
      (use opens up in \<open>simp_all add: fd_inv_rest fd_rest_def active_clients_def conn_fds_def
        open_fds_def[of "_\<lparr> d_conns := _ \<rparr>"] open_fds_def[of s]\<close>)
next
  case (uses s us c vs a cs)
  then have "held (map_option snd (c_upstream c)) cs = Some None" by (auto simp: fd_inv_def split: if_splits)
  then show ?case by (intro fd_inv_closes[OF uses.prems, of "[]"])
      (use uses in \<open>simp_all add: fd_inv_rest fd_rest_def active_clients_def open_fds_def conn_fds_def\<close>)
next
  case (closes s us c vs a cs)
  then have "held None cs = Some None" by (auto simp: fd_inv_def split: if_splits)
  then show ?case
    by (intro fd_inv_closes[OF closes.prems, of "case c_upstream c of None \<Rightarrow> [] | Some (f, a) \<Rightarrow> [f]"])
      (use closes in \<open>simp_all add: fd_inv_rest fd_rest_def active_clients_def open_fds_def conn_fds_def\<close>)
next
  case (ends s us c vs)
  show ?case by (rule fd_inv_closes[OF ends.prems, of "conn_fds c"])
      (use ends in \<open>simp_all add: fd_inv_rest fd_rest_def active_clients_def open_fds_def\<close>)
next
  case (leaves s k)
  show ?case by (rule fd_inv_closes[OF leaves.prems, of "[]"])
      (use leaves in \<open>simp_all add: fd_inv_rest fd_rest_def active_clients_def open_fds_def\<close>)
next
  case (library_opens s)
  show ?case
    by (rule fd_inv_opens[OF library_opens.prems open_fds_room(2)[OF library_opens.prems library_opens(1)] library_opens(2)])
      (use library_opens in \<open>simp_all add: fd_inv_rest fd_rest_def active_clients_def
        open_fds_def[of "_\<lparr> d_library := _ \<rparr>"] open_fds_def[of s]\<close>)
next
  case (library_closes s us f vs)
  show ?case by (rule fd_inv_closes[OF library_closes.prems, of "[f]"])
      (use library_closes in \<open>simp_all add: fd_inv_rest fd_rest_def active_clients_def open_fds_def\<close>)
qed

lemma fd_reachable_inv: "fd_reachable b m n l s \<Longrightarrow> fd_inv b m n l s"
  by (induction rule: fd_reachable.induct) (auto intro: fd_inv_start fd_inv_step)

text \<open>The descriptors that threads put into an \<^verbatim>\<open>fd_set\<close> next, and the room of one.\<close>

definition fd_set_args :: "'a fd_table \<Rightarrow> nat list" where
  "fd_set_args s =
     concat (map (\<lambda>c. case (c_upstream c, c_calls c) of (Some (f, a), Connecting a' # cs) \<Rightarrow> [f] | _ \<Rightarrow> []) (d_conns s))"

definition kFD_SETSIZE :: nat where
  "kFD_SETSIZE = 1024"

lemma fd_set_args_open: "set (fd_set_args s) \<subseteq> set (open_fds s)"
  by (auto simp: fd_set_args_def open_fds_def conn_fds_def split: option.splits list.splits socket_call.splits)

text \<open>C20: whatever the threads do and in whatever order, no descriptor is handed out twice, and as long as
  the system limits the process to \<^verbatim>\<open>FD_SETSIZE\<close> descriptors, or the client limit leaves room for two
  descriptors of each client, every descriptor put into an \<^verbatim>\<open>fd_set\<close> fits.\<close>

theorem fd_sets_in_range:
  assumes "fd_reachable b max_clients nofile library s" and "b \<le> kFD_SETSIZE"
    and "nofile \<le> kFD_SETSIZE \<or> b + library + 1 + 2 * max_clients \<le> kFD_SETSIZE"
  shows "distinct (open_fds s) \<and> (\<forall>f \<in> set (fd_set_args s). f < kFD_SETSIZE)"
proof -
  have inv: "fd_inv b max_clients nofile library s" using assms(1) by (rule fd_reachable_inv)
  then have "f < max b (min nofile (b + library + 1 + 2 * max_clients))" if "f \<in> set (fd_set_args s)" for f
    using that fd_set_args_open[of s] by (auto simp: fd_inv_def)
  with assms(2,3) inv show ?thesis by (fastforce simp: fd_inv_def)
qed

section \<open>How the bound is exceeded\<close>

definition some_forward :: "nat socket_call list" where
  "some_forward = forward_sockets (good_network []) ''http://users:8081'' 5000"

lemma some_forward_calls: "some_forward = [Opened 0, Connecting 0, Talking 0, Closed 0]"
proof -
  have "up_ok (parseUpstream ''http://users:8081'')" by code_simp
  then show ?thesis by (simp add: some_forward_def forward_sockets_def Let_def)
qed

text \<open>As many clients as the limit allows, all about to forward, one after another.\<close>

lemma crowd:
  "k \<le> m \<Longrightarrow> b + k \<le> n \<Longrightarrow> \<exists>s. fd_reachable b m n l s \<and> d_accepted s = None \<and> d_leaving s = 0 \<and>
     d_conns s = map (\<lambda>i. \<lparr> c_client = b + i, c_upstream = None, c_calls = some_forward \<rparr>) [0..< k] \<and>
     open_fds s = [0..< b + k]"
proof (induction k)
  case 0
  then show ?case using fd_init[of b m n l] by (intro exI[of _ "fd_start b"]) (simp add: fd_start_def open_fds_def)
next
  case (Suc k)
  then obtain s where s: "fd_reachable b m n l s" "d_accepted s = None" "d_leaving s = 0"
    "d_conns s = map (\<lambda>i. \<lparr> c_client = b + i, c_upstream = None, c_calls = some_forward \<rparr>) [0..< k]"
    "open_fds s = [0..< b + k]" by auto
  let ?s = "s\<lparr> d_accepted := Some (b + k) \<rparr>"
  let ?c = "\<lparr> c_client = b + k, c_upstream = None, c_calls = some_forward \<rparr>"
  have low: "lowest_free (open_fds s) = b + k" by (rule lowest_free_full) (simp_all add: s(5))
  have "fd_step m n l s ?s" using accepts[of s n m l] s(2) Suc.prems(2) low by simp
  moreover have "fd_step m n l ?s (?s\<lparr> d_accepted := None, d_conns := d_conns ?s @ [?c] \<rparr>)"
    using s(3,4) Suc.prems(1) by (intro starts) (auto simp: active_clients_def some_forward_def)
  ultimately have "fd_reachable b m n l (?s\<lparr> d_accepted := None, d_conns := d_conns ?s @ [?c] \<rparr>)"
    using s(1) by (blast intro: fd_next)
  moreover have "open_fds (?s\<lparr> d_accepted := None, d_conns := d_conns ?s @ [?c] \<rparr>) = [0..< b + Suc k]"
    using s(2,5) by (simp add: open_fds_def conn_fds_def)
  ultimately show ?case using s(3,4)
    by (intro exI[of _ "?s\<lparr> d_accepted := None, d_conns := d_conns ?s @ [?c] \<rparr>"]) simp
qed

text \<open>The bounds cannot be dropped: in the table by itself, where every thread may forward, a client limit
  the configuration accepts is enough to leave the range. With \<^verbatim>\<open>1024 - b\<close> clients open, \<open>b\<close> being what
  the process had open before, and a system limit that allows more than 1024 descriptors, the next
  upstream socket has the number 1024, and \<^verbatim>\<open>FD_SET\<close> would write behind the set. In the program as it
  is no request gets as far as the proxy (\<open>handleClient_only_refuses\<close>), so this is a run of the code
  behind the parser only.\<close>

lemma fd_set_out_of_range:
  assumes "b < kFD_SETSIZE" "kFD_SETSIZE \<le> b + max_clients" "kFD_SETSIZE < nofile"
  shows "\<exists>s :: nat fd_table. fd_reachable b max_clients nofile library s \<and> kFD_SETSIZE \<in> set (fd_set_args s)"
proof -
  define k where "k = kFD_SETSIZE - b"
  have k: "b + k = kFD_SETSIZE" "k \<noteq> 0" "k \<le> max_clients" using assms(1,2) by (simp_all add: k_def)
  obtain s where s: "fd_reachable b max_clients nofile library s"
    "d_conns s = map (\<lambda>i. \<lparr> c_client = b + i, c_upstream = None, c_calls = some_forward \<rparr>) [0..< k]"
    "open_fds s = [0..< b + k]"
    using crowd[of k max_clients b nofile library] k assms(3) by auto
  obtain j where j: "k = Suc j" using k(2) by (cases k) auto
  let ?c = "\<lparr> c_client = b + j, c_upstream = None, c_calls = some_forward \<rparr>"
  let ?us = "map (\<lambda>i. \<lparr> c_client = b + i, c_upstream = None, c_calls = some_forward \<rparr>) [0..< j]"
  let ?t = "s\<lparr> d_conns := ?us @ ?c\<lparr> c_upstream := Some (kFD_SETSIZE, 0), c_calls := tl some_forward \<rparr> # [] \<rparr>"
  have low: "lowest_free (open_fds s) = kFD_SETSIZE" unfolding s(3) k(1) by (rule lowest_free_full) simp_all
  have "fd_step max_clients nofile library s ?t"
    using opens[of s ?us ?c "[]" 0 "tl some_forward" nofile max_clients library] s(2) j low assms(3)
    by (simp add: some_forward_calls)
  with s(1) have "fd_reachable b max_clients nofile library ?t" by (rule fd_next)
  moreover have "kFD_SETSIZE \<in> set (fd_set_args ?t)" by (simp add: fd_set_args_def some_forward_calls)
  ultimately show ?thesis by blast
qed

lemma fd_set_out_of_range_witness:
  "\<exists>s :: nat fd_table. fd_reachable 4 4096 65536 0 s \<and> kFD_SETSIZE \<in> set (fd_set_args s)"
  by (rule fd_set_out_of_range) (simp_all add: kFD_SETSIZE_def)

lemma fd_sets_in_range_witness:
  "\<exists>s :: nat fd_table. fd_reachable 4 128 65536 0 s \<and> length (d_conns s) = 128 \<and>
     distinct (open_fds s) \<and> (\<forall>f \<in> set (fd_set_args s). f < kFD_SETSIZE)"
proof -
  obtain s :: "nat fd_table" where s: "fd_reachable 4 128 65536 0 s" "length (d_conns s) = 128"
    using crowd[of 128 128 4 65536 0] by auto
  with fd_sets_in_range[OF s(1)] show ?thesis by (auto simp: kFD_SETSIZE_def)
qed

end
