(* ===== verification/Threads.thy ===== *)
theory Threads
  imports HandleClient
begin

text \<open>
  Many connections at once. \<^verbatim>\<open>main.cpp\<close> starts a thread per connection; the threads share the rate
  limiter, whose \<^verbatim>\<open>allow\<close> reads the clock and then takes a mutex, and the logger, which writes a line
  under a mutex. The first half handles requests one after another (\<open>serve_all\<close>); the second half is the
  interleaved execution of the same code, one effect at a time, and shows that it amounts to the
  sequential one in the order in which the threads get the limiter's mutex.
\<close>

section \<open>One request after another\<close>

type_synonym ('c, 'k, 'n, 'a) job = "('c, 'k, 'n, 'a) world \<times> int \<times> http_request"

fun serve_all :: "config \<Rightarrow> ('c, 'k, 'n, 'a) job list \<Rightarrow> rate_limiter \<Rightarrow> 'a event list list" where
  "serve_all cfg [] l = []"
| "serve_all cfg ((w, connId, req) # jobs) l =
     (let (es, l') = serve w cfg connId req l in es # serve_all cfg jobs l')"

definition limiter_calls :: "('c, 'k, 'n, 'a) job list \<Rightarrow> (string \<times> int) list" where
  "limiter_calls jobs = map (\<lambda>(w, connId, req). (req_clientIp req, w_clock w)) jobs"

text \<open>The requests of one address for which an upstream was contacted.\<close>

definition contacting :: "string \<Rightarrow> ('c, 'k, 'n, 'a) job list \<Rightarrow> 'a event list list \<Rightarrow> nat" where
  "contacting ip jobs ess =
     length (filter (\<lambda>((w, connId, req), es). req_clientIp req = ip \<and> forwards es \<noteq> []) (zip jobs ess))"

lemma serve_asks: "snd (serve w cfg connId req l) = snd (allow (w_clock w) (req_clientIp req) l)"
  by (simp add: serve_def Let_def split: prod.splits)

lemma serve_contacts: "forwards (fst (serve w cfg connId req l)) \<noteq> [] \<Longrightarrow> fst (allow (w_clock w) (req_clientIp req) l)"
  by (auto simp: serve_def Let_def split: prod.splits if_splits)

lemma serve_all_Cons:
  "serve_all cfg ((w, connId, req) # jobs) l =
     fst (serve w cfg connId req l) # serve_all cfg jobs (snd (allow (w_clock w) (req_clientIp req) l))"
  using serve_asks[of w cfg connId req l] by (cases "serve w cfg connId req l") simp

lemma limiter_calls_simps [simp]:
  "limiter_calls [] = []"
  "limiter_calls ((w, connId, req) # jobs) = (req_clientIp req, w_clock w) # limiter_calls jobs"
  "limiter_calls (jobs @ later) = limiter_calls jobs @ limiter_calls later"
  "length (limiter_calls jobs) = length jobs"
  by (simp_all add: limiter_calls_def)

lemma serve_all_append:
  "serve_all cfg (pre @ jobs) l = serve_all cfg pre l @ serve_all cfg jobs (snd (run_limiter l (limiter_calls pre)))"
proof (induction pre arbitrary: l)
  case (Cons job pre)
  obtain w connId req where "job = (w, connId, req)" by (cases job)
  then show ?case by (simp add: Cons.IH serve_all_Cons run_limiter_state del: serve_all.simps)
qed (simp add: run_limiter_state)

lemma length_serve_all [simp]: "length (serve_all cfg jobs l) = length jobs"
  by (induction cfg jobs l rule: serve_all.induct) (auto split: prod.splits)

lemma contacting_admitted:
  "contacting ip jobs (serve_all cfg jobs l) \<le> admitted ip (limiter_calls jobs) (fst (run_limiter l (limiter_calls jobs)))"
proof (induction jobs arbitrary: l)
  case Nil
  then show ?case by (simp add: contacting_def)
next
  case (Cons job jobs)
  obtain w connId req where job: "job = (w, connId, req)" by (cases job)
  show ?case
    using Cons.IH[of "snd (allow (w_clock w) (req_clientIp req) l)"] serve_contacts[of w cfg connId req l]
    by (auto simp: contacting_def job serve_all_Cons run_limiter_Cons simp del: serve_all.simps)
qed

section \<open>The interleaved execution\<close>

text \<open>
  What \<open>serve\<close> does after the decision of the limiter, and where a thread can be: before its first log
  line, in \<^verbatim>\<open>allow\<close> before the clock is read, in \<^verbatim>\<open>allow\<close> with a reading and waiting for the mutex, or
  behind the decision with a list of effects left.
\<close>

definition after_decision ::
  "('c, 'k, 'n, 'a) world \<Rightarrow> config \<Rightarrow> int \<Rightarrow> http_request \<Rightarrow> bool \<Rightarrow> 'a event list" where
  "after_decision w cfg connId req ok =
     (if \<not> ok then
        log Warn connId (''Rate limited: '' @ req_clientIp req)
        # reply_close w connId (jsonError 429 ''rate_limited'' ''Too many requests, slow down.'')
      else route_stage w cfg connId req)"

definition request_line_log :: "int \<Rightarrow> http_request \<Rightarrow> 'a event" where
  "request_line_log connId req = log Info connId (req_method req @ '' '' @ req_target req)"

lemma serve_split:
  "fst (serve w cfg connId req l) =
     request_line_log connId req # after_decision w cfg connId req (fst (allow (w_clock w) (req_clientIp req) l))"
  by (simp add: serve_def after_decision_def request_line_log_def Let_def split: prod.splits)

datatype 'a phase = Arrived | At_limiter | Clock_read int | Answering "'a event list"

text \<open>The clock, the limiter, the phases of the threads, the order of the decisions with the clock
  reading of each, and everything that was done, with the thread that did it.\<close>

record 'a pool =
  p_clock :: int
  p_limiter :: rate_limiter
  p_phase :: "nat \<Rightarrow> 'a phase"
  p_decided :: "(nat \<times> int) list"
  p_trace :: "(nat \<times> 'a event) list"

definition start_pool :: "config \<Rightarrow> int \<Rightarrow> 'a pool" where
  "start_pool cfg t =
     \<lparr> p_clock = t, p_limiter = make_limiter (rateLimitPerMin cfg), p_phase = (\<lambda>i. Arrived),
       p_decided = [], p_trace = [] \<rparr>"

definition at_clock :: "int \<Rightarrow> ('c, 'k, 'n, 'a) job \<Rightarrow> ('c, 'k, 'n, 'a) job" where
  "at_clock now job = (case job of (w, connId, req) \<Rightarrow> (w\<lparr> w_clock := now \<rparr>, connId, req))"

inductive pool_step :: "config \<Rightarrow> ('c, 'k, 'n, 'a) job list \<Rightarrow> 'a pool \<Rightarrow> 'a pool \<Rightarrow> bool"
  for cfg jobs where
  tick: "p_clock s \<le> t \<Longrightarrow> pool_step cfg jobs s (s\<lparr> p_clock := t \<rparr>)"
| logs: "i < length jobs \<Longrightarrow> p_phase s i = Arrived \<Longrightarrow> jobs ! i = (w, connId, req) \<Longrightarrow>
    pool_step cfg jobs s
      (s\<lparr> p_phase := (p_phase s)(i := At_limiter), p_trace := p_trace s @ [(i, request_line_log connId req)] \<rparr>)"
| unlimited: "i < length jobs \<Longrightarrow> p_phase s i = At_limiter \<Longrightarrow> perMin (p_limiter s) \<le> 0 \<Longrightarrow>
    at_clock (p_clock s) (jobs ! i) = (w, connId, req) \<Longrightarrow>
    pool_step cfg jobs s
      (s\<lparr> p_phase := (p_phase s)(i := Answering (after_decision w cfg connId req True)),
          p_decided := p_decided s @ [(i, p_clock s)] \<rparr>)"
| reads: "i < length jobs \<Longrightarrow> p_phase s i = At_limiter \<Longrightarrow> 0 < perMin (p_limiter s) \<Longrightarrow>
    pool_step cfg jobs s (s\<lparr> p_phase := (p_phase s)(i := Clock_read (p_clock s)) \<rparr>)"
| decides: "i < length jobs \<Longrightarrow> p_phase s i = Clock_read now \<Longrightarrow> at_clock now (jobs ! i) = (w, connId, req) \<Longrightarrow>
    allow now (req_clientIp req) (p_limiter s) = (ok, l) \<Longrightarrow>
    pool_step cfg jobs s
      (s\<lparr> p_limiter := l, p_phase := (p_phase s)(i := Answering (after_decision w cfg connId req ok)),
          p_decided := p_decided s @ [(i, now)] \<rparr>)"
| acts: "i < length jobs \<Longrightarrow> p_phase s i = Answering (e # es) \<Longrightarrow>
    pool_step cfg jobs s
      (s\<lparr> p_phase := (p_phase s)(i := Answering es), p_trace := p_trace s @ [(i, e)] \<rparr>)"

inductive pool_run :: "config \<Rightarrow> ('c, 'k, 'n, 'a) job list \<Rightarrow> 'a pool \<Rightarrow> bool"
  for cfg jobs where
  pool_start: "pool_run cfg jobs (start_pool cfg t)"
| pool_next: "pool_run cfg jobs s \<Longrightarrow> pool_step cfg jobs s s' \<Longrightarrow> pool_run cfg jobs s'"

section \<open>Every interleaving is a sequence\<close>

definition events_of :: "nat \<Rightarrow> (nat \<times> 'a event) list \<Rightarrow> 'a event list" where
  "events_of i tr = map snd (filter (\<lambda>(j, e). j = i) tr)"

lemma events_of_simps [simp]:
  "events_of i [] = []"
  "events_of i (tr @ [(j, e)]) = (if j = i then events_of i tr @ [e] else events_of i tr)"
  by (simp_all add: events_of_def)

fun pending :: "'a phase \<Rightarrow> 'a event list" where
  "pending (Answering es) = es"
| "pending _ = []"

text \<open>The requests in the order of the decisions, each with its clock reading, and what each thread
  has done and will do.\<close>

definition decided_jobs :: "('c, 'k, 'n, 'a) job list \<Rightarrow> 'a pool \<Rightarrow> ('c, 'k, 'n, 'a) job list" where
  "decided_jobs jobs s = map (\<lambda>(i, now). at_clock now (jobs ! i)) (p_decided s)"

definition outcomes :: "'a pool \<Rightarrow> 'a event list list" where
  "outcomes s = map (\<lambda>(i, now). events_of i (p_trace s) @ pending (p_phase s i)) (p_decided s)"

text \<open>What a thread has done, by its phase.\<close>

definition phase_ok :: "('c, 'k, 'n, 'a) job list \<Rightarrow> 'a pool \<Rightarrow> nat \<Rightarrow> bool" where
  "phase_ok jobs s i \<longleftrightarrow>
     (case p_phase s i of
        Arrived \<Rightarrow> events_of i (p_trace s) = [] \<and> i \<notin> fst ` set (p_decided s)
      | At_limiter \<Rightarrow> (\<exists>w connId req. jobs ! i = (w, connId, req) \<and>
          events_of i (p_trace s) = [request_line_log connId req]) \<and> i \<notin> fst ` set (p_decided s)
      | Clock_read now \<Rightarrow> (\<exists>w connId req. jobs ! i = (w, connId, req) \<and>
          events_of i (p_trace s) = [request_line_log connId req]) \<and> i \<notin> fst ` set (p_decided s) \<and> now \<le> p_clock s
      | Answering es \<Rightarrow> i \<in> fst ` set (p_decided s))"

definition pool_inv :: "config \<Rightarrow> ('c, 'k, 'n, 'a) job list \<Rightarrow> 'a pool \<Rightarrow> bool" where
  "pool_inv cfg jobs s \<longleftrightarrow>
     (\<forall>i < length jobs. phase_ok jobs s i) \<and>
     distinct (map fst (p_decided s)) \<and> fst ` set (p_decided s) \<subseteq> {..< length jobs} \<and>
     p_limiter s = snd (run_limiter (make_limiter (rateLimitPerMin cfg)) (limiter_calls (decided_jobs jobs s))) \<and>
     outcomes s = serve_all cfg (decided_jobs jobs s) (make_limiter (rateLimitPerMin cfg))"

lemma at_clock_request [simp]:
  "snd (at_clock now job) = snd job" "at_clock now job = (w, connId, req) \<Longrightarrow> w_clock w = now"
  by (auto simp: at_clock_def split: prod.splits)

lemma at_clock_line: "at_clock now job = (w, connId, req) \<Longrightarrow> \<exists>v. job = (v, connId, req)"
  by (auto simp: at_clock_def split: prod.splits)

lemma outcomes_eq:
  assumes "p_decided s' = p_decided s"
    and "\<And>i. i \<in> fst ` set (p_decided s) \<Longrightarrow>
      events_of i (p_trace s') @ pending (p_phase s' i) = events_of i (p_trace s) @ pending (p_phase s i)"
  shows "outcomes s' = outcomes s"
  unfolding outcomes_def assms(1) using assms(2) by (intro map_cong) force+

lemma pool_inv_start: "pool_inv cfg jobs (start_pool cfg t)"
  by (simp add: pool_inv_def start_pool_def phase_ok_def decided_jobs_def outcomes_def run_limiter_state)

text \<open>A step that decides nothing and leaves what decided threads have done and will do.\<close>

lemma pool_inv_keep:
  assumes inv: "pool_inv cfg jobs s" and "p_decided s' = p_decided s" "p_limiter s' = p_limiter s"
    and "\<And>i. i \<in> fst ` set (p_decided s) \<Longrightarrow>
      events_of i (p_trace s') @ pending (p_phase s' i) = events_of i (p_trace s) @ pending (p_phase s i)"
    and "\<And>i. i < length jobs \<Longrightarrow> phase_ok jobs s' i"
  shows "pool_inv cfg jobs s'"
proof -
  have "decided_jobs jobs s' = decided_jobs jobs s" by (simp add: decided_jobs_def assms(2))
  with assms outcomes_eq[of s' s] show ?thesis by (simp add: pool_inv_def)
qed

text \<open>Another thread's step leaves what a thread is allowed to have done.\<close>

lemma phase_ok_others:
  assumes "phase_ok jobs s j" and "j \<noteq> i"
  shows "phase_ok jobs (s\<lparr> p_phase := (p_phase s)(i := ph) \<rparr>) j"
    and "phase_ok jobs (s\<lparr> p_phase := (p_phase s)(i := ph), p_trace := p_trace s @ [(i, e)] \<rparr>) j"
    and "phase_ok jobs
      (s\<lparr> p_limiter := l, p_phase := (p_phase s)(i := ph), p_decided := p_decided s @ [(i, now)] \<rparr>) j"
  using assms by (simp_all add: phase_ok_def split: phase.splits)

lemma phase_ok_later: "phase_ok jobs s j \<Longrightarrow> p_clock s \<le> t \<Longrightarrow> phase_ok jobs (s\<lparr> p_clock := t \<rparr>) j"
  by (cases "p_phase s j") (auto simp: phase_ok_def)

text \<open>The decision: the thread's outcome is what it does alone from the limiter the others left.\<close>

lemma pool_inv_decide:
  assumes inv: "pool_inv cfg jobs s" and i: "i < length jobs" "i \<notin> fst ` set (p_decided s)"
    and line: "jobs ! i = (v, connId, req)" "events_of i (p_trace s) = [request_line_log connId req]"
    and job: "at_clock now (jobs ! i) = (w, connId, req)"
    and l: "allow now (req_clientIp req) (p_limiter s) = (ok, l)"
  shows "pool_inv cfg jobs
    (s\<lparr> p_limiter := l, p_phase := (p_phase s)(i := Answering (after_decision w cfg connId req ok)),
        p_decided := p_decided s @ [(i, now)] \<rparr>)" (is "pool_inv cfg jobs ?s")
proof -
  let ?l0 = "make_limiter (rateLimitPerMin cfg)"
  have w: "w_clock w = now" using job by simp
  have jobs': "decided_jobs jobs ?s = decided_jobs jobs s @ [(w, connId, req)]"
    by (simp add: decided_jobs_def job)
  have lim: "p_limiter s = snd (run_limiter ?l0 (limiter_calls (decided_jobs jobs s)))"
    and out: "outcomes s = serve_all cfg (decided_jobs jobs s) ?l0"
    using inv by (simp_all add: pool_inv_def)
  have "outcomes ?s = outcomes s @ [request_line_log connId req # after_decision w cfg connId req ok]"
    using i(2) line(2) by (force simp: outcomes_def)
  also have "\<dots> = serve_all cfg (decided_jobs jobs ?s) ?l0"
    using l w unfolding jobs' serve_all_append lim[symmetric] out
    by (simp add: serve_all_Cons serve_split del: serve_all.simps(2))
  finally have "outcomes ?s = serve_all cfg (decided_jobs jobs ?s) ?l0" .
  moreover have "p_limiter ?s = snd (run_limiter ?l0 (limiter_calls (decided_jobs jobs ?s)))"
    using l w unfolding jobs' limiter_calls_simps run_limiter_state lim[symmetric] by simp
  moreover have "phase_ok jobs ?s j" if "j < length jobs" for j
  proof (cases "j = i")
    case True
    then show ?thesis by (simp add: phase_ok_def)
  next
    case False
    then show ?thesis using inv that by (intro phase_ok_others(3)) (simp_all add: pool_inv_def)
  qed
  ultimately show ?thesis using inv i by (auto simp: pool_inv_def)
qed

lemma pool_inv_step: "pool_step cfg jobs s s' \<Longrightarrow> pool_inv cfg jobs s \<Longrightarrow> pool_inv cfg jobs s'"
proof (induction rule: pool_step.induct)
  case (tick s t)
  then show ?case
    by (intro pool_inv_keep[OF tick.prems]) (simp_all add: pool_inv_def phase_ok_later)
next
  case (logs i s w connId req)
  then have ok: "\<And>j. j < length jobs \<Longrightarrow> phase_ok jobs s j" by (simp add: pool_inv_def)
  note i = ok[OF logs.hyps(1), unfolded phase_ok_def logs.hyps(2) phase.case]
  show ?case
  proof (rule pool_inv_keep[OF logs.prems])
    fix j assume "j < length jobs"
    then show "phase_ok jobs (s\<lparr> p_phase := (p_phase s)(i := At_limiter), p_trace := p_trace s @ [(i, request_line_log connId req)] \<rparr>) j"
      using i logs.hyps(3) phase_ok_others(2)[OF ok] by (cases "j = i") (simp_all add: phase_ok_def)
  qed (use i in auto)
next
  case (reads i s)
  then have ok: "\<And>j. j < length jobs \<Longrightarrow> phase_ok jobs s j" by (simp add: pool_inv_def)
  note i = ok[OF reads.hyps(1), unfolded phase_ok_def reads.hyps(2) phase.case]
  show ?case
  proof (rule pool_inv_keep[OF reads.prems])
    fix j assume "j < length jobs"
    then show "phase_ok jobs (s\<lparr> p_phase := (p_phase s)(i := Clock_read (p_clock s)) \<rparr>) j"
      using i phase_ok_others(1)[OF ok] by (cases "j = i") (simp_all add: phase_ok_def)
  qed (use i in auto)
next
  case (unlimited i s w connId req)
  then have "phase_ok jobs s i" by (simp add: pool_inv_def)
  moreover obtain v where v: "jobs ! i = (v, connId, req)" using at_clock_line[OF unlimited(4)] by auto
  ultimately have i: "i \<notin> fst ` set (p_decided s)" "events_of i (p_trace s) = [request_line_log connId req]"
    using unlimited(2) by (auto simp: phase_ok_def)
  have l: "allow (p_clock s) (req_clientIp req) (p_limiter s) = (True, p_limiter s)"
    using unlimited(3) by (simp add: allow_def)
  show ?case using pool_inv_decide[OF unlimited.prems unlimited(1) i(1) v i(2) unlimited(4) l] by simp
next
  case (decides i s now w connId req ok l)
  then have "phase_ok jobs s i" by (simp add: pool_inv_def)
  moreover obtain v where v: "jobs ! i = (v, connId, req)" using at_clock_line[OF decides(3)] by auto
  ultimately have i: "i \<notin> fst ` set (p_decided s)" "events_of i (p_trace s) = [request_line_log connId req]"
    using decides(2) by (auto simp: phase_ok_def)
  show ?case by (rule pool_inv_decide[OF decides.prems decides(1) i(1) v i(2) decides(3,4)])
next
  case (acts i s e es)
  then have ok: "\<And>j. j < length jobs \<Longrightarrow> phase_ok jobs s j" by (simp add: pool_inv_def)
  note i = ok[OF acts.hyps(1), unfolded phase_ok_def acts.hyps(2) phase.case]
  show ?case
  proof (rule pool_inv_keep[OF acts.prems])
    fix j assume "j < length jobs"
    then show "phase_ok jobs (s\<lparr> p_phase := (p_phase s)(i := Answering es), p_trace := p_trace s @ [(i, e)] \<rparr>) j"
      using i phase_ok_others(2)[OF ok] by (cases "j = i") (simp_all add: phase_ok_def)
  qed (use acts.hyps(2) in auto)
qed

lemma pool_run_inv: "pool_run cfg jobs s \<Longrightarrow> pool_inv cfg jobs s"
  by (induction rule: pool_run.induct) (auto simp: pool_inv_start intro: pool_inv_step)

section \<open>What the threads do together\<close>

text \<open>C3: the threads do what one thread would do that handles the requests one by one, in the order in
  which they get the limiter's mutex: what a thread has done and will do is what \<open>serve\<close> does at its place
  in that order, with the clock reading it took before. A thread that is not yet in that order has at most
  logged its request line.\<close>

theorem threads_serialize:
  assumes "pool_run cfg jobs s"
  shows "distinct (map fst (p_decided s)) \<and> fst ` set (p_decided s) \<subseteq> {..< length jobs} \<and>
    map (\<lambda>(i, now). events_of i (p_trace s) @ pending (p_phase s i)) (p_decided s) =
      serve_all cfg (decided_jobs jobs s) (make_limiter (rateLimitPerMin cfg)) \<and>
    (\<forall>i < length jobs. i \<notin> fst ` set (p_decided s) \<longrightarrow>
       set (events_of i (p_trace s)) \<subseteq> {case jobs ! i of (w, connId, req) \<Rightarrow> request_line_log connId req})"
proof -
  have inv: "pool_inv cfg jobs s" by (rule pool_run_inv[OF assms])
  have "set (events_of i (p_trace s)) \<subseteq> {case jobs ! i of (w, connId, req) \<Rightarrow> request_line_log connId req}"
    if "i < length jobs" "i \<notin> fst ` set (p_decided s)" for i
  proof -
    have "phase_ok jobs s i" using inv that(1) by (simp add: pool_inv_def)
    with that(2) show ?thesis by (cases "p_phase s i") (auto simp: phase_ok_def)
  qed
  then show ?thesis using inv by (auto simp: pool_inv_def outcomes_def)
qed

lemma contacting_map:
  "contacting ip (map (\<lambda>(i, now). at_clock now (jobs ! i)) part) (map f part) =
     length (filter (\<lambda>(i, now). req_clientIp (snd (snd (jobs ! i))) = ip \<and> forwards (f (i, now)) \<noteq> []) part)"
proof -
  have "(case at_clock now job of (w, connId, req) \<Rightarrow> req_clientIp req = ip) \<longleftrightarrow> req_clientIp (snd (snd job)) = ip"
    for now and job :: "('c, 'k, 'n, 'a) job"
    by (cases job) (simp add: at_clock_def)
  then show ?thesis
    by (induction part) (auto simp: contacting_def at_clock_def split: prod.splits)
qed

lemma forwards_append: "forwards es \<noteq> [] \<Longrightarrow> forwards (es @ fs) \<noteq> []"
  by (simp add: forwards_def)

text \<open>Of requests decided one after another with readings within 60 seconds, in whatever order.\<close>

lemma contacts_in_stretch:
  assumes "pool_run cfg jobs s" and "0 < rateLimitPerMin cfg" and "p_decided s = pre @ part @ post"
    and "\<forall>(i, now) \<in> set part. 0 < now \<and> t0 \<le> now \<and> now < t0 + 60"
  shows "int (length (filter (\<lambda>(i, now). req_clientIp (snd (snd (jobs ! i))) = ip \<and>
      forwards (events_of i (p_trace s)) \<noteq> []) part)) \<le> 2 * rateLimitPerMin cfg - 1"
proof -
  let ?l = "make_limiter (rateLimitPerMin cfg)"
  let ?job = "\<lambda>(i, now). at_clock now (jobs ! i)" and ?out = "\<lambda>(i, now). events_of i (p_trace s) @ pending (p_phase s i)"
  let ?l' = "snd (run_limiter ?l (limiter_calls (map ?job pre)))"
  have "map ?out (pre @ part @ post) = serve_all cfg (map ?job (pre @ part @ post)) ?l"
    using pool_run_inv[OF assms(1)] by (simp add: pool_inv_def outcomes_def decided_jobs_def assms(3))
  then have out: "map ?out part = serve_all cfg (map ?job part) ?l'"
    by (simp add: serve_all_append)
  have "length (filter (\<lambda>(i, now). req_clientIp (snd (snd (jobs ! i))) = ip \<and> forwards (events_of i (p_trace s)) \<noteq> []) part)
      \<le> length (filter (\<lambda>(i, now). req_clientIp (snd (snd (jobs ! i))) = ip \<and> forwards (?out (i, now)) \<noteq> []) part)"
    by (induction part) (auto dest: forwards_append)
  also have "\<dots> = contacting ip (map ?job part) (serve_all cfg (map ?job part) ?l')"
    unfolding out[symmetric] by (simp add: contacting_map)
  also have "\<dots> \<le> admitted ip (limiter_calls (map ?job part)) (fst (run_limiter ?l' (limiter_calls (map ?job part))))"
    by (rule contacting_admitted)
  finally have le: "length (filter (\<lambda>(i, now). req_clientIp (snd (snd (jobs ! i))) = ip \<and>
      forwards (events_of i (p_trace s)) \<noteq> []) part) \<le> \<dots>" .
  have "snd c \<in> snd ` set part" if "c \<in> set (limiter_calls (map ?job part))" for c
    using that by (force simp: limiter_calls_def at_clock_def split: prod.splits)
  then have "\<forall>(k, now) \<in> set (limiter_calls (map ?job part)). 0 < now \<and> t0 \<le> now \<and> now < t0 + 60"
    using assms(4) by fastforce
  from burst_limit[OF assms(2) this, of ip "limiter_calls (map ?job pre)"] le show ?thesis
    unfolding run_limiter_later by linarith
qed

lemma sorted_window:
  fixes ds :: "(nat \<times> int) list"
  assumes "sorted (map snd ds)"
  shows "ds = filter (\<lambda>d. snd d < t) ds @ filter (\<lambda>d. t \<le> snd d \<and> snd d < t + 60) ds @ filter (\<lambda>d. t + 60 \<le> snd d) ds"
  using assms
proof (induction ds)
  case (Cons d ds)
  have le: "snd d \<le> snd e" if "e \<in> set ds" for e using Cons.prems that by auto
  consider "snd d < t" | "t \<le> snd d" "snd d < t + 60" | "t + 60 \<le> snd d" by linarith
  then show ?case
  proof cases
    case 2
    then have "filter (\<lambda>d. snd d < t) ds = []" using le by (fastforce simp: filter_empty_conv)
    with 2 Cons show ?thesis by simp
  next
    case 3
    then have "filter (\<lambda>d. snd d < t) ds = []" "filter (\<lambda>d. t \<le> snd d \<and> snd d < t + 60) ds = []"
      using le by (fastforce simp: filter_empty_conv)+
    with 3 Cons show ?thesis by simp
  qed (use Cons in simp)
qed simp


text \<open>the clock readings of successive decisions need not be in order, because the clock is read before
  the mutex is taken: of two requests the one that read the clock first can be decided last.\<close>

theorem readings_out_of_order:
  assumes "0 < rateLimitPerMin cfg" and "t < u"
  shows "\<exists>s. pool_run cfg [j, k] s \<and> p_decided s = [(1, u), (0, t)]"
proof -
  obtain w c r where j: "j = (w, c, r)" by (cases j)
  obtain w' c' r' where k: "k = (w', c', r')" by (cases k)
  have m: "perMin (make_limiter (rateLimitPerMin cfg)) > 0" using assms(1) by (simp add: make_limiter_def)
  let ?s = "\<lambda>s. pool_run cfg [j, k] s"
  obtain s1 where s1: "?s s1" "p_clock s1 = t" "p_phase s1 0 = At_limiter" "p_phase s1 1 = Arrived"
    "p_decided s1 = []" "perMin (p_limiter s1) > 0"
    using pool_next[OF pool_start logs[of 0 "[j, k]" "start_pool cfg t" w c r cfg]] m by (simp add: start_pool_def j)
  then obtain s2 where s2: "?s s2" "p_clock s2 = t" "p_phase s2 0 = At_limiter" "p_phase s2 1 = At_limiter"
    "p_decided s2 = []" "perMin (p_limiter s2) > 0"
    using pool_next[OF s1(1) logs[of 1 "[j, k]" s1 w' c' r' cfg]] by (simp add: k)
  then obtain s3 where s3: "?s s3" "p_clock s3 = t" "p_phase s3 0 = Clock_read t" "p_phase s3 1 = At_limiter"
    "p_decided s3 = []" "perMin (p_limiter s3) > 0"
    using pool_next[OF s2(1) reads[of 0 "[j, k]" s2 cfg]] by simp
  then obtain s4 where s4: "?s s4" "p_clock s4 = u" "p_phase s4 0 = Clock_read t" "p_phase s4 1 = At_limiter"
    "p_decided s4 = []" "perMin (p_limiter s4) > 0"
    using pool_next[OF s3(1) tick[of s3 u cfg "[j, k]"]] assms(2) by simp
  then obtain s5 where s5: "?s s5" "p_phase s5 0 = Clock_read t" "p_phase s5 1 = Clock_read u" "p_decided s5 = []"
    using pool_next[OF s4(1) reads[of 1 "[j, k]" s4 cfg]] by simp
  obtain ok l where a: "allow u (req_clientIp r') (p_limiter s5) = (ok, l)" by fastforce
  obtain s6 where s6: "?s s6" "p_phase s6 0 = Clock_read t" "p_decided s6 = [(1, u)]"
    using pool_next[OF s5(1) decides[of 1 "[j, k]" s5 u "w'\<lparr> w_clock := u \<rparr>" c' r' ok l cfg]] s5 a by (simp add: k at_clock_def)
  obtain ok' l' where b: "allow t (req_clientIp r) (p_limiter s6) = (ok', l')" by fastforce
  show ?thesis
    using pool_next[OF s6(1) decides[of 0 "[j, k]" s6 t "w\<lparr> w_clock := t \<rparr>" c r ok' l' cfg]] s6 b
    by (force simp: j at_clock_def)
qed

section \<open>A run of one thread\<close>

abbreviation sample_job :: "(string, string, nat, nat) job" where
  "sample_job \<equiv> (sample_world [buildResponse sample_answer], 1, sample_get)"

lemma one_thread_decided:
  assumes "0 < rateLimitPerMin cfg"
  shows "\<exists>s. pool_run cfg [j] s \<and> p_decided s = [(0, t)]"
proof -
  obtain w c r where j: "j = (w, c, r)" by (cases j)
  have m: "perMin (make_limiter (rateLimitPerMin cfg)) > 0" using assms by (simp add: make_limiter_def)
  obtain s1 where s1: "pool_run cfg [j] s1" "p_clock s1 = t" "p_phase s1 0 = At_limiter" "p_decided s1 = []" "perMin (p_limiter s1) > 0"
    using pool_next[OF pool_start logs[of 0 "[j]" "start_pool cfg t" w c r cfg]] m by (simp add: start_pool_def j)
  then obtain s2 where s2: "pool_run cfg [j] s2" "p_phase s2 0 = Clock_read t" "p_decided s2 = []"
    using pool_next[OF s1(1) reads[of 0 "[j]" s1 cfg]] by simp
  obtain ok l where a: "allow t (req_clientIp r) (p_limiter s2) = (ok, l)" by fastforce
  show ?thesis
    using pool_next[OF s2(1) decides[of 0 "[j]" s2 t "w\<lparr> w_clock := t \<rparr>" c r ok l cfg]] s2 a
    by (force simp: j at_clock_def)
qed

lemma threads_serialize_witness:
  "\<exists>s. pool_run sample_config [sample_job] s \<and> p_decided s = [(0, 1000)] \<and>
     [events_of 0 (p_trace s) @ pending (p_phase s 0)] =
       serve_all sample_config [at_clock 1000 sample_job] (make_limiter (rateLimitPerMin sample_config))"
proof -
  have "0 < rateLimitPerMin sample_config" by (simp add: sample_config_def default_config_def)
  from one_thread_decided[OF this, of sample_job 1000] obtain s where
    s: "pool_run sample_config [sample_job] s" "p_decided s = [(0, 1000)]" by blast
  from threads_serialize[OF s(1)] s show ?thesis by (auto simp: decided_jobs_def simp del: serve_all.simps)
qed


lemma readings_out_of_order_witness:
  "\<exists>s. pool_run sample_config [sample_job, sample_job] s \<and> p_decided s = [(1, 61), (0, 1)]"
  by (rule readings_out_of_order) (simp_all add: sample_config_def default_config_def)

end
