(* ===== verification/Gateway.thy ===== *)
theory Gateway
  imports HandleClient
begin

text \<open>
  The program itself, \<^verbatim>\<open>main.cpp\<close>: start-up with its failures, the banner, and the accept loop with
  one thread per connection as a step relation. The main thread, the threads of the connections and
  the signal handler interleave freely; a step is labelled with who makes it. \<^verbatim>\<open>select\<close>, \<^verbatim>\<open>accept\<close> and
  \<^verbatim>\<open>setsockopt\<close> choose the step of the main thread.
\<close>

named_theorems gw_lemmas \<open>facts about steps of the gateway\<close>

section \<open>Start-up\<close>

text \<open>What the operating system answers during start-up.\<close>

record 'b host =
  h_net_init :: bool
  h_resolve :: "string \<Rightarrow> string \<Rightarrow> 'b list option"
  h_socket :: "'b \<Rightarrow> bool"
  h_bind :: "'b \<Rightarrow> bool"
  h_listen :: "'b \<Rightarrow> bool"
  h_errno :: "'b \<Rightarrow> int"
  h_last_error :: int

definition main_log :: "log_level \<Rightarrow> string \<Rightarrow> log_call" where
  "main_log lvl msg = \<lparr> log_lvl = lvl, log_conn = -1, log_msg = msg \<rparr>"

text \<open>The first address a socket can be bound to and listen on, with the lines of those before it.\<close>

fun open_listener :: "'b host \<Rightarrow> 'b list \<Rightarrow> 'b option \<times> log_call list" where
  "open_listener h [] = (None, [])"
| "open_listener h (ai # ais) =
     (if \<not> h_socket h ai then open_listener h ais
      else if h_bind h ai \<and> h_listen h ai then (Some ai, [])
      else
        (let (l, logs) = open_listener h ais
         in (l, main_log Debug (''bind/listen failed: '' @ int_to_string (h_errno h ai)) # logs)))"

definition quoted :: "string \<Rightarrow> string" where
  "quoted s = [CHR 0x27] @ s @ [CHR 0x27]"

text \<open>\<open>Inl\<close> the text on standard error before the exit with code 1, or the configuration and the
  listener; the log lines on the way.\<close>

definition startup :: "environment \<Rightarrow> 'b host \<Rightarrow> (string + config \<times> 'b) \<times> log_call list" where
  "startup env h =
     (case loadConfig env of
        Inl e \<Rightarrow> (Inl (''Config error: '' @ e @ [LF]), [])
      | Inr cfg \<Rightarrow>
          if \<not> h_net_init h then (Inl (''Network init failed.'' @ [LF]), [])
          else
            (let cannot_resolve = (Inl (''Cannot resolve bind address '' @ quoted (cfg_bind cfg) @ ''.'' @ [LF]), [])
             in case h_resolve h (takeWhile (\<lambda>c. c \<noteq> CHR 0x00) (cfg_bind cfg)) (int_to_string (cfg_port cfg)) of
                  None \<Rightarrow> cannot_resolve
                | Some [] \<Rightarrow> cannot_resolve
                | Some (ai # ais) \<Rightarrow>
                    (case open_listener h (ai # ais) of
                       (None, logs) \<Rightarrow>
                         (Inl (''Cannot listen on '' @ cfg_bind cfg @ '':'' @ int_to_string (cfg_port cfg)
                               @ '' (err '' @ int_to_string (h_last_error h) @ ''). Port busy?'' @ [LF]), logs)
                     | (Some l, logs) \<Rightarrow> (Inr (cfg, l), logs))))"

text \<open>\<^verbatim>\<open>getAddress.cpp\<close>: the name of the host, when there is one, and the results of \<^verbatim>\<open>inet_ntop\<close> on
  its addresses, when it resolves, give the last printable address and the text printed meanwhile.\<close>

fun last_address :: "string \<Rightarrow> string option list \<Rightarrow> string \<times> string" where
  "last_address address [] = (address, [])"
| "last_address address (None # ps) = last_address address ps"
| "last_address address (Some ip # ps) =
     (let (a, out) = last_address ip ps in (a, ''- '' @ ip @ [LF] @ out))"

definition getLocalIPAddress :: "string option \<Rightarrow> (string \<Rightarrow> string option list option) \<Rightarrow> string \<times> string" where
  "getLocalIPAddress hostname resolve =
     (let fallback = ''127.0.0.1''
      in case hostname of
           None \<Rightarrow> (fallback, [])
         | Some name \<Rightarrow>
             (let out = [LF] @ ''Hostname: '' @ name @ [LF]
              in case resolve name of
                   None \<Rightarrow> (fallback, out)
                 | Some ps \<Rightarrow>
                     (let (a, out') = last_address fallback ps
                      in (a, out @ ''Local IP Addresses:'' @ [LF] @ out' @ [LF]))))"

lemma last_address_printed: "fst (last_address a ps) = a \<or> Some (fst (last_address a ps)) \<in> set ps"
  by (induction a ps rule: last_address.induct) (auto split: prod.splits)

text \<open>The call prints before its result is printed, so its text stands in the middle of the line.\<close>

definition banner :: "config \<Rightarrow> string \<times> string \<Rightarrow> string" where
  "banner cfg localIp =
     ''module_main gateway v'' @ kGatewayVersion @ '' started'' @ [LF]
     @ ''Listen:    http://'' @ cfg_bind cfg @ '':'' @ int_to_string (cfg_port cfg) @ ''/'' @ [LF]
     @ ''Health:    http://'' @ cfg_bind cfg @ '':'' @ int_to_string (cfg_port cfg) @ ''/health'' @ [LF]
     @ ''Log level: '' @ cfg_logLevel cfg @ [LF]
     @ ''Upstreams:'' @ [LF]
     @ concat (map (\<lambda>area.
          (let up = upstreamFor cfg area
           in ''  /api/'' @ area @ ''/* -> ''
              @ (if up = [] then ''(not configured, 502 at runtime)'' else up) @ [LF])) apiAreas)
     @ ''Local IP in LAN: '' @ snd localIp @ fst localIp @ [LF] @ [LF]"

text \<open>The peer's address as text, or \<^verbatim>\<open>unknown\<close> when a call fails.\<close>

definition peerIp :: "bool \<Rightarrow> string option \<Rightarrow> string" where
  "peerIp getpeername_ok ntop =
     (if \<not> getpeername_ok then ''unknown''
      else (case ntop of None \<Rightarrow> ''unknown'' | Some s \<Rightarrow> s))"

text \<open>A listener that was opened is bound, and the addresses before it could not be used.\<close>

lemma open_listener_Some:
  "open_listener h ais = (Some l, logs) \<Longrightarrow>
   \<exists>pre post. ais = pre @ l # post \<and> h_socket h l \<and> h_bind h l \<and> h_listen h l \<and>
     list_all (\<lambda>ai. h_socket h ai \<longrightarrow> \<not> (h_bind h ai \<and> h_listen h ai)) pre"
proof (induction ais arbitrary: logs)
  case (Cons ai ais)
  show ?case
  proof (cases "h_socket h ai \<and> h_bind h ai \<and> h_listen h ai")
    case True
    with Cons.prems show ?thesis by (intro exI[of _ "[]"] exI[of _ ais]) simp
  next
    case False
    with Cons.prems obtain logs' where "open_listener h ais = (Some l, logs')"
      by (auto split: if_splits prod.splits)
    from Cons.IH[OF this] obtain pre post where "ais = pre @ l # post" "h_socket h l \<and> h_bind h l \<and> h_listen h l"
      "list_all (\<lambda>ai. h_socket h ai \<longrightarrow> \<not> (h_bind h ai \<and> h_listen h ai)) pre" by blast
    with False show ?thesis by (intro exI[of _ "ai # pre"] exI[of _ post]) simp
  qed
qed simp

text \<open>Everything that can be seen of a start: the text of the failure or the banner, and the log.\<close>

definition startup_output :: "environment \<Rightarrow> 'b host \<Rightarrow> string \<times> string \<Rightarrow> string \<times> log_call list" where
  "startup_output env h localIp =
     (case startup env h of
        (Inl e, logs) \<Rightarrow> (e, logs)
      | (Inr (cfg, l), logs) \<Rightarrow> (banner cfg localIp, logs))"

lemma env_config_secret:
  assumes "n = ''JWT_SECRET''"
  shows "env_config (env(n \<mapsto> s)) = (env_config env)\<lparr> jwtSecret := s \<rparr>"
proof -
  have "envStr (env(n \<mapsto> s)) n [] = s" by (simp add: envStr_def)
  moreover have "envStr (env(n \<mapsto> s)) m d = envStr env m d" "envInt (env(n \<mapsto> s)) m i lo hi = envInt env m i lo hi"
    if "m \<noteq> n" for m d i lo hi
    using that by (simp_all add: envStr_def envInt_def)
  ultimately show ?thesis
    by (simp add: env_config_def env_upstreams_def assms)
qed

lemma loadConfig_secret:
  "s \<noteq> [] \<Longrightarrow> loadConfig (env(''JWT_SECRET'' \<mapsto> s)) =
     (case find bad_upstream (upstreams (env_config env)) of
        Some kv \<Rightarrow> Inl (''Upstream URL for '' @ [CHR 0x27] @ fst kv @ [CHR 0x27]
                     @ '' must start with http:// (got '' @ [CHR 0x27] @ snd kv @ [CHR 0x27] @ '').'')
      | None \<Rightarrow> Inr ((env_config env)\<lparr> jwtSecret := s \<rparr>))"
  by (simp add: loadConfig_def env_config_secret Let_def)

text \<open>C33:
  The secret is never shown: what the program prints at its start, be it an error, the banner or the
  log, is the same for every secret.
\<close>

theorem secret_not_printed:
  assumes "s \<noteq> []" "s' \<noteq> []"
  shows "startup_output (env(''JWT_SECRET'' \<mapsto> s)) h localIp = startup_output (env(''JWT_SECRET'' \<mapsto> s')) h localIp"
proof -
  have b: "banner (c\<lparr> jwtSecret := x \<rparr>) ip = banner (c\<lparr> jwtSecret := y \<rparr>) ip" for c x y ip
  proof -
    have u: "upstreams (c\<lparr> jwtSecret := z \<rparr>) = upstreams c" for z by simp
    have "upstreamFor (c\<lparr> jwtSecret := z \<rparr>) a = upstreamFor c a" for z a
      unfolding upstreamFor_def u ..
    then show ?thesis by (simp add: banner_def)
  qed
  show ?thesis
    using assms b
    by (auto simp: startup_output_def startup_def loadConfig_secret Let_def simp del: open_listener.simps
        split: option.splits list.splits prod.splits)
qed

definition sample_host :: "nat host" where
  "sample_host = \<lparr> h_net_init = True, h_resolve = (\<lambda>_ _. Some [0]), h_socket = (\<lambda>_. True), h_bind = (\<lambda>_. True),
     h_listen = (\<lambda>_. True), h_errno = (\<lambda>_. 0), h_last_error = 0 \<rparr>"

lemma secret_not_printed_witness:
  "startup_output (sample_env(''JWT_SECRET'' \<mapsto> ''a'')) sample_host (''10.0.0.1'', []) =
   startup_output (sample_env(''JWT_SECRET'' \<mapsto> ''b'')) sample_host (''10.0.0.1'', [])"
  by (rule secret_not_printed) simp_all

section \<open>State\<close>

text \<open>Where the main thread is: before the test of the flag, after \<^verbatim>\<open>waitReadable\<close>, in the shutdown
  loop with its counter, or returned.\<close>

datatype main_pc = Checking | Accepting | Draining nat | Stopped

text \<open>A connection thread before and after \<^verbatim>\<open>handleClient\<close>.\<close>

record worker =
  wk_id :: int
  wk_ip :: string
  wk_handled :: bool

record 'a gateway =
  g_running :: bool
  g_pc :: main_pc
  activeClients :: int
  connSeq :: int
  g_workers :: "worker list"
  g_limiter :: rate_limiter
  g_log :: "log_call list"
  g_trace :: "(int \<times> 'a event list) list"

definition initial :: "config \<Rightarrow> 'a gateway" where
  "initial cfg =
     \<lparr> g_running = True, g_pc = Checking, activeClients = 0, connSeq = 0, g_workers = [],
       g_limiter = make_limiter (rateLimitPerMin cfg), g_log = [], g_trace = [] \<rparr>"

section \<open>Steps\<close>

text \<open>\<^verbatim>\<open>select\<close> on the listener, for half a second at most.\<close>

definition waitReadable :: "(int \<Rightarrow> timeval \<Rightarrow> int) \<Rightarrow> int \<Rightarrow> bool" where
  "waitReadable select_call listener = (0 < select_call (listener + 1) \<lparr> tv_sec = 0, tv_usec = 500 * 1000 \<rparr>)"

lemma waitReadable_one: "waitReadable (\<lambda>n tv. 1) listener"
  by (simp add: waitReadable_def)

datatype actor = Main_thread | Worker_thread | Signal

text \<open>\<open>meets i\<close> is the world that connection \<open>i\<close> meets.\<close>

inductive gw_step ::
  "(int \<Rightarrow> ('c, 'k, 'n, 'a) world) \<Rightarrow> config \<Rightarrow> 'a gateway \<Rightarrow> actor \<Rightarrow> 'a gateway \<Rightarrow> bool" for meets cfg where
  on_signal: "gw_step meets cfg s Signal (s\<lparr> g_running := False \<rparr>)"
| nothing_readable: "g_pc s = Checking \<Longrightarrow> g_running s \<Longrightarrow> \<not> waitReadable select_call listener \<Longrightarrow>
    gw_step meets cfg s Main_thread s"
| readable: "g_pc s = Checking \<Longrightarrow> g_running s \<Longrightarrow> waitReadable select_call listener \<Longrightarrow>
    gw_step meets cfg s Main_thread (s\<lparr> g_pc := Accepting \<rparr>)"
| accept_failed: "g_pc s = Accepting \<Longrightarrow>
    gw_step meets cfg s Main_thread (s\<lparr> g_pc := Checking,
      g_log := g_log s @ (if g_running s then [main_log Warn (''accept failed: '' @ int_to_string errno)] else []) \<rparr>)"
| too_many: "g_pc s = Accepting \<Longrightarrow> maxClients cfg \<le> activeClients s \<Longrightarrow>
    gw_step meets cfg s Main_thread (s\<lparr> g_pc := Checking,
      g_log := g_log s @ [main_log Warn ''Too many clients, connection rejected.''] \<rparr>)"
| no_timeout: "g_pc s = Accepting \<Longrightarrow> activeClients s < maxClients cfg \<Longrightarrow>
    gw_step meets cfg s Main_thread (s\<lparr> g_pc := Checking,
      g_log := g_log s @ [main_log Warn ''Cannot set recv timeout, closing.''] \<rparr>)"
| spawn: "g_pc s = Accepting \<Longrightarrow> activeClients s < maxClients cfg \<Longrightarrow>
    gw_step meets cfg s Main_thread (s\<lparr> g_pc := Checking, connSeq := connSeq s + 1,
      activeClients := activeClients s + 1,
      g_workers := g_workers s @ [\<lparr> wk_id = connSeq s + 1, wk_ip = ip, wk_handled = False \<rparr>] \<rparr>)"
| leave_loop: "g_pc s = Checking \<Longrightarrow> \<not> g_running s \<Longrightarrow> gw_step meets cfg s Main_thread (s\<lparr> g_pc := Draining 0 \<rparr>)"
| drain: "g_pc s = Draining i \<Longrightarrow> i < 100 \<Longrightarrow> 0 < activeClients s \<Longrightarrow>
    gw_step meets cfg s Main_thread (s\<lparr> g_pc := Draining (Suc i) \<rparr>)"
| stop: "g_pc s = Draining i \<Longrightarrow> 100 \<le> i \<or> activeClients s \<le> 0 \<Longrightarrow>
    gw_step meets cfg s Main_thread (s\<lparr> g_pc := Stopped \<rparr>)"
| handle: "g_workers s = us @ wk # vs \<Longrightarrow> \<not> wk_handled wk \<Longrightarrow>
    handleClient (meets (wk_id wk)) cfg (wk_id wk) (wk_ip wk) (g_limiter s) = (es, l) \<Longrightarrow>
    gw_step meets cfg s Worker_thread (s\<lparr> g_workers := us @ wk\<lparr> wk_handled := True \<rparr> # vs, g_limiter := l,
      g_trace := g_trace s @ [(wk_id wk, es)] \<rparr>)"
| finish: "g_workers s = us @ wk # vs \<Longrightarrow> wk_handled wk \<Longrightarrow>
    gw_step meets cfg s Worker_thread (s\<lparr> g_workers := us @ vs, activeClients := activeClients s - 1 \<rparr>)"

inductive_cases main_stepE: "gw_step meets cfg s Main_thread t"
inductive_cases worker_stepE: "gw_step meets cfg s Worker_thread t"
inductive_cases signal_stepE: "gw_step meets cfg s Signal t"

text \<open>Runs with the actors of their steps.\<close>

inductive gw_run ::
  "(int \<Rightarrow> ('c, 'k, 'n, 'a) world) \<Rightarrow> config \<Rightarrow> 'a gateway \<Rightarrow> actor list \<Rightarrow> 'a gateway \<Rightarrow> bool" for meets cfg s where
  run_nil: "gw_run meets cfg s [] s"
| run_step: "gw_run meets cfg s as t \<Longrightarrow> gw_step meets cfg t a u \<Longrightarrow> gw_run meets cfg s (as @ [a]) u"

section \<open>The invariant of the accept loop\<close>

definition gw_inv :: "config \<Rightarrow> 'a gateway \<Rightarrow> bool" where
  "gw_inv cfg s \<longleftrightarrow>
     activeClients s = int (length (g_workers s)) \<and> activeClients s \<le> max 0 (maxClients cfg) \<and>
     distinct (map wk_id (g_workers s)) \<and> 0 \<le> connSeq s \<and>
     (\<forall>i \<in> set (map wk_id (g_workers s)) \<union> set (map fst (g_trace s)). 1 \<le> i \<and> i \<le> connSeq s) \<and>
     distinct (map fst (g_trace s)) \<and>
     (\<forall>wk \<in> set (g_workers s). wk_handled wk \<longleftrightarrow> wk_id wk \<in> set (map fst (g_trace s))) \<and>
     (\<forall>(i, es) \<in> set (g_trace s). finished es) \<and> limiter_ok (g_limiter s)"

lemma gw_inv_initial: "gw_inv cfg (initial cfg)"
  by (simp add: gw_inv_def initial_def make_limiter_ok)

lemma id_range: "gw_inv cfg s \<Longrightarrow> wk \<in> set (g_workers s) \<Longrightarrow> wk_id wk \<le> connSeq s"
  by (simp add: gw_inv_def)

lemma trace_range:
  assumes "gw_inv cfg s" "(i, es) \<in> set (g_trace s)"
  shows "i \<le> connSeq s"
proof -
  have "i \<in> set (map fst (g_trace s))" using assms(2) by force
  then show ?thesis using assms(1) unfolding gw_inv_def by blast
qed

lemma gw_inv_step:
  assumes "gw_step meets cfg s a t" "gw_inv cfg s"
  shows "gw_inv cfg t"
  using assms
proof cases
  case (handle us wk vs es l)
  have "finished es" using handle_finished[of "meets (wk_id wk)" cfg "wk_id wk" "wk_ip wk" "g_limiter s"] handle(5) by (metis fst_conv)
  moreover have "limiter_ok l"
    using handleClient_limiter[of "g_limiter s" "meets (wk_id wk)" cfg "wk_id wk" "wk_ip wk"] handle(5) assms(2)
    by (simp add: gw_inv_def)
  ultimately show ?thesis using handle assms(2) unfolding gw_inv_def by (auto simp: image_iff)
next
  case (finish us wk vs)
  with assms(2) show ?thesis unfolding gw_inv_def by auto
next
  case (spawn ip)
  have w: "wk_id x \<noteq> connSeq s + 1 \<and> connSeq s + 1 \<noteq> wk_id x \<and> wk_id x \<le> connSeq s + 1"
    if "x \<in> set (g_workers s)" for x using id_range[OF assms(2) that] by linarith
  have e: "i \<noteq> connSeq s + 1 \<and> connSeq s + 1 \<noteq> i \<and> i \<le> connSeq s + 1"
    if "(i, es) \<in> set (g_trace s)" for i es using trace_range[OF assms(2) that] by linarith
  have f: "(connSeq s + 1, es) \<notin> set (g_trace s)" for es using e by blast
  show ?thesis using spawn assms(2) w e f unfolding gw_inv_def by auto
qed (auto simp: gw_inv_def)

lemma gw_inv_run: "gw_run meets cfg s as t \<Longrightarrow> gw_inv cfg s \<Longrightarrow> gw_inv cfg t"
  by (induction rule: gw_run.induct) (auto intro: gw_inv_step)

text \<open>C11:
  In every state the gateway can reach, at most the configured number of connections is open, the
  counter of active clients is the number of connection threads, connections have distinct ids from 1
  up to the sequence number, each is handled at most once, what was done on each is finished, and the limiter is sound.
\<close>

theorem reachable_gw_inv:
  assumes "gw_run meets cfg (initial cfg) as s"
  shows "gw_inv cfg s"
  using assms gw_inv_initial by (rule gw_inv_run)

section \<open>Admission as a semaphore\<close>

text \<open>The ids of the open connections.\<close>

definition open_ids :: "'a gateway \<Rightarrow> int set" where
  "open_ids s = set (map wk_id (g_workers s))"

text \<open>A counting semaphore with \<open>n\<close> places over a set of tickets.\<close>

inductive sem_step :: "int \<Rightarrow> int set \<Rightarrow> int set \<Rightarrow> bool" for n where
  sem_idle: "sem_step n A A"
| sem_take: "i \<notin> A \<Longrightarrow> int (card A) < n \<Longrightarrow> sem_step n A (insert i A)"
| sem_give: "i \<in> A \<Longrightarrow> sem_step n A (A - {i})"

lemma card_open_ids: "gw_inv cfg s \<Longrightarrow> int (card (open_ids s)) = activeClients s"
  using distinct_card[of "map wk_id (g_workers s)"] by (simp add: gw_inv_def open_ids_def)

lemma step_simulates:
  assumes "gw_step meets cfg s a t" "gw_inv cfg s"
  shows "sem_step (maxClients cfg) (open_ids s) (open_ids t)"
  using assms(1)
proof cases
  case (spawn ip)
  have "connSeq s + 1 \<notin> open_ids s"
    using id_range[OF assms(2)] by (fastforce simp: open_ids_def)
  then have "sem_step (maxClients cfg) (open_ids s) (insert (connSeq s + 1) (open_ids s))"
    using spawn card_open_ids[OF assms(2)] by (intro sem_take) auto
  then show ?thesis using spawn by (simp add: open_ids_def insert_commute)
next
  case (finish us wk vs)
  then have "open_ids t = open_ids s - {wk_id wk}" "wk_id wk \<in> open_ids s"
    using assms(2) by (auto simp: gw_inv_def open_ids_def)
  then show ?thesis by (metis sem_give)
next
  case (handle us wk vs es l)
  then have "open_ids t = open_ids s" by (simp add: open_ids_def)
  then show ?thesis by (metis sem_idle)
qed (auto simp: open_ids_def intro: sem_idle)

text \<open>C15:
  The accept loop implements a counting semaphore: on every run each step of the gateway is an idle
  step of the semaphore, takes one new ticket while fewer than the configured number are out, or gives
  one back.
\<close>

theorem gateway_refines_semaphore:
  assumes "gw_run meets cfg (initial cfg) as s" "gw_step meets cfg s a t"
  shows "sem_step (maxClients cfg) (open_ids s) (open_ids t)"
  using assms(2) gw_inv_run[OF assms(1) gw_inv_initial] by (rule step_simulates)

section \<open>Shutdown\<close>

text \<open>The number of its own steps the main thread may still take after the signal.\<close>

fun main_rank :: "main_pc \<Rightarrow> nat" where
  "main_rank Accepting = 103"
| "main_rank Checking = 102"
| "main_rank (Draining i) = Suc (100 - i)"
| "main_rank Stopped = 0"

definition own_steps :: "actor list \<Rightarrow> nat" where
  "own_steps as = length (filter (\<lambda>a. a = Main_thread) as)"

lemma step_after_signal:
  assumes "gw_step meets cfg s a t" "\<not> g_running s"
  shows "\<not> g_running t \<and> main_rank (g_pc t) + own_steps [a] \<le> main_rank (g_pc s) \<and>
    connSeq t + (if g_pc t = Accepting then 1 else 0) \<le> connSeq s + (if g_pc s = Accepting then 1 else 0)"
  using assms by cases (auto simp: own_steps_def)

lemma run_after_signal:
  assumes "gw_run meets cfg s as t" "\<not> g_running s"
  shows "\<not> g_running t \<and> own_steps as + main_rank (g_pc t) \<le> main_rank (g_pc s) \<and>
    connSeq t + (if g_pc t = Accepting then 1 else 0) \<le> connSeq s + (if g_pc s = Accepting then 1 else 0)"
  using assms
proof (induction rule: gw_run.induct)
  case run_nil
  then show ?case by (simp add: own_steps_def)
next
  case (run_step as t a u)
  with step_after_signal[OF run_step.hyps(2)] show ?case
    by (fastforce simp: own_steps_def)
qed

lemma main_can_move: "g_pc s \<noteq> Stopped \<Longrightarrow> \<exists>t. gw_step meets cfg s Main_thread t"
proof (cases "g_pc s")
  case Checking
  then show ?thesis by (cases "g_running s") (blast intro: readable[OF _ _ waitReadable_one] leave_loop)+
next
  case Accepting
  then show ?thesis by (blast intro: accept_failed)
next
  case (Draining i)
  then show ?thesis by (cases "i < 100 \<and> 0 < activeClients s") (blast intro: drain, force intro: stop)
qed simp

text \<open>C14:
  After a signal the gateway stops: on every continuation the main thread makes at most 103 steps of its
  own, can always make one until it has stopped, and opens at most one more connection (the one it was
  about to accept).
\<close>

theorem shutdown_bounded:
  assumes "gw_run meets cfg s as t" "\<not> g_running s"
  shows "own_steps as \<le> 103 \<and> (g_pc t \<noteq> Stopped \<longrightarrow> (\<exists>u. gw_step meets cfg t Main_thread u)) \<and>
    connSeq t \<le> connSeq s + 1"
proof -
  have "main_rank pc \<le> 103" for pc by (cases pc) auto
  then have "own_steps as \<le> 103"
    using run_after_signal[OF assms] by (meson add_leE order_trans)
  moreover have "connSeq t \<le> connSeq s + 1"
    using run_after_signal[OF assms] by (auto split: if_splits)
  ultimately show ?thesis using main_can_move by blast
qed

lemma gw_run_trans: "gw_run meets cfg s as t \<Longrightarrow> gw_step meets cfg t a u \<Longrightarrow> bs = as @ [a] \<Longrightarrow> gw_run meets cfg s bs u"
  by (simp add: gw_run.run_step)

lemma drain_run:
  "gw_run meets cfg s as t \<Longrightarrow> g_pc t = Draining 0 \<Longrightarrow> 0 < activeClients t \<Longrightarrow> i \<le> 100 \<Longrightarrow>
   gw_run meets cfg s (as @ replicate i Main_thread) (t\<lparr> g_pc := Draining i \<rparr>)"
proof (induction i)
  case 0
  then have t: "t\<lparr> g_pc := Draining 0 \<rparr> = t" by (cases t) simp
  show ?case unfolding t using 0 by simp
next
  case (Suc i)
  let ?t = "t\<lparr> g_pc := Draining i \<rparr>"
  have "gw_step meets cfg ?t Main_thread (?t\<lparr> g_pc := Draining (Suc i) \<rparr>)"
    by (rule drain) (use Suc.prems in auto)
  then have "gw_step meets cfg ?t Main_thread (t\<lparr> g_pc := Draining (Suc i) \<rparr>)" by simp
  with Suc show ?case by (auto simp: replicate_append_same[symmetric] intro: gw_run_trans)
qed

text \<open>The state after one accepted connection and a signal, and after the shutdown loop.\<close>

definition one_client :: "config \<Rightarrow> string \<Rightarrow> 'a gateway" where
  "one_client cfg ip = (initial cfg)\<lparr> g_running := False, activeClients := 1, connSeq := 1,
     g_workers := [\<lparr> wk_id = 1, wk_ip = ip, wk_handled = False \<rparr>] \<rparr>"

lemma one_client_run:
  fixes meets :: "int \<Rightarrow> ('c, 'k, 'n, 'a) world"
  assumes "0 < maxClients cfg"
  shows "gw_run meets cfg (initial cfg) [Main_thread, Main_thread, Signal] (one_client cfg ip)"
proof -
  let ?a = "(initial cfg :: 'a gateway)\<lparr> g_pc := Accepting \<rparr>"
  let ?b = "?a\<lparr> g_pc := Checking, connSeq := connSeq ?a + 1, activeClients := activeClients ?a + 1,
      g_workers := g_workers ?a @ [\<lparr> wk_id = connSeq ?a + 1, wk_ip = ip, wk_handled = False \<rparr>] \<rparr>"
  have "gw_step meets cfg (initial cfg) Main_thread ?a"
    by (rule readable[OF _ _ waitReadable_one]) (simp_all add: initial_def)
  then have "gw_run meets cfg (initial cfg) [Main_thread] ?a"
    by (rule gw_run_trans[OF run_nil]) simp
  moreover have "gw_step meets cfg ?a Main_thread ?b"
    by (rule spawn) (use assms in \<open>simp_all add: initial_def\<close>)
  ultimately have "gw_run meets cfg (initial cfg) [Main_thread, Main_thread] ?b"
    by (rule gw_run_trans) simp
  then have "gw_run meets cfg (initial cfg) [Main_thread, Main_thread, Signal] (?b\<lparr> g_running := False \<rparr>)"
    by (rule gw_run_trans[OF _ on_signal]) simp
  then show ?thesis by (simp add: one_client_def initial_def)
qed

text \<open>C34:
  The shutdown does not wait for ever: after the loop of 100 polls \<^verbatim>\<open>main\<close> returns even while a
  connection is still being handled. Its thread is detached and holds references to the configuration,
  the limiter and the counter, which are locals of the function that has returned.
\<close>

theorem stops_under_open_connection:
  fixes meets :: "int \<Rightarrow> ('c, 'k, 'n, 'a) world"
  assumes "0 < maxClients cfg"
  shows "\<exists>as s. gw_run meets cfg (initial cfg) as s \<and> g_pc s = Stopped \<and> activeClients s = 1 \<and>
    g_workers s = [\<lparr> wk_id = 1, wk_ip = ip, wk_handled = False \<rparr>]"
proof -
  let ?s = "one_client cfg ip :: 'a gateway"
  have "gw_step meets cfg ?s Main_thread (?s\<lparr> g_pc := Draining 0 \<rparr>)"
    by (rule leave_loop) (simp_all add: one_client_def initial_def)
  then have "gw_run meets cfg (initial cfg) ([Main_thread, Main_thread, Signal] @ [Main_thread]) (?s\<lparr> g_pc := Draining 0 \<rparr>)"
    using one_client_run[OF assms] by (intro run_step)
  from drain_run[OF this, of 100] obtain as where
    "gw_run meets cfg (initial cfg) as (?s\<lparr> g_pc := Draining 100 \<rparr>)"
    by (auto simp: one_client_def)
  moreover have "gw_step meets cfg (?s\<lparr> g_pc := Draining 100 \<rparr>) Main_thread
      (?s\<lparr> g_pc := Draining 100 \<rparr>\<lparr> g_pc := Stopped \<rparr>)"
    by (rule stop[where i = 100]) simp_all
  ultimately have "gw_run meets cfg (initial cfg) (as @ [Main_thread]) (?s\<lparr> g_pc := Stopped \<rparr>)"
    by (auto dest: run_step)
  moreover have "g_pc (?s\<lparr> g_pc := Stopped \<rparr>) = Stopped \<and> activeClients (?s\<lparr> g_pc := Stopped \<rparr>) = 1 \<and>
      g_workers (?s\<lparr> g_pc := Stopped \<rparr>) = [\<lparr> wk_id = 1, wk_ip = ip, wk_handled = False \<rparr>]"
    by (simp add: one_client_def)
  ultimately show ?thesis by blast
qed

lemma stops_under_open_connection_witness:
  "\<exists>as s. gw_run (\<lambda>_. sample_world []) default_config (initial default_config) as s \<and> g_pc s = Stopped \<and>
    activeClients s = 1 \<and> g_workers s = [\<lparr> wk_id = 1, wk_ip = ''10.0.0.7'', wk_handled = False \<rparr>]"
  by (rule stops_under_open_connection) (simp add: default_config_def)

abbreviation sample_meets :: "int \<Rightarrow> (string, string, nat, nat) world" where
  "sample_meets \<equiv> \<lambda>_. sample_world []"

lemma sample_one_client_run:
  "gw_run sample_meets default_config (initial default_config) [Main_thread, Main_thread, Signal]
     (one_client default_config ''10.0.0.7'')"
  by (rule one_client_run) (simp add: default_config_def)

lemma reachable_gw_inv_witness: "gw_inv default_config (one_client default_config ''10.0.0.7'' :: nat gateway)"
  using reachable_gw_inv[OF sample_one_client_run] .

lemma gateway_refines_semaphore_witness: "sem_step 128 {1} ({1} :: int set)"
proof -
  have "gw_step sample_meets default_config (one_client default_config ''10.0.0.7'') Signal
      ((one_client default_config ''10.0.0.7'')\<lparr> g_running := False \<rparr>)" by (rule on_signal)
  from gateway_refines_semaphore[OF sample_one_client_run this] show ?thesis
    by (simp add: open_ids_def one_client_def initial_def default_config_def)
qed

lemma shutdown_bounded_witness: "own_steps [] \<le> 103 \<and>
    (\<exists>u. gw_step sample_meets default_config (one_client default_config ''10.0.0.7'') Main_thread u)"
proof -
  have "\<not> g_running (one_client default_config ''10.0.0.7'' :: nat gateway)"
    "g_pc (one_client default_config ''10.0.0.7'' :: nat gateway) \<noteq> Stopped"
    by (simp_all add: one_client_def initial_def)
  with shutdown_bounded[OF run_nil[of sample_meets default_config "one_client default_config ''10.0.0.7''"]]
  show ?thesis by blast
qed

end
