(* ===== verification/Spec2Isabelle.thy ===== *)
theory Spec2Isabelle
  imports Prelude Http Config RateLimiter Locking Picojson_Value Picojson_Memory Picojson_Moves Picojson_Parse Picojson_Roundtrip Picojson_Null Picojson_Stream
    Base64 Jwt_Error Jwt_Claims Jwt_Traits Jwt_Generic Jwt_Checks Jwt_Keys Jwt_Algorithm Jwt_Builder Jwt_Verifier Jwt_Jwk
    CheckToken Router Logger Net Proxy Platforms Descriptors HandleClient Contract Threads Gateway
begin

text \<open>
  A verification development for the API gateway under \<^verbatim>\<open>src/src\<close>: a C++ program that reads one
  HTTP request per connection, limits the rate of each client address, routes by area, authenticates
  with a JSON web token, checks the scopes of the token against the route and forwards the request to
  the upstream service of the area. The libraries that are compiled in as source (picojson, jwt-cpp)
  are modelled too; OpenSSL, the C library, the sockets and the clocks are parameters.

  \<^bold>\<open>Parts and how they interact.\<close> \<^verbatim>\<open>main.cpp\<close> loads the configuration (\<^verbatim>\<open>Config.h\<close>), opens the listener
  and starts a thread per connection. A thread runs \<^verbatim>\<open>handleClient\<close> (\<^verbatim>\<open>HandleClient.cpp\<close>), which calls
  the HTTP parser (\<^verbatim>\<open>Http.cpp\<close>), the shared rate limiter (\<^verbatim>\<open>RateLimiter.h\<close>), the router
  (\<^verbatim>\<open>Router.cpp\<close>), the token check (\<^verbatim>\<open>CheckToken.cpp\<close>, over \<^verbatim>\<open>jwt.h\<close>, \<^verbatim>\<open>base.h\<close>, \<^verbatim>\<open>picojson.h\<close>) and the
  proxy (\<^verbatim>\<open>Proxy.cpp\<close>). The limiter and the counters of \<^verbatim>\<open>main\<close> are the only shared state.

  \<^bold>\<open>Theories.\<close>
  \<^item> \<^verbatim>\<open>Prelude\<close>: bytes, \<^verbatim>\<open>find\<close>, \<^verbatim>\<open>substr\<close>, decimal numbers and \<^verbatim>\<open>stoi\<close>, ordered and unordered maps with
    their interface as the locale \<open>keyed_map\<close>, results that may be exceptions (\<open>sbind\<close>), pairs of functions
    that write and read as the locales \<open>codec\<close> and \<open>layered_codec\<close>.
  \<^item> \<^verbatim>\<open>Http\<close>: request parser, response builder, JSON error bodies. Round trip of a rendered request, what
    an accepted request satisfies, the frame of a response, the head without its last line end.
  \<^item> \<^verbatim>\<open>Config\<close>: the environment as a function, the configuration and its bounds, the upstream table.
  \<^item> \<^verbatim>\<open>RateLimiter\<close>: fixed windows per address. Invariant, refinement of a limiter that never purges (for
    readings in order, or at most 20000 addresses in any order), the exact burst bound; the locale
    \<open>admission\<close> is what the handler relies on.
  \<^item> \<^verbatim>\<open>Locking\<close>: \<open>allow\<close> as the steps of callers that run at the same time (\<open>caller_step\<close>), the mutex being
    a resource that one of them holds. The calls have the results they have one after another, which is
    why the other theories take \<open>allow\<close> as one step; all of them return; and what goes wrong because the
    clock is read before the mutex is taken.
  \<^item> \<^verbatim>\<open>Picojson_Value\<close>, \<^verbatim>\<open>Picojson_Parse\<close>, \<^verbatim>\<open>Picojson_Roundtrip\<close>: values, serializer and recursive descent
    parser, its termination (the fuel is twice the length of the text plus two, and never runs out), round
    trip, nesting limit.
  \<^item> \<^verbatim>\<open>Picojson_Null\<close>: the parser with the context that builds nothing: it ends, it accepts what the other
    context accepts when its counter is large enough, and it loses levels on empty objects.
  \<^item> \<^verbatim>\<open>Picojson_Stream\<close>: the stream operators with the global last error, round trip of several values on a
    stream; the context that refuses everything and what it accepts all the same.
  \<^item> \<^verbatim>\<open>Picojson_Memory\<close>: the tagged union behind a value with its heap cells: copying, clearing, swapping
    and assigning, and that nothing leaks and nothing is freed twice. Fuel is the number of levels of the
    value, with which clearing and copying always succeed.
  \<^item> \<^verbatim>\<open>Picojson_Moves\<close>: the constructors and setters that take an rvalue: what they free and what changes hands.
  \<^item> \<^verbatim>\<open>Base64\<close>: both alphabets on 32 bit words, errors, round trip.
  \<^item> \<^verbatim>\<open>Jwt_Error\<close>, \<^verbatim>\<open>Jwt_Claims\<close>, \<^verbatim>\<open>Jwt_Keys\<close>, \<^verbatim>\<open>Jwt_Algorithm\<close>, \<^verbatim>\<open>Jwt_Builder\<close>, \<^verbatim>\<open>Jwt_Verifier\<close>, \<^verbatim>\<open>Jwt_Jwk\<close>:
    the token library in the order of \<^verbatim>\<open>jwt.h\<close>. OpenSSL is the record \<open>openssl\<close> of functions; the
    locales \<open>signature_scheme\<close> and \<open>exact_scheme\<close> are what the builder and the verifier need of an
    algorithm, interpreted by none and HMAC. Dates are 64 bit words of nanoseconds and wrap.
  \<^item> \<^verbatim>\<open>Jwt_Traits\<close>: the trait classes for three other JSON libraries over a record of what they call; the
    contract of the accessors as the locales \<open>json_traits\<close> and \<open>strict_json_traits\<close>, interpreted by the
    picojson traits and by the three classes.
  \<^item> \<^verbatim>\<open>Jwt_Generic\<close>: decoding and the accessors of \<^verbatim>\<open>jwt.h\<close> for any traits class (the record \<open>traits\<close>, the
    locale \<open>token_traits\<close>); over picojson it is the library of \<open>Jwt_Claims\<close> (\<open>generic_is_picojson\<close>), and
    what decoding throws over the other three.
  \<^item> \<^verbatim>\<open>Jwt_Checks\<close>: the templates of \<^verbatim>\<open>jwt::details\<close> that check a traits class when \<^verbatim>\<open>basic_claim\<close> is
    compiled, over a record of the compiler's answers about types; a check that does not compile is \<open>None\<close>.
  \<^item> \<^verbatim>\<open>CheckToken\<close>: \<open>verifyJwt\<close> and the older wrapper; exactly who is let in, and as whom.
  \<^item> \<^verbatim>\<open>Router\<close>: routes and scopes. \<^verbatim>\<open>Logger\<close>: levels and lines. \<^verbatim>\<open>Net\<close>: results of socket calls, the
    wrappers of both platforms and the send loop.
  \<^item> \<^verbatim>\<open>Proxy\<close>: upstream address, connection, request text, receive loop, answer; \<open>http_answer\<close> is the text of
    any HTTP answer, which is relayed whatever its header lines are.
  \<^item> \<^verbatim>\<open>Platforms\<close>: the branch for Windows of \<^verbatim>\<open>connectWithTimeout\<close> beside the POSIX one, with the
    sets of descriptors the code gives \<^verbatim>\<open>select\<close>; what the two systems document of \<^verbatim>\<open>select\<close> for any sets, and
    what the loop over the addresses makes of a refusal.
  \<^item> \<^verbatim>\<open>HandleClient\<close>: the pipeline as stages that produce a trace of events (log lines, bytes for an
    upstream, the response, the close); mediation, what the trace can depend on.
  \<^item> \<^verbatim>\<open>Contract\<close>: the contract of \<^verbatim>\<open>docs/API_CONTRACT.md\<close> as rules of its own (\<open>justified\<close>), and that every
    answer of the handler is one they justify.
  \<^item> \<^verbatim>\<open>Descriptors\<close>: the sockets a forwarded request opens and closes, and the table of descriptors that
    all threads share; \<open>fd_step\<close> is one change of it. When every \<^verbatim>\<open>FD_SET\<close> is in range, and how it gets
    out of range once threads forward requests.
  \<^item> \<^verbatim>\<open>Threads\<close>: requests one after another (\<open>serve_all\<close>) and the threads of many connections over the
    shared limiter, one effect at a time (\<open>pool_step\<close>), with the clock reading and the decision as separate
    steps. Every interleaving is the sequence in the order of the decisions, and the rate limit holds of it
    as far as the decisions are in the order of the readings. What a thread does behind its decision is a
    list of effects: calls that block are outside of this model.
  \<^item> \<^verbatim>\<open>Gateway\<close>: start-up, banner, accept loop and shutdown; \<open>gw_step\<close> has one rule per branch of the
    loop and interleaves the main thread, the connection threads and the signal handler.
  \<^item> This theory: an authorised request from end to end.

  \<^bold>\<open>Correspondence.\<close> Definitions keep the names of the code; a name of a library constant gets a
  suffix or the name of its class. A C++ exception is the left of a sum (\<open>exn\<close>), \<^verbatim>\<open>return false\<close> with
  an error field is a record or \<open>None\<close>, an output parameter is part of the result. Loops over calls of
  \<^verbatim>\<open>recv\<close> and \<^verbatim>\<open>send\<close> are functions of the number of the call; they terminate because a positive result
  has at least one byte, so no fuel is needed. The handler's life is a function of what it reads
  (record \<open>world\<close>); all its effects are in the trace, so the order of effects is part of the model.
  The check of the client limit and the increment of the counter are one step of \<open>gw_step\<close>: only the
  main thread increments, so an interleaved decrement gives a state that another order gives as well.

  \<^bold>\<open>A limit of what the theorems about the pipeline say.\<close> The handler cuts the head before its last
  line end and the parser refuses such a head, so in the program as it is every request is answered
  400 (\<open>handleClient_only_refuses\<close>). The theorems about \<open>serve\<close> and \<open>handle_request\<close>, those of \<open>Contract\<close>
  among them, and the runs of \<open>Descriptors\<close> in which a thread forwards hold of the code behind the
  parser: they say what the program does once that line end is passed on.

  \<^bold>\<open>Platforms.\<close> The handler and the proxy are modelled as on POSIX, the connection as on Windows
  too. \<^verbatim>\<open>kInvalidSock\<close> is declared for
  Windows only, so that branch does not compile as it stands; where the code compares with it the model
  has a failed call.

  \<^bold>\<open>Not modelled.\<close> The OpenSSL headers (declarations of a library that is not in the repository), the
  \<^verbatim>\<open>defaults.h\<close> files that only
  name instances, what a failed parse leaves in its output, the branches for Windows outside
  \<^verbatim>\<open>NetCompat.h\<close> and \<^verbatim>\<open>connectWithTimeout\<close>, those for OpenSSL 1.0 and LibreSSL, the signal \<^verbatim>\<open>SIGPIPE\<close> (a send to a closed peer is an
  error here), a \<^verbatim>\<open>std::thread\<close> that cannot be created, running out of memory or stack, and an
  \<^verbatim>\<open>accept\<close> that blocks after \<^verbatim>\<open>select\<close>.
\<close>

section \<open>An authorised request from end to end\<close>

text \<open>C2:
  What the gateway is for, in the code behind the parser (the parser itself lets no request through as
  the program stands): a request for an area whose bearer token is genuine and gives the right the
  contract asks for, admitted by the limiter, reaches the area's upstream as exactly the request built
  with the token's identity, and the client gets the status, the announced content type and the body of
  the upstream's HTTP answer. The token may have any claims, the answer any header lines; the verifier's
  checks may run in any order and the answer may arrive in any pieces.
\<close>

theorem authorized_request_served:
  assumes token: "visits_all (w_visit w)" "bears w cfg req j" "has_right j area (req_method req)"
      "identity = \<lparr> auth_ok = True, auth_sub = (case get_subject j of Inr u \<Rightarrow> u | Inl _ \<Rightarrow> []),
         auth_roles = extractStringList j ''roles'', auth_permissions = extractStringList j ''permissions'', auth_error = [] \<rparr>"
    and request: "receive_body w cfg connId parsed leftover i = Inr req"
      "req_target req = ''/api/'' @ area @ rest @ query" "target_parts area rest query"
      "req_method req \<in> set documented_methods" "fst (allow (w_clock w) (req_clientIp req) limiter)"
    and upstream: "upstreamFor cfg area = base" "up_ok (parseUpstream base)"
      "net_resolve (w_net w) (takeWhile (\<lambda>c. c \<noteq> CHR 0x00) (up_host (parseUpstream base)))
         (int_to_string (up_port (parseUpstream base))) = Some ais"
      "connect_first (w_net w) (upstreamTimeoutMs cfg) ais False = (Some s, to)"
      "wire = request_wire (parseUpstream base) req ((if rest = [] then ''/'' else rest) @ query) identity"
      "fst (sendAll (net_send (w_net w) s (timeval_of_ms (upstreamTimeoutMs cfg))) 0 wire)"
    and answer: "net_recv (w_net w) s (timeval_of_ms (upstreamTimeoutMs cfg)) = recv_script cs" "[] \<notin> set cs"
      "concat cs = http_answer version code reason hs body" "length (concat cs) < kMaxUpstreamBytes"
      "answer_ok version code reason hs"
  shows "forwards (fst (handle_request w cfg connId parsed leftover i limiter)) = [(s, wire)] \<and>
    replies (fst (handle_request w cfg connId parsed leftover i limiter)) =
      [\<lparr> resp_status = int code, resp_headers = [(''content-type'', announced_type hs)], resp_body = body \<rparr>]"
proof -
  let ?tok = "bearerFromHeader (header req ''authorization'')"
  let ?path = "(if rest = [] then ''/'' else rest) @ query"
  have tok: "?tok \<noteq> []" "length ?tok \<le> 8192" using bearer_iff(1)[OF token(1)] token(2) by blast+
  have j: "decode_jwt ?tok = Inr j" "jwtSecret cfg \<noteq> []"
    "genuine (w_ssl w) (w_now w) (w_now2 w) (jwtSecret cfg) (jwtIssuer cfg) j"
    using token(2) by (simp_all add: bears_def Let_def)
  have auth: "verifyJwt (w_ssl w) (w_visit w) (w_now w) (w_now2 w) ?tok (jwtSecret cfg) (jwtIssuer cfg) = identity"
    unfolding token(4) by (rule verifyJwt_identity[OF token(1) j(1,3) tok(1) j(2)])
  have m: "isAllowedMethod (req_method req)" using request(4) by (simp only: documented_method_iff)
  note route = route_of_area[OF request(3) m, of cfg, folded request(2), unfolded upstream(1)]
  have base: "base \<noteq> []" using upstream(2) by (auto simp: parseUpstream_def no_upstream_def)
  have ok: "auth_ok identity"
    "hasScope identity area (area @ (if req_method req = ''GET'' then '':read'' else '':write''))"
    using request(3) right_iff[OF _ m, of area identity j] token(3) by (simp_all add: token(4) target_parts_def)
  note fw = relay_answer[OF upstream(2-4) upstream(6)[unfolded upstream(5)] answer]
  note run = serve_forwards[OF request(5) route _ _ refl tok auth ok(1) _ _,
      unfolded route_result.simps, OF refl base ok(2) fw]
  have "handle_request w cfg connId parsed leftover i limiter = serve w cfg connId req limiter"
    by (simp add: handle_request_def request(1))
  then show ?thesis using run by (simp add: upstream(5))
qed

lemma authorized_request_served_witness:
  "replies (fst (handle_request (sample_world sample_pieces) sample_config 1 sample_get [] 1 (make_limiter 5))) =
    [\<lparr> resp_status = 404, resp_headers = [(''content-type'', ''text/html'')], resp_body = ''gone'' \<rparr>]"
proof -
  let ?w = "sample_world sample_pieces" and ?up = "parseUpstream ''http://users:8081''"
  let ?hs = "[''Server: x'', ''CONTENT-Type:  text/html '']"
  have w: "w_ssl ?w = toy_openssl" "w_visit ?w = rev" "w_now ?w = 0" "w_now2 ?w = 0" "w_clock ?w = 1000"
    "w_net ?w = good_network sample_pieces" by (simp_all add: sample_world_def)
  have g: "jwtSecret sample_config = ''key''" "jwtIssuer sample_config = []" "upstreamTimeoutMs sample_config = 5000"
    "upstreamFor sample_config ''users'' = ''http://users:8081''"
    by (simp_all add: sample_config_def default_config_def upstreamFor_def)
  have q: "req_method sample_get = ''GET''" "req_target sample_get = ''/api/'' @ ''users'' @ ''/5'' @ []"
    "req_clientIp sample_get = ''10.0.0.7''" by (simp_all add: sample_get_def)
  have v: "visits_all (w_visit ?w)" by (simp add: w visits_all_rev)
  have "\<exists>j. bears ?w sample_config sample_get j"
    unfolding bearer_iff(1)[OF v, symmetric] sample_bearer
    using sample_verified sample_token_size by (simp add: w g sample_identity_def)
  then obtain j where j: "bears ?w sample_config sample_get j" by blast
  have id: "(case get_subject j of Inr u \<Rightarrow> u | Inl _ \<Rightarrow> []) = ''u1''" "extractStringList j ''roles'' = [''admin'']"
    "extractStringList j ''permissions'' = [''users:read'']"
    using bearer_iff(2)[OF v j] unfolding sample_bearer w g sample_verified by (simp_all add: sample_identity_def)
  have right: "has_right j ''users'' (req_method sample_get)" by (simp add: has_right_def id)
  have body: "receive_body ?w sample_config 1 sample_get [] 1 = Inr sample_get" by code_simp
  have parts: "target_parts ''users'' ''/5'' []" "req_method sample_get \<in> set documented_methods"
    by (simp_all add: target_parts_def isApiArea_def apiAreas_def documented_methods_def q)
  have al: "fst (allow (w_clock ?w) (req_clientIp sample_get) (make_limiter 5))"
    by (simp add: allow_def make_limiter_def hit_def new_bucket_def w)
  have up: "up_ok ?up" by code_simp
  have raw: "concat sample_pieces = http_answer ''HTTP/1.0'' 404 '' No such'' ?hs ''gone''" "[] \<notin> set sample_pieces"
    by code_simp+
  have "length (concat sample_pieces) < 250" by code_simp
  then have len: "length (concat sample_pieces) < kMaxUpstreamBytes" by (simp add: kMaxUpstreamBytes_def)
  have ok: "answer_ok ''HTTP/1.0'' 404 '' No such'' ?hs" "announced_type ?hs = ''text/html''" by code_simp+
  note served = authorized_request_served[OF v j right refl body q(2) parts al g(4) up,
      of "[0]" 0 False _ sample_pieces "''HTTP/1.0''" 404 "'' No such''" ?hs "''gone''"]
  show ?thesis
    by (subst served[THEN conjunct2]) (use raw len ok(1) in \<open>simp_all add: w g ok(2) id\<close>)
qed

end
